(* ===== verification/Prelude.thy ===== *)
theory Prelude
  imports Main "HOL-Library.Sublist" "HOL-Library.List_Lexorder" "HOL-Library.Char_ord"
    "HOL-Library.Multiset" "HOL-Library.Monad_Syntax"
begin

text \<open>
  Shared vocabulary of the development: the named collections of simplification rules, the type
  names used by every component, the ordering and deduplication of lists that the reports of the
  statistics rely on, and a few facts about sums over logs of events.

  Conventions.  A Rust panic is \<^term>\<open>None\<close> of an option where the code can only panic in one
  way, and \<open>Inl\<close> of a sum where the reason matters.  A \<open>String\<close> is its list of bytes, so that
  its \<open>Ord\<close> (bytewise lexicographic) is the order of \<open>HOL-Library.List_Lexorder\<close> over
  \<open>HOL-Library.Char_ord\<close>.  A \<open>Duration\<close> is a natural number of milliseconds.
\<close>

named_theorems stat_simps \<open>reading and appending to the statistics\<close>
named_theorems fx_simps \<open>the fixture cache\<close>
named_theorems run_simps \<open>the runner\<close>
named_theorems node_simps \<open>lists of cluster nodes\<close>

type_synonym duration = nat

definition from_millis :: "nat \<Rightarrow> duration" where
  "from_millis n = n"

definition from_secs :: "nat \<Rightarrow> duration" where
  "from_secs n = 1000 * n"

section \<open>Sorting and removing repetitions\<close>

text \<open>\<open>names.sort(); names.dedup();\<close> of a \<open>Vec\<close>: a sort, then adjacent repetitions removed.\<close>

definition sort_dedup :: "'a::linorder list \<Rightarrow> 'a list" where
  "sort_dedup xs = remdups_adj (sort xs)"

lemma distinct_remdups_adj_sorted: "sorted xs \<Longrightarrow> distinct (remdups_adj xs)"
  by (induction xs rule: remdups_adj.induct) (auto simp: less_le)

lemma sort_dedup_eq: "sort_dedup xs = sorted_list_of_set (set xs)"
proof -
  have "sorted (sort_dedup xs)" and "distinct (sort_dedup xs)"
    by (simp_all add: sort_dedup_def distinct_remdups_adj_sorted sorted_remdups_adj)
  moreover have "set (sort_dedup xs) = set xs"
    by (simp add: sort_dedup_def)
  ultimately show ?thesis
    by (metis List.finite_set sorted_distinct_set_unique sorted_list_of_set(1)
        sorted_list_of_set.distinct_sorted_key_list_of_set
        sorted_list_of_set.sorted_sorted_key_list_of_set set_sorted_list_of_set)
qed

lemma set_sort_dedup [simp]: "set (sort_dedup xs) = set xs"
  by (simp add: sort_dedup_eq)

lemma sorted_sort_dedup [simp]: "sorted (sort_dedup xs)"
  by (simp add: sort_dedup_def sorted_remdups_adj)

lemma distinct_sort_dedup [simp]: "distinct (sort_dedup xs)"
  by (simp add: sort_dedup_def distinct_remdups_adj_sorted)

section \<open>Sums over lists\<close>

text \<open>A sum of a list depends on its multiset only, which is what interleaving preserves.\<close>

lemma sum_list_mset_cong:
  fixes f :: "'a \<Rightarrow> 'b::comm_monoid_add"
  assumes "mset xs = mset ys"
  shows "sum_list (map f xs) = sum_list (map f ys)"
proof -
  have "sum_mset (image_mset f (mset xs)) = sum_mset (image_mset f (mset ys))"
    using assms by simp
  then show ?thesis by (simp flip: sum_mset_sum_list)
qed

lemma length_filter_sum: "length (filter P xs) = (\<Sum>x\<leftarrow>xs. if P x then 1 else (0::nat))"
  by (induction xs) auto

lemma sum_list_map_concat: "sum_list (map f (concat xss)) = (\<Sum>xs\<leftarrow>xss. sum_list (map f xs))"
  for f :: "'a \<Rightarrow> nat"
  by (induction xss) simp_all

lemma distinct_concat_map:
  assumes "distinct xs" and "\<And>x. x \<in> set xs \<Longrightarrow> distinct (f x)"
    and "\<And>x y. x \<in> set xs \<Longrightarrow> y \<in> set xs \<Longrightarrow> x \<noteq> y \<Longrightarrow> set (f x) \<inter> set (f y) = {}"
  shows "distinct (concat (map f xs))"
  using assms by (induction xs) (simp_all add: disjoint_iff, metis)

lemma option_bind_Some_iff [simp]:
  "(Option.bind m f = Some y) \<longleftrightarrow> (\<exists>x. m = Some x \<and> f x = Some y)"
  by (cases m) auto

end
