(* ===== verification/Rust_Strings.thy ===== *)
theory Rust_Strings
  imports Prelude
begin

text \<open>
  The string operations of the Rust standard library that the crates use, on lists of bytes:
  \<open>starts_with\<close>, \<open>contains\<close>, \<open>strip_prefix\<close> and \<open>strip_suffix\<close> of a character, \<open>split("::")\<close>,
  \<open>rsplit_once("::")\<close> and \<open>join("::")\<close>.  The lemmas about them describe paths: a path is the
  join of its components, and a component holds no colon.
\<close>

section \<open>Operations\<close>

definition starts_with :: "string \<Rightarrow> string \<Rightarrow> bool" where
  "starts_with s p = prefix p s"

fun contains_str :: "string \<Rightarrow> string \<Rightarrow> bool" where
  "contains_str [] p = (p = [])"
| "contains_str (c # cs) p = (prefix p (c # cs) \<or> contains_str cs p)"

definition strip_prefix_char :: "char \<Rightarrow> string \<Rightarrow> string option" where
  "strip_prefix_char q s = (case s of [] \<Rightarrow> None | c # cs \<Rightarrow> if c = q then Some cs else None)"

definition strip_suffix_char :: "char \<Rightarrow> string \<Rightarrow> string option" where
  "strip_suffix_char q s = (if s \<noteq> [] \<and> last s = q then Some (butlast s) else None)"

text \<open>\<open>s.split("::")\<close>: leftmost matches that do not overlap.\<close>

fun split_path :: "string \<Rightarrow> string list" where
  "split_path [] = [[]]"
| "split_path [c] = [[c]]"
| "split_path (c # d # ds) =
     (if c = CHR '':'' \<and> d = CHR '':'' then [] # split_path ds
      else (case split_path (d # ds) of [] \<Rightarrow> [[c]] | p # ps \<Rightarrow> (c # p) # ps))"

text \<open>\<open>s.rsplit_once("::")\<close>: split at the rightmost match.\<close>

fun rsplit_once :: "string \<Rightarrow> (string \<times> string) option" where
  "rsplit_once [] = None"
| "rsplit_once (c # cs) =
     (case rsplit_once cs of
        Some (a, b) \<Rightarrow> Some (c # a, b)
      | None \<Rightarrow> if starts_with (c # cs) ''::'' then Some ([], drop 2 (c # cs)) else None)"

text \<open>\<open>parts.join("::")\<close> and the two-part \<open>format!("{a}::{b}")\<close>.\<close>

fun join_path :: "string list \<Rightarrow> string" where
  "join_path [] = []"
| "join_path [p] = p"
| "join_path (p # q # ps) = p @ ''::'' @ join_path (q # ps)"

definition path_cons :: "string \<Rightarrow> string \<Rightarrow> string" where
  "path_cons a b = a @ ''::'' @ b"

lemma contains_str_sublist: "contains_str s p \<longleftrightarrow> sublist p s"
  by (induction s) (auto simp: sublist_Cons_right)

section \<open>Components without a colon\<close>

definition plain :: "string \<Rightarrow> bool" where
  "plain s \<longleftrightarrow> CHR '':'' \<notin> set s"

lemma plain_Nil [simp]: "plain []"
  by (simp add: plain_def)

lemma plain_Cons [simp]: "plain (c # cs) \<longleftrightarrow> c \<noteq> CHR '':'' \<and> plain cs"
  by (auto simp: plain_def)

lemma plain_append [simp]: "plain (a @ b) \<longleftrightarrow> plain a \<and> plain b"
  by (auto simp: plain_def)

lemma starts_with_append [simp]: "starts_with (p @ s) p"
  by (simp add: starts_with_def)

lemma join_path_Cons: "ps \<noteq> [] \<Longrightarrow> join_path (p # ps) = path_cons p (join_path ps)"
  by (cases ps) (auto simp: path_cons_def)

lemma join_path_append:
  "ps \<noteq> [] \<Longrightarrow> qs \<noteq> [] \<Longrightarrow> join_path (ps @ qs) = path_cons (join_path ps) (join_path qs)"
proof (induction ps)
  case (Cons p ps)
  then show ?case
    by (cases "ps = []") (auto simp: join_path_Cons path_cons_def)
qed simp

lemma join_path_snoc: "ps \<noteq> [] \<Longrightarrow> join_path (ps @ [q]) = path_cons (join_path ps) q"
  by (simp add: join_path_append)

subsection \<open>Splitting a path\<close>

lemma split_path_nonempty [simp]: "split_path s \<noteq> []"
  by (induction s rule: split_path.induct) (auto split: list.splits)

lemma split_path_plain: "plain p \<Longrightarrow> split_path p = [p]"
  by (induction p rule: split_path.induct) auto

lemma split_path_path_cons: "plain p \<Longrightarrow> split_path (path_cons p s) = p # split_path s"
proof (induction p)
  case Nil
  then show ?case by (simp add: path_cons_def)
next
  case (Cons c p)
  then have IH: "split_path (p @ ''::'' @ s) = p # split_path s" and c: "c \<noteq> CHR '':''"
    by (auto simp: path_cons_def)
  show ?case
  proof (cases "p @ ''::'' @ s")
    case (Cons d ds)
    with IH c show ?thesis
      by (simp add: path_cons_def split: list.splits)
  qed simp
qed

lemma split_join: "ps \<noteq> [] \<Longrightarrow> \<forall>p \<in> set ps. plain p \<Longrightarrow> split_path (join_path ps) = ps"
proof (induction ps)
  case (Cons p ps)
  then show ?case
    by (cases "ps = []") (auto simp: split_path_plain join_path_Cons split_path_path_cons)
qed simp

lemma join_split: "join_path (split_path s) = s"
proof (induction s rule: split_path.induct)
  case (3 c d ds)
  show ?case
  proof (cases "c = CHR '':'' \<and> d = CHR '':''")
    case True
    with 3 show ?thesis by (simp add: join_path_Cons path_cons_def)
  next
    case False
    obtain p ps where sp: "split_path (d # ds) = p # ps"
      by (cases "split_path (d # ds)") auto
    with 3 False have "join_path (p # ps) = d # ds" by simp
    then have "join_path ((c # p) # ps) = c # d # ds"
      by (cases ps) auto
    with sp False show ?thesis by auto
  qed
qed auto

lemma join_path_inject:
  assumes "ps \<noteq> []" "qs \<noteq> []" "\<forall>p \<in> set ps. plain p" "\<forall>q \<in> set qs. plain q"
  shows "join_path ps = join_path qs \<longleftrightarrow> ps = qs"
  using assms split_join by metis

lemma rsplit_once_plain: "plain t \<Longrightarrow> rsplit_once t = None"
  by (induction t) (auto simp: starts_with_def)

lemma rsplit_once_colon_plain: "plain t \<Longrightarrow> rsplit_once (CHR '':'' # t) = None"
  by (cases t) (auto simp: rsplit_once_plain starts_with_def)

lemma rsplit_once_path_cons: "plain t \<Longrightarrow> rsplit_once (path_cons g t) = Some (g, t)"
proof (induction g)
  case Nil
  then show ?case
    using rsplit_once_colon_plain [of t] by (simp add: path_cons_def starts_with_def)
next
  case (Cons c g)
  then show ?case by (simp add: path_cons_def)
qed

lemma rsplit_once_Some: "rsplit_once s = Some (a, b) \<Longrightarrow> s = path_cons a b"
proof (induction s arbitrary: a b)
  case (Cons c cs)
  show ?case
  proof (cases "rsplit_once cs")
    case None
    with Cons.prems show ?thesis
      by (auto simp: path_cons_def starts_with_def prefix_def split: if_splits)
  next
    case (Some ab)
    with Cons show ?thesis by (cases ab) (auto simp: path_cons_def)
  qed
qed simp

subsection \<open>A path below another\<close>

lemma path_cons_prefix_join:
  assumes "ps \<noteq> []" "qs \<noteq> []" "\<forall>p \<in> set ps. plain p" "\<forall>q \<in> set qs. plain q"
  shows "starts_with (join_path qs) (path_cons (join_path ps) []) \<longleftrightarrow> (\<exists>rs. rs \<noteq> [] \<and> qs = ps @ rs)"
    (is "?lhs \<longleftrightarrow> ?rhs")
proof
  assume ?lhs
  then obtain u where u: "join_path qs = path_cons (join_path ps) u"
    by (auto simp: starts_with_def path_cons_def prefix_def)
  also have "\<dots> = path_cons (join_path ps) (join_path (split_path u))"
    by (simp add: join_split)
  also have "\<dots> = join_path (ps @ split_path u)"
    using assms by (simp add: join_path_append)
  finally have eq: "join_path qs = join_path (ps @ split_path u)" .
  have "split_path (join_path (ps @ split_path u)) = ps @ split_path u"
    using assms(1,3)
  proof (induction ps)
    case (Cons p ps)
    then show ?case
      by (cases "ps = []") (auto simp: join_path_Cons split_path_path_cons join_split)
  qed simp
  with eq have "qs = ps @ split_path u"
    using assms by (metis split_join)
  then show ?rhs by auto
next
  assume ?rhs
  then obtain rs where "rs \<noteq> []" "qs = ps @ rs" by blast
  with assms(1) show ?lhs
    by (auto simp: join_path_append path_cons_def starts_with_def)
qed

end
