(* ===== verification/Statistics.thy ===== *)
theory Statistics
  imports Rust_Strings
begin

text \<open>
  The statistics of a run, \<open>crates/e2etest/src/statistics.rs\<close>: the log of events
  (\<open>Inner.events\<close>), the sets of defined and included test names, \<open>Statistics::record\<close> with the
  assertions that make it panic, and every counter and report computed from the log.

  The two \<open>HashSet\<close>s are sets; \<open>iter_included\<close> enumerates one of them in sorted order, which
  stands for the unspecified order of the hash set: its consumers count it or sort it, and
  \<open>sort_dedup_eq\<close> shows that what they compute depends on the set alone.
\<close>

section \<open>Data\<close>

datatype task = TaskGroup | TaskTest

datatype event =
    SetupLaunched
  | SetupSkipped task
  | SetupPassed
  | SetupFailed task
  | TeardownLaunched
  | TeardownPassed
  | TeardownFailed
  | TestDefined
  | TestIncluded
  | TestLaunched
  | TestPassed
  | TestFailed

record event_entry =
  entry_name :: string
  entry_event :: event

definition is_failed :: "event_entry \<Rightarrow> bool" where
  "is_failed e = (case entry_event e of
      SetupFailed _ \<Rightarrow> True | TestFailed \<Rightarrow> True | TeardownFailed \<Rightarrow> True | _ \<Rightarrow> False)"

record inner =
  defined :: "string set"
  included :: "string set"
  events :: "event_entry list"

definition inner_new :: inner where
  "inner_new = \<lparr>defined = {}, included = {}, events = []\<rparr>"

text \<open>The included tests at or below the path \<open>name\<close>.\<close>

definition iter_included :: "inner \<Rightarrow> string \<Rightarrow> string list" where
  "iter_included s name =
     (let name_with_sentinel = path_cons name [] in
      filter (\<lambda>i. i = name \<or> starts_with i name_with_sentinel)
        (sorted_list_of_set (included s)))"

section \<open>Recording an event\<close>

text \<open>The body of \<open>record\<close> under the lock; \<^term>\<open>None\<close> is a failed assertion.\<close>

definition push_event :: "string \<Rightarrow> event \<Rightarrow> inner \<Rightarrow> inner" where
  "push_event name ev s = s\<lparr>events := events s @ [\<lparr>entry_name = name, entry_event = ev\<rparr>]\<rparr>"

definition record_event :: "string \<Rightarrow> event \<Rightarrow> inner \<Rightarrow> inner option" where
  "record_event name ev s =
     (case ev of
        TestDefined \<Rightarrow> Some (s\<lparr>defined := insert name (defined s)\<rparr>)
      | TestIncluded \<Rightarrow>
          if name \<in> defined s then Some (s\<lparr>included := insert name (included s)\<rparr>) else None
      | TestLaunched \<Rightarrow> if name \<in> included s then Some (push_event name ev s) else None
      | TestPassed \<Rightarrow> if name \<in> included s then Some (push_event name ev s) else None
      | TestFailed \<Rightarrow> if name \<in> included s then Some (push_event name ev s) else None
      | _ \<Rightarrow> if iter_included s name \<noteq> [] then Some (push_event name ev s) else None)"

text \<open>For evaluation: the assertion on fixtures without sorting the set.\<close>

definition any_included :: "inner \<Rightarrow> string \<Rightarrow> bool" where
  "any_included s name \<longleftrightarrow> iter_included s name \<noteq> []"

lemma any_included_code [code]:
  "any_included \<lparr>defined = d, included = set xs, events = es\<rparr> name =
     list_ex (\<lambda>i. i = name \<or> starts_with i (path_cons name [])) xs"
proof -
  have "set (iter_included \<lparr>defined = d, included = set xs, events = es\<rparr> name) =
      {i \<in> set xs. i = name \<or> starts_with i (path_cons name [])}"
    by (auto simp: iter_included_def)
  then have "iter_included \<lparr>defined = d, included = set xs, events = es\<rparr> name \<noteq> [] \<longleftrightarrow>
      {i \<in> set xs. i = name \<or> starts_with i (path_cons name [])} \<noteq> {}"
    by (simp flip: set_empty)
  then show ?thesis by (auto simp: any_included_def list_ex_iff)
qed

lemma record_event_code [code]:
  "record_event name ev s =
     (case ev of
        TestDefined \<Rightarrow> Some (s\<lparr>defined := insert name (defined s)\<rparr>)
      | TestIncluded \<Rightarrow>
          if name \<in> defined s then Some (s\<lparr>included := insert name (included s)\<rparr>) else None
      | TestLaunched \<Rightarrow> if name \<in> included s then Some (push_event name ev s) else None
      | TestPassed \<Rightarrow> if name \<in> included s then Some (push_event name ev s) else None
      | TestFailed \<Rightarrow> if name \<in> included s then Some (push_event name ev s) else None
      | _ \<Rightarrow> if any_included s name then Some (push_event name ev s) else None)"
  by (simp only: record_event_def any_included_def)

text \<open>
  \<open>Statistics\<close> guards \<open>Inner\<close> by a \<open>std::sync::Mutex\<close>.  A failed assertion unwinds while the
  guard is held and poisons the mutex, after which every \<open>lock().unwrap()\<close> panics.
\<close>

datatype 'a mutex = Free 'a | Poisoned 'a

definition statistics_new :: "inner mutex" where
  "statistics_new = Free inner_new"

definition statistics_record :: "string \<Rightarrow> event \<Rightarrow> inner mutex \<Rightarrow> unit option \<times> inner mutex" where
  "statistics_record name ev m =
     (case m of
        Poisoned s \<Rightarrow> (None, Poisoned s)
      | Free s \<Rightarrow> (case record_event name ev s of
          None \<Rightarrow> (None, Poisoned s)
        | Some s' \<Rightarrow> (Some (), Free s')))"

section \<open>Counters\<close>

definition count_events :: "(event \<Rightarrow> bool) \<Rightarrow> inner \<Rightarrow> nat" where
  "count_events P s = length (filter (\<lambda>e. P (entry_event e)) (events s))"

definition is_success :: "inner \<Rightarrow> bool" where
  "is_success s \<longleftrightarrow> included s \<noteq> {} \<and> \<not> list_ex is_failed (events s)"

definition tests_defined :: "inner \<Rightarrow> nat" where
  "tests_defined s = card (defined s)"

definition tests_included :: "inner \<Rightarrow> nat" where
  "tests_included s = card (included s)"

definition tests_launched :: "inner \<Rightarrow> nat" where
  "tests_launched s = count_events (\<lambda>ev. ev = TestLaunched) s"

definition tests_passed :: "inner \<Rightarrow> nat" where
  "tests_passed s = count_events (\<lambda>ev. ev = TestPassed) s"

definition tests_failed :: "inner \<Rightarrow> nat" where
  "tests_failed s = count_events (\<lambda>ev. ev = TestFailed) s"

text \<open>Sum of \<open>iter_included\<close> over the entries of one kind, the \<open>fold\<close> of the source.\<close>

definition count_below :: "event \<Rightarrow> inner \<Rightarrow> nat" where
  "count_below ev s =
     foldl (\<lambda>acc e. length (iter_included s (entry_name e)) + acc) 0
       (filter (\<lambda>e. entry_event e = ev) (events s))"

definition tests_skipped :: "inner \<Rightarrow> nat" where
  "tests_skipped s =
     (let direct = count_events (\<lambda>ev. ev = SetupSkipped TaskTest) s;
          group = count_below (SetupSkipped TaskGroup) s
      in direct + group)"

definition tests_skipped_by_fixture_err :: "inner \<Rightarrow> nat" where
  "tests_skipped_by_fixture_err s =
     (let direct = count_events (\<lambda>ev. ev = SetupFailed TaskTest) s;
          group = count_below (SetupFailed TaskGroup) s
      in direct + group)"

definition setups_launched :: "inner \<Rightarrow> nat" where
  "setups_launched s = count_events (\<lambda>ev. ev = SetupLaunched) s"

definition setups_passed :: "inner \<Rightarrow> nat" where
  "setups_passed s = count_events (\<lambda>ev. ev = SetupPassed) s"

definition setups_skipped :: "inner \<Rightarrow> nat" where
  "setups_skipped s = count_events (\<lambda>ev. case ev of SetupSkipped _ \<Rightarrow> True | _ \<Rightarrow> False) s"

definition setups_failed :: "inner \<Rightarrow> nat" where
  "setups_failed s = count_events (\<lambda>ev. case ev of SetupFailed _ \<Rightarrow> True | _ \<Rightarrow> False) s"

definition teardowns_launched :: "inner \<Rightarrow> nat" where
  "teardowns_launched s = count_events (\<lambda>ev. ev = TeardownLaunched) s"

definition teardowns_passed :: "inner \<Rightarrow> nat" where
  "teardowns_passed s = count_events (\<lambda>ev. ev = TeardownPassed) s"

definition teardowns_failed :: "inner \<Rightarrow> nat" where
  "teardowns_failed s = count_events (\<lambda>ev. ev = TeardownFailed) s"

section \<open>Reports\<close>

definition names_of :: "(event_entry \<Rightarrow> bool) \<Rightarrow> inner \<Rightarrow> string list" where
  "names_of P s = map entry_name (filter P (events s))"

definition names_below :: "event \<Rightarrow> inner \<Rightarrow> string list" where
  "names_below ev s =
     concat (map (\<lambda>e. iter_included s (entry_name e)) (filter (\<lambda>e. entry_event e = ev) (events s)))"

definition tests_passed_names :: "inner \<Rightarrow> string list" where
  "tests_passed_names s = sort_dedup (names_of (\<lambda>e. entry_event e = TestPassed) s)"

definition tests_skipped_names :: "inner \<Rightarrow> string list" where
  "tests_skipped_names s = sort_dedup
     (names_of (\<lambda>e. entry_event e = SetupSkipped TaskTest) s @ names_below (SetupSkipped TaskGroup) s)"

definition tests_skipped_by_fixture_err_names :: "inner \<Rightarrow> string list" where
  "tests_skipped_by_fixture_err_names s = sort_dedup
     (names_of (\<lambda>e. entry_event e = SetupFailed TaskTest) s @ names_below (SetupFailed TaskGroup) s)"

definition failed_names :: "inner \<Rightarrow> string list" where
  "failed_names s = sort_dedup (names_of is_failed s)"

text \<open>The fields of the \<open>Debug\<close> rendering, in order.\<close>

definition debug_fields :: "inner \<Rightarrow> (string \<times> nat) list" where
  "debug_fields s =
     [(''tests_defined'', tests_defined s),
      (''tests_included'', tests_included s),
      (''tests_launched'', tests_launched s),
      (''tests_skipped'', tests_skipped s),
      (''tests_skipped_by_fixture_err'', tests_skipped_by_fixture_err s),
      (''tests_passed'', tests_passed s),
      (''tests_failed'', tests_failed s),
      (''setups_launched'', setups_launched s),
      (''setups_skipped'', setups_skipped s),
      (''setups_passed'', setups_passed s),
      (''setups_failed'', setups_failed s),
      (''teardowns_launched'', teardowns_launched s),
      (''teardowns_passed'', teardowns_passed s),
      (''teardowns_failed'', teardowns_failed s)]"

section \<open>What is below a path\<close>

definition below :: "string \<Rightarrow> string \<Rightarrow> bool" where
  "below name i \<longleftrightarrow> i = name \<or> starts_with i (path_cons name [])"

lemma below_refl [simp]: "below n n"
  by (simp add: below_def)

lemma set_iter_included:
  "finite (included s) \<Longrightarrow> set (iter_included s name) = {i \<in> included s. below name i}"
  by (auto simp: iter_included_def below_def Let_def)

lemma length_iter_included:
  assumes "finite (included s)"
  shows "length (iter_included s name) = card {i \<in> included s. below name i}"
proof -
  have "distinct (iter_included s name)"
    by (simp add: iter_included_def Let_def)
  then show ?thesis
    using assms by (metis distinct_card set_iter_included)
qed

lemma iter_included_empty_iff:
  "finite (included s) \<Longrightarrow> iter_included s name = [] \<longleftrightarrow> (\<forall>i \<in> included s. \<not> below name i)"
  using set_iter_included [of s name] by (auto simp flip: set_empty)

lemma iter_included_cong: "included s = included s' \<Longrightarrow> iter_included s = iter_included s'"
  by (simp add: iter_included_def fun_eq_iff)

section \<open>The invariant of a log\<close>

fun is_test_event :: "event \<Rightarrow> bool" where
  "is_test_event TestLaunched = True"
| "is_test_event TestPassed = True"
| "is_test_event TestFailed = True"
| "is_test_event _ = False"

fun is_selection_event :: "event \<Rightarrow> bool" where
  "is_selection_event TestDefined = True"
| "is_selection_event TestIncluded = True"
| "is_selection_event _ = False"

definition recordable :: "string set \<Rightarrow> string \<Rightarrow> event \<Rightarrow> bool" where
  "recordable inc name ev \<longleftrightarrow> \<not> is_selection_event ev \<and>
     (if is_test_event ev then name \<in> inc else (\<exists>i \<in> inc. below name i))"

definition well_recorded :: "inner \<Rightarrow> bool" where
  "well_recorded s \<longleftrightarrow> finite (defined s) \<and> included s \<subseteq> defined s \<and>
     (\<forall>e \<in> set (events s). recordable (included s) (entry_name e) (entry_event e))"

lemma well_recorded_finite: "well_recorded s \<Longrightarrow> finite (included s)"
  by (auto simp: well_recorded_def intro: finite_subset)

lemma well_recorded_new: "well_recorded inner_new"
  by (simp add: well_recorded_def inner_new_def)

lemma recordable_mono: "recordable inc n ev \<Longrightarrow> inc \<subseteq> inc' \<Longrightarrow> recordable inc' n ev"
  by (auto simp: recordable_def split: if_splits)

lemma recordable_insert: "recordable inc n ev \<Longrightarrow> recordable (insert i inc) n ev"
  by (rule recordable_mono) auto

lemma push_event_fields [stat_simps]:
  "events (push_event n ev s) = events s @ [\<lparr>entry_name = n, entry_event = ev\<rparr>]"
  "included (push_event n ev s) = included s"
  "defined (push_event n ev s) = defined s"
  by (simp_all add: push_event_def)

text \<open>
  The exact effect of \<open>record\<close> on an event of the log: it appends the entry when the path is
  known and panics otherwise.
\<close>

lemma record_event_log:
  assumes "finite (included s)" and "\<not> is_selection_event ev"
  shows "record_event n ev s =
    (if recordable (included s) n ev then Some (push_event n ev s) else None)"
  using assms
  by (cases ev) (auto simp: record_event_def recordable_def iter_included_empty_iff)

lemma record_event_defined: "record_event n TestDefined s = Some (s\<lparr>defined := insert n (defined s)\<rparr>)"
  by (simp add: record_event_def)

lemma record_event_included:
  "record_event n TestIncluded s =
    (if n \<in> defined s then Some (s\<lparr>included := insert n (included s)\<rparr>) else None)"
  by (simp add: record_event_def)

lemma record_event_well_recorded:
  assumes "well_recorded s" and "record_event n ev s = Some s'"
  shows "well_recorded s'"
proof (cases "is_selection_event ev")
  case True
  with assms show ?thesis
    by (cases ev)
      (auto simp: well_recorded_def record_event_defined record_event_included recordable_insert
        split: if_splits)
next
  case False
  with assms show ?thesis
    by (auto simp: record_event_log well_recorded_finite well_recorded_def stat_simps
        split: if_splits)
qed

section \<open>The interface of the log\<close>

text \<open>
  What the runner relies on: a state with a set of known paths and a log, where an event whose
  path is known is appended and leaves the known paths alone, and an unknown one panics.
\<close>

locale event_log =
  fixes put :: "string \<Rightarrow> event \<Rightarrow> 's \<Rightarrow> 's option"
    and known :: "'s \<Rightarrow> string set"
    and log :: "'s \<Rightarrow> event_entry list"
    and wf :: "'s \<Rightarrow> bool"
  assumes put_known: "wf s \<Longrightarrow> recordable (known s) n ev \<Longrightarrow>
      \<exists>s'. put n ev s = Some s' \<and> wf s' \<and> known s' = known s \<and>
        log s' = log s @ [\<lparr>entry_name = n, entry_event = ev\<rparr>]"
    and put_unknown: "wf s \<Longrightarrow> \<not> is_selection_event ev \<Longrightarrow> \<not> recordable (known s) n ev \<Longrightarrow>
      put n ev s = None"
begin

fun put_all :: "event_entry list \<Rightarrow> 's \<Rightarrow> 's option" where
  "put_all [] s = Some s"
| "put_all (e # es) s = Option.bind (put (entry_name e) (entry_event e) s) (put_all es)"

lemma put_all_known:
  assumes "wf s" and "\<forall>e \<in> set es. recordable (known s) (entry_name e) (entry_event e)"
  shows "\<exists>s'. put_all es s = Some s' \<and> wf s' \<and> known s' = known s \<and> log s' = log s @ es"
  using assms
proof (induction es arbitrary: s)
  case (Cons e es)
  obtain s1 where s1: "put (entry_name e) (entry_event e) s = Some s1" "wf s1" "known s1 = known s"
      "log s1 = log s @ [e]"
    using put_known [of s "entry_name e" "entry_event e"] Cons.prems by auto
  have "\<forall>x \<in> set es. recordable (known s1) (entry_name x) (entry_event x)"
    using Cons.prems(2) s1(3) by simp
  from Cons.IH [OF s1(2) this] s1 show ?case by auto
qed simp

lemma put_SomeD:
  assumes "wf s" and "\<not> is_selection_event ev" and "put n ev s = Some s'"
  shows "recordable (known s) n ev \<and> wf s' \<and> known s' = known s \<and>
    log s' = log s @ [\<lparr>entry_name = n, entry_event = ev\<rparr>]"
  using put_known [of s n ev] put_unknown [of s ev n] assms by fastforce

end

interpretation slog: event_log record_event included events well_recorded
proof unfold_locales
  fix s n ev
  assume wf: "well_recorded s" and ok: "recordable (included s) n ev"
  then have log: "record_event n ev s = Some (push_event n ev s)"
    by (auto simp: record_event_log well_recorded_finite recordable_def)
  with wf show "\<exists>s'. record_event n ev s = Some s' \<and> well_recorded s' \<and>
      included s' = included s \<and> events s' = events s @ [\<lparr>entry_name = n, entry_event = ev\<rparr>]"
    by (auto simp: stat_simps intro: record_event_well_recorded)
qed (auto simp: record_event_log well_recorded_finite)

section \<open>The counters as sums over the log\<close>

lemma count_events_sum: "count_events P s = (\<Sum>e\<leftarrow>events s. if P (entry_event e) then 1 else 0)"
  by (simp add: count_events_def length_filter_sum)

lemma count_below_sum:
  "count_below ev s =
     (\<Sum>e\<leftarrow>events s. if entry_event e = ev then length (iter_included s (entry_name e)) else 0)"
proof -
  have "foldl (\<lambda>acc e. length (iter_included s (entry_name e)) + acc) a
          (filter (\<lambda>e. entry_event e = ev) es) =
        a + (\<Sum>e\<leftarrow>es. if entry_event e = ev then length (iter_included s (entry_name e)) else 0)" for a es
    by (induction es arbitrary: a) auto
  from this [of 0 "events s"] show ?thesis by (simp add: count_below_def)
qed

text \<open>What a report says depends on the selected names and on the multiset of events only.\<close>

definition same_run :: "inner \<Rightarrow> inner \<Rightarrow> bool" where
  "same_run s s' \<longleftrightarrow> defined s = defined s' \<and> included s = included s' \<and> mset (events s) = mset (events s')"

lemma count_events_same_run: "same_run s s' \<Longrightarrow> count_events P s = count_events P s'"
  by (auto simp: count_events_sum same_run_def intro: sum_list_mset_cong)

lemma count_below_same_run: "same_run s s' \<Longrightarrow> count_below ev s = count_below ev s'"
  unfolding count_below_sum same_run_def
  by (subst iter_included_cong [of s s']) (auto intro: sum_list_mset_cong)

lemmas counter_defs = tests_launched_def tests_passed_def tests_failed_def tests_skipped_def
  tests_skipped_by_fixture_err_def setups_launched_def setups_passed_def setups_skipped_def
  setups_failed_def teardowns_launched_def teardowns_passed_def teardowns_failed_def
  tests_defined_def tests_included_def Let_def

lemma debug_fields_same_run: "same_run s s' \<Longrightarrow> debug_fields s = debug_fields s'"
  by (simp add: debug_fields_def counter_defs count_events_same_run [of s s']
      count_below_same_run [of s s']) (simp add: same_run_def)

lemma set_events_same_run: "same_run s s' \<Longrightarrow> set (events s) = set (events s')"
  by (auto simp: same_run_def dest: mset_eq_setD)

lemma set_names_of: "set (names_of P s) = entry_name ` {e \<in> set (events s). P e}"
  by (auto simp: names_of_def)

lemma set_names_below:
  "finite (included s) \<Longrightarrow> set (names_below ev s) =
    {i \<in> included s. \<exists>e \<in> set (events s). entry_event e = ev \<and> below (entry_name e) i}"
  by (auto simp: names_below_def set_iter_included)

section \<open>Success\<close>

lemma count_events_0_iff: "count_events P s = 0 \<longleftrightarrow> (\<forall>e \<in> set (events s). \<not> P (entry_event e))"
  by (auto simp: count_events_def filter_empty_conv)

lemma is_success_iff:
  assumes "finite (included s)"
  shows "is_success s \<longleftrightarrow> 0 < tests_included s \<and> tests_failed s = 0 \<and> setups_failed s = 0 \<and>
    teardowns_failed s = 0"
proof -
  have "\<not> is_failed e \<longleftrightarrow> entry_event e \<noteq> TestFailed \<and> entry_event e \<noteq> TeardownFailed \<and>
      \<not> (case entry_event e of SetupFailed _ \<Rightarrow> True | _ \<Rightarrow> False)" for e
    by (auto simp: is_failed_def split: event.splits)
  with assms show ?thesis
    by (auto simp: is_success_def counter_defs count_events_0_iff list_ex_iff card_gt_0_iff)
qed

lemma no_setup_failed_no_skip: "setups_failed s = 0 \<Longrightarrow> tests_skipped_by_fixture_err s = 0"
  by (auto simp: counter_defs count_events_0_iff count_below_sum sum_list_nonneg_eq_0_iff)

end
