(* ===== verification/Fixtures.thy ===== *)
theory Fixtures
  imports Prelude
begin

text \<open>
  The fixture manager, \<open>crates/e2etest/src/fixture.rs\<close>: the cache of fixtures that are set up,
  the permanent fixtures, \<open>Setup::setup\<close> and \<open>Setup::get\<close>, and the teardown loop that drops
  every fixture nobody holds any more.

  The bodies of \<open>Fixture::setup\<close> and \<open>Fixture::teardown\<close> are code of the framework's users.  They
  are parameters: a value of type \<open>setup_code\<close> is the tree of the calls such a body makes on
  \<open>&mut impl Setup\<close>, with a branch for each answer, and a value of type \<open>fut\<close> is a future that
  completes, panics or hangs.  A fixture type in Rust is known at compile time, so the code of a
  dependency stands inside the tree that calls it and the recursion of \<open>setup\<close> is structural.

  An \<open>Arc\<close> of a cached fixture is named by its type: an entry leaves the cache only when its
  strong count is 1, so two live instances of one type never exist.  The strong count is
  computed from its owners: the cache itself, the running groups and tests (\<open>handles\<close>) and the
  other cached fixtures (\<open>ca_arcs\<close>).  The iteration order of the hash map is that of an arbitrary
  hash function (\<open>hasher\<close>).  \<open>calls\<close> is a history of the fixtures built and torn down.
\<close>

section \<open>Data\<close>

type_synonym type_id = nat

datatype fut = Ready_After nat | Panics_After nat | Hangs

datatype fixture =
    Fixture (fx_type: type_id) (fx_timeout_setup: "duration option")
      (fx_timeout_teardown: "duration option") (fx_concurrent: bool)
      (fx_setup: setup_code) (fx_teardown: fut)
  and setup_code =
    Return_Some "type_id list"
  | Return_None
  | Panic_Now
  | Hang
  | Sleep nat setup_code
  | Call_Setup fixture setup_code setup_code
  | Call_Get type_id setup_code setup_code

text \<open>\<open>Skip\<close>, the fixture that never sets up, and the defaults of the trait.\<close>

definition default_timeout_setup :: "duration option" where
  "default_timeout_setup = None"

definition default_timeout_teardown :: "duration option" where
  "default_timeout_teardown = None"

definition default_can_run_concurrently :: bool where
  "default_can_run_concurrently = False"

definition skip_fixture :: "type_id \<Rightarrow> fixture" where
  "skip_fixture t = Fixture t default_timeout_setup default_timeout_teardown
     default_can_run_concurrently Return_None (Ready_After 0)"

record cached =
  ca_type :: type_id
  ca_arcs :: "type_id list"
  ca_teardown :: fut

datatype call = Built type_id | Torn type_id

datatype arc = Permanent_Arc nat | Cached_Arc type_id

record fixtures =
  permanent :: "type_id \<rightharpoonup> nat"
  cache :: "cached list"
  handles :: "type_id \<Rightarrow> nat"
  hasher :: "type_id \<Rightarrow> nat"
  calls :: "call list"

definition cached_types :: "cached list \<Rightarrow> type_id set" where
  "cached_types es = ca_type ` set es"

text \<open>\<open>with_permanent\<close> collects pairs into a map, so the last fixture of a type is kept.\<close>

definition fixtures_with_permanent ::
    "(type_id \<Rightarrow> nat) \<Rightarrow> (type_id \<times> nat) list \<Rightarrow> fixtures" where
  "fixtures_with_permanent h fs =
     \<lparr>permanent = foldl (\<lambda>m (t, v). m(t \<mapsto> v)) Map.empty fs, cache = [], handles = (\<lambda>_. 0),
      hasher = h, calls = []\<rparr>"

definition fixtures_new :: "(type_id \<Rightarrow> nat) \<Rightarrow> fixtures" where
  "fixtures_new h =
     \<lparr>permanent = Map.empty, cache = [], handles = (\<lambda>_. 0), hasher = h, calls = []\<rparr>"

section \<open>Setup\<close>

definition inner_get :: "type_id \<Rightarrow> fixtures \<Rightarrow> arc option" where
  "inner_get t s =
     (case permanent s t of
        Some v \<Rightarrow> Some (Permanent_Arc v)
      | None \<Rightarrow> if t \<in> cached_types (cache s) then Some (Cached_Arc t) else None)"

definition cache_insert :: "cached \<Rightarrow> cached list \<Rightarrow> cached list" where
  "cache_insert e es = filter (\<lambda>x. ca_type x \<noteq> ca_type e) es @ [e]"

datatype code_end = Code_Some "type_id list" | Code_None | Code_Aborted

datatype setup_end = Setup_Some arc | Setup_None | Setup_Aborted

text \<open>
  \<open>inner_setup\<close> is \<open>Inner::setup\<close>.  \<open>run_setup\<close> runs the body of a \<open>Fixture::setup\<close>: the list
  \<open>got\<close> holds the cached fixtures whose \<open>Arc\<close> it has received, the duration is what is left of the
  timeout around the whole future, and \<open>Code_Aborted\<close> is a panic or the future dropped by the
  timeout.
\<close>

fun inner_setup :: "fixture \<Rightarrow> duration \<Rightarrow> fixtures \<Rightarrow> (setup_end \<times> duration) \<times> fixtures"
  and run_setup ::
    "setup_code \<Rightarrow> type_id list \<Rightarrow> duration \<Rightarrow> fixtures \<Rightarrow> (code_end \<times> duration) \<times> fixtures"
where
  "inner_setup (Fixture t ts tt conc code td) b s =
     (if permanent s t \<noteq> None \<or> t \<in> cached_types (cache s)
      then ((case inner_get t s of Some a \<Rightarrow> Setup_Some a | None \<Rightarrow> Setup_None, b), s)
      else (case run_setup code [] b s of
          ((Code_Some arcs, b'), s') \<Rightarrow>
            ((Setup_Some (Cached_Arc t), b'),
             s'\<lparr>cache := cache_insert \<lparr>ca_type = t, ca_arcs = arcs, ca_teardown = td\<rparr> (cache s'),
                calls := calls s' @ [Built t]\<rparr>)
        | ((Code_None, b'), s') \<Rightarrow> ((Setup_None, b'), s')
        | ((Code_Aborted, b'), s') \<Rightarrow> ((Setup_Aborted, b'), s')))"
| "run_setup (Return_Some arcs) got b s = ((Code_Some (filter (\<lambda>t. t \<in> set got) arcs), b), s)"
| "run_setup Return_None got b s = ((Code_None, b), s)"
| "run_setup Panic_Now got b s = ((Code_Aborted, b), s)"
| "run_setup Hang got b s = ((Code_Aborted, 0), s)"
| "run_setup (Sleep n k) got b s =
     (if n \<le> b then run_setup k got (b - n) s else ((Code_Aborted, 0), s))"
| "run_setup (Call_Setup f k_some k_none) got b s =
     (case inner_setup f b s of
        ((Setup_Some (Cached_Arc t), b'), s') \<Rightarrow> run_setup k_some (t # got) b' s'
      | ((Setup_Some (Permanent_Arc v), b'), s') \<Rightarrow> run_setup k_some got b' s'
      | ((Setup_None, b'), s') \<Rightarrow> run_setup k_none got b' s'
      | ((Setup_Aborted, b'), s') \<Rightarrow> ((Code_Aborted, b'), s'))"
| "run_setup (Call_Get t k_some k_none) got b s =
     (case inner_get t s of
        Some (Cached_Arc t') \<Rightarrow> run_setup k_some (t' # got) b s
      | Some (Permanent_Arc v) \<Rightarrow> run_setup k_some got b s
      | None \<Rightarrow> run_setup k_none got b s)"

section \<open>Teardown\<close>

definition strong_count :: "(type_id \<Rightarrow> nat) \<Rightarrow> cached list \<Rightarrow> type_id \<Rightarrow> nat" where
  "strong_count h es t = 1 + h t + (\<Sum>e\<leftarrow>es. count_list (ca_arcs e) t)"

text \<open>What is left of the time after awaiting a future, \<^term>\<open>None\<close> if it panics or runs out.\<close>

fun run_fut :: "fut \<Rightarrow> duration \<Rightarrow> duration option" where
  "run_fut (Ready_After n) b = (if n \<le> b then Some (b - n) else None)"
| "run_fut (Panics_After n) b = None"
| "run_fut Hangs b = None"

text \<open>
  One run of the \<open>for\<close> loop over \<open>extract_if\<close>: each entry is looked at in turn, its count taken
  with the entries that are in the map at that moment.  The result says whether the pass came to
  its end, the entries left, the time left, and \<open>found_any\<close>.
\<close>

fun teardown_pass ::
    "(type_id \<Rightarrow> nat) \<Rightarrow> cached list \<Rightarrow> cached list \<Rightarrow> duration \<Rightarrow> bool \<Rightarrow> call list \<Rightarrow>
     bool \<times> cached list \<times> duration \<times> bool \<times> call list" where
  "teardown_pass h kept [] b found log = (True, kept, b, found, log)"
| "teardown_pass h kept (e # es) b found log =
     (if strong_count h (kept @ e # es) (ca_type e) = 1
      then (case run_fut (ca_teardown e) b of
          Some b' \<Rightarrow> teardown_pass h kept es b' True (log @ [Torn (ca_type e)])
        | None \<Rightarrow> (False, kept @ es, 0, True, log @ [Torn (ca_type e)]))
      else teardown_pass h (kept @ [e]) es b found log)"

definition iteration_order :: "fixtures \<Rightarrow> cached list" where
  "iteration_order s = sort_key (\<lambda>e. hasher s (ca_type e)) (cache s)"

lemma teardown_pass_length:
  "teardown_pass h kept es b found log = (ok, c, b', found', log') \<Longrightarrow>
     length c \<le> length kept + length es \<and>
     (found' \<longrightarrow> \<not> found \<longrightarrow> length c < length kept + length es)"
proof (induction h kept es b found log rule: teardown_pass.induct)
  case (2 h kept e es b found log)
  then show ?case by (fastforce split: if_splits option.splits)
qed auto

function inner_teardown :: "duration \<Rightarrow> fixtures \<Rightarrow> bool \<times> fixtures" where
  "inner_teardown b s =
     (case teardown_pass (handles s) [] (iteration_order s) b False (calls s) of
        (ok, c, b', found_any, log) \<Rightarrow>
          (let s' = s\<lparr>cache := c, calls := log\<rparr> in
           if \<not> ok then (False, s')
           else if found_any then inner_teardown b' s'
           else (True, s')))"
  by pat_completeness auto
termination
  by (relation "measure (\<lambda>(b, s). length (cache s))")
    (auto dest!: sym [of "(True, _)"] dest: teardown_pass_length simp: iteration_order_def)

declare inner_teardown.simps [simp del]

end
