(* ===== verification/Test_Tree.thy ===== *)
theory Test_Tree
  imports Rust_Strings Fixtures
begin

text \<open>
  The tree of groups and tests the framework is given: the traits \<open>Test\<close>, \<open>RunTest\<close>, \<open>Group\<close> and
  \<open>RunGroup\<close> of \<open>crates/e2etest/src/test.rs\<close> and \<open>crates/e2etest/src/group.rs\<close> as data, and
  \<open>RunGroup::test_names\<close>.  The body of a test is the future the user wrote.
\<close>

section \<open>Data\<close>

record test_desc =
  t_name :: string
  t_timeout :: "duration option"
  t_fixture :: fixture
  t_body :: fut

definition can_run_concurrently :: "test_desc \<Rightarrow> bool" where
  "can_run_concurrently t = fx_concurrent (t_fixture t)"

datatype group =
  Group (g_name: string) (g_fixture: fixture) (g_tests: "test_desc list") (g_groups: "group list")

text \<open>The names of all tests below a group, relative to it: those of the subgroups first.\<close>

fun test_names :: "group \<Rightarrow> string list" where
  "test_names (Group name fixture tests groups) =
     concat (map (\<lambda>g. map (\<lambda>test. path_cons (g_name g) test) (test_names g)) groups) @
     map t_name tests"

section \<open>Names and paths\<close>

text \<open>
  Names are identifiers: they hold no colon, and the tests and subgroups of a group have
  different names.
\<close>

fun well_named :: "group \<Rightarrow> bool" where
  "well_named (Group name fixture tests groups) =
     (plain name \<and> (\<forall>t \<in> set tests. plain (t_name t)) \<and>
      distinct (map g_name groups @ map t_name tests) \<and> (\<forall>g \<in> set groups. well_named g))"

text \<open>No group is empty: each has a test in it or in one of its subgroups.\<close>

fun no_empty_group :: "group \<Rightarrow> bool" where
  "no_empty_group (Group name fixture tests groups) =
     ((tests \<noteq> [] \<or> groups \<noteq> []) \<and> (\<forall>g \<in> set groups. no_empty_group g))"

text \<open>The tests below a group, each with the names of the groups on the way to it.\<close>

fun test_paths :: "group \<Rightarrow> (string list \<times> test_desc) list" where
  "test_paths (Group name fixture tests groups) =
     concat (map (\<lambda>g. map (\<lambda>(p, t). (g_name g # p, t)) (test_paths g)) groups) @
     map (\<lambda>t. ([], t)) tests"

lemma test_names_paths: "test_names g = map (\<lambda>(p, t). join_path (p @ [t_name t])) (test_paths g)"
proof (induction g)
  case (Group n f ts gs)
  have "map (\<lambda>test. path_cons (g_name g) test) (test_names g) =
      map (\<lambda>(p, t). join_path (p @ [t_name t])) (map (\<lambda>(p, t). (g_name g # p, t)) (test_paths g))"
    if "g \<in> set gs" for g
    using Group.IH [OF that] by (simp add: join_path_Cons case_prod_unfold)
  then have "concat (map (\<lambda>g. map (\<lambda>test. path_cons (g_name g) test) (test_names g)) gs) =
      concat (map (\<lambda>g. map (\<lambda>(p, t). join_path (p @ [t_name t]))
        (map (\<lambda>(p, t). (g_name g # p, t)) (test_paths g))) gs)"
    by (metis (no_types, lifting) map_cong)
  then show ?case
    by (simp add: map_concat comp_def case_prod_unfold)
qed

lemma test_paths_plain:
  "well_named g \<Longrightarrow> (p, t) \<in> set (test_paths g) \<Longrightarrow> (\<forall>x \<in> set p. plain x) \<and> plain (t_name t)"
proof (induction g arbitrary: p)
  case (Group n f ts gs)
  have "well_named g \<Longrightarrow> plain (g_name g)" for g by (cases g) simp
  with Group show ?case by fastforce
qed

lemma well_named_name: "well_named g \<Longrightarrow> plain (g_name g)"
  by (cases g) simp

lemma no_empty_group_paths: "no_empty_group g \<Longrightarrow> test_paths g \<noteq> []"
proof (induction g)
  case (Group n f ts gs)
  then show ?case by (cases gs) auto
qed

end
