(* ===== verification/Tasks.thy ===== *)
theory Tasks
  imports Statistics Test_Tree
begin

text \<open>
  One setup, teardown or test: \<open>crates/e2etest/src/task.rs\<close>, and the run of one test,
  \<open>run_test\<close> of \<open>crates/e2etest/src/test.rs\<close>.

  A \<open>world\<close> is what the clones of a \<open>RunContext\<close> share: the statistics, the fixtures and the
  runtime: a list of decisions of the executor and a policy of admission, both arbitrary (see
  \<open>Runner\<close>).  Every operation
  returns \<^term>\<open>None\<close> when an assertion of \<open>record\<close> panics, which unwinds the run.

  \<open>run_test\<close> is the code as it is written, for a test that runs alone.  \<open>test_step\<close> is the same
  code cut at its suspension points, for tests that run side by side: between two awaits of a
  spawned task the code of one test is not interrupted by that of another, a spawned setup or
  teardown runs under the lock of the fixtures, and it may have waited for that lock any time.
\<close>

section \<open>The shared state\<close>

text \<open>
  The runtime, a parameter of a run: what the executor decides at each point where it may go on with
  one task or another, and when the combinator of concurrent futures takes one more of them, given
  its limit and how many it is running.
\<close>

record runtime =
  rt_choices :: "(nat \<times> nat) list"
  rt_admits :: "nat option \<Rightarrow> nat \<Rightarrow> bool"

record world =
  w_stats :: inner
  w_fx :: fixtures
  w_sched :: "(nat \<times> nat) list"
  w_admits :: "nat option \<Rightarrow> nat \<Rightarrow> bool"

definition record_w :: "string \<Rightarrow> event \<Rightarrow> world \<Rightarrow> world option" where
  "record_w name ev w = map_option (\<lambda>s. w\<lparr>w_stats := s\<rparr>) (record_event name ev (w_stats w))"

definition unwrap_or :: "duration option \<Rightarrow> duration \<Rightarrow> duration" where
  "unwrap_or o_d d = (case o_d of Some x \<Rightarrow> x | None \<Rightarrow> d)"

text \<open>One more, or one less, clone of an \<open>Arc\<close> in the hands of a group or a test.\<close>

fun arc_handles :: "arc \<Rightarrow> type_id \<Rightarrow> nat" where
  "arc_handles (Cached_Arc t) u = (if u = t then 1 else 0)"
| "arc_handles (Permanent_Arc v) u = 0"

definition hold_arc :: "arc \<Rightarrow> fixtures \<Rightarrow> fixtures" where
  "hold_arc a s = s\<lparr>handles := \<lambda>u. handles s u + arc_handles a u\<rparr>"

definition release_arc :: "arc \<Rightarrow> fixtures \<Rightarrow> fixtures" where
  "release_arc a s = s\<lparr>handles := \<lambda>u. handles s u - arc_handles a u\<rparr>"

definition drop_arc :: "arc \<Rightarrow> world \<Rightarrow> world" where
  "drop_arc a w = w\<lparr>w_fx := release_arc a (w_fx w)\<rparr>"

section \<open>Spawned tasks\<close>

text \<open>How a task ends: \<open>timeout(..).await.expect(..)\<close> turns a timeout into a panic.\<close>

datatype 'a task_end = Finished 'a | Panicked

fun single :: "'a task_end \<Rightarrow> unit + 'a" where
  "single (Finished t) = Inr t"
| "single Panicked = Inl ()"

text \<open>
  \<open>Fixtures::setup\<close> and \<open>Fixtures::teardown\<close> as spawned by \<open>single\<close>: \<open>wait\<close> is the time spent
  before the lock is taken, part of the timeout.
\<close>

definition fixtures_setup ::
    "fixture \<Rightarrow> duration \<Rightarrow> duration \<Rightarrow> fixtures \<Rightarrow> arc option task_end \<times> fixtures" where
  "fixtures_setup f timeout wait s =
     (if timeout < wait then (Panicked, s)
      else case inner_setup f (timeout - wait) s of
        ((Setup_Some a, _), s') \<Rightarrow> (Finished (Some a), hold_arc a s')
      | ((Setup_None, _), s') \<Rightarrow> (Finished None, s')
      | ((Setup_Aborted, _), s') \<Rightarrow> (Panicked, s'))"

definition fixtures_teardown ::
    "duration \<Rightarrow> duration \<Rightarrow> fixtures \<Rightarrow> unit task_end \<times> fixtures" where
  "fixtures_teardown timeout wait s =
     (if timeout < wait then (Panicked, s)
      else case inner_teardown (timeout - wait) s of
        (True, s') \<Rightarrow> (Finished (), s')
      | (False, s') \<Rightarrow> (Panicked, s'))"

definition run_body :: "fut \<Rightarrow> duration \<Rightarrow> unit task_end" where
  "run_body body timeout = (case run_fut body timeout of Some _ \<Rightarrow> Finished () | None \<Rightarrow> Panicked)"

definition spawn_setup ::
    "fixture \<Rightarrow> duration \<Rightarrow> duration \<Rightarrow> world \<Rightarrow> (unit + arc option) \<times> world" where
  "spawn_setup f timeout wait w =
     (case fixtures_setup f timeout wait (w_fx w) of (r, s) \<Rightarrow> (single r, w\<lparr>w_fx := s\<rparr>))"

definition spawn_teardown :: "duration \<Rightarrow> duration \<Rightarrow> world \<Rightarrow> (unit + unit) \<times> world" where
  "spawn_teardown timeout wait w =
     (case fixtures_teardown timeout wait (w_fx w) of (r, s) \<Rightarrow> (single r, w\<lparr>w_fx := s\<rparr>))"

section \<open>Recorded tasks\<close>

fun setup_event :: "task \<Rightarrow> unit + arc option \<Rightarrow> event" where
  "setup_event task (Inr (Some _)) = SetupPassed"
| "setup_event task (Inr None) = SetupSkipped task"
| "setup_event task (Inl _) = SetupFailed task"

fun teardown_event :: "unit + unit \<Rightarrow> event" where
  "teardown_event (Inr _) = TeardownPassed"
| "teardown_event (Inl _) = TeardownFailed"

fun test_event :: "unit + unit \<Rightarrow> event" where
  "test_event (Inr _) = TestPassed"
| "test_event (Inl _) = TestFailed"

definition task_setup ::
    "string \<Rightarrow> task \<Rightarrow> fixture \<Rightarrow> duration \<Rightarrow> world \<Rightarrow> ((unit + arc option) \<times> world) option" where
  "task_setup name task f timeout w =
     do { w1 \<leftarrow> record_w name SetupLaunched w;
          let (result, w2) = spawn_setup f timeout 0 w1;
          w3 \<leftarrow> record_w name (setup_event task result) w2;
          Some (result, w3) }"

definition task_teardown :: "string \<Rightarrow> duration \<Rightarrow> world \<Rightarrow> world option" where
  "task_teardown name timeout w =
     do { w1 \<leftarrow> record_w name TeardownLaunched w;
          let (result, w2) = spawn_teardown timeout 0 w1;
          record_w name (teardown_event result) w2 }"

definition task_test :: "string \<Rightarrow> fut \<Rightarrow> duration \<Rightarrow> world \<Rightarrow> world option" where
  "task_test name body timeout w =
     do { w1 \<leftarrow> record_w name TestLaunched w;
          let result = single (run_body body timeout);
          record_w name (test_event result) w1 }"

section \<open>A test that runs alone\<close>

definition test_path :: "string \<Rightarrow> test_desc \<Rightarrow> string" where
  "test_path group_name t = path_cons group_name (t_name t)"

definition setup_timeout :: "fixture \<Rightarrow> duration \<Rightarrow> duration" where
  "setup_timeout f d = unwrap_or (fx_timeout_setup f) d"

definition teardown_timeout :: "fixture \<Rightarrow> duration \<Rightarrow> duration" where
  "teardown_timeout f d = unwrap_or (fx_timeout_teardown f) d"

definition body_timeout :: "test_desc \<Rightarrow> duration \<Rightarrow> duration" where
  "body_timeout t d = unwrap_or (t_timeout t) d"

definition run_test :: "duration \<Rightarrow> string \<Rightarrow> test_desc \<Rightarrow> world \<Rightarrow> world option" where
  "run_test default_timeout group_name t w =
     (let name = test_path group_name t; f = t_fixture t in
      do { (fixture, w) \<leftarrow> task_setup name TaskTest f (setup_timeout f default_timeout) w;
           case fixture of
             Inr (Some a) \<Rightarrow>
               do { w \<leftarrow> task_test name (t_body t) (body_timeout t default_timeout) w;
                    let w = drop_arc a w;
                    task_teardown name (teardown_timeout f default_timeout) w }
           | _ \<Rightarrow> task_teardown name (teardown_timeout f default_timeout) w })"

section \<open>A test cut at its suspension points\<close>

datatype test_pc =
    Test_Start
  | Setup_Pending
  | Setup_Ready "unit + arc option"
  | Body_Pending arc
  | Teardown_Pending
  | Teardown_Ready "unit + unit"
  | Test_Done

fun test_step ::
    "duration \<Rightarrow> string \<Rightarrow> test_desc \<Rightarrow> duration \<Rightarrow> test_pc \<Rightarrow> world \<Rightarrow> (test_pc \<times> world) option" where
  "test_step d gn t wait Test_Start w =
     do { w \<leftarrow> record_w (test_path gn t) SetupLaunched w; Some (Setup_Pending, w) }"
| "test_step d gn t wait Setup_Pending w =
     (case spawn_setup (t_fixture t) (setup_timeout (t_fixture t) d) wait w of
        (r, w) \<Rightarrow> Some (Setup_Ready r, w))"
| "test_step d gn t wait (Setup_Ready r) w =
     do { w \<leftarrow> record_w (test_path gn t) (setup_event TaskTest r) w;
          case r of
            Inr (Some a) \<Rightarrow>
              do { w \<leftarrow> record_w (test_path gn t) TestLaunched w; Some (Body_Pending a, w) }
          | _ \<Rightarrow>
              do { w \<leftarrow> record_w (test_path gn t) TeardownLaunched w; Some (Teardown_Pending, w) } }"
| "test_step d gn t wait (Body_Pending a) w =
     (let r = single (run_body (t_body t) (body_timeout t d)) in
      do { w \<leftarrow> record_w (test_path gn t) (test_event r) w;
           w \<leftarrow> record_w (test_path gn t) TeardownLaunched (drop_arc a w);
           Some (Teardown_Pending, w) })"
| "test_step d gn t wait Teardown_Pending w =
     (case spawn_teardown (teardown_timeout (t_fixture t) d) wait w of
        (r, w) \<Rightarrow> Some (Teardown_Ready r, w))"
| "test_step d gn t wait (Teardown_Ready r) w =
     do { w \<leftarrow> record_w (test_path gn t) (teardown_event r) w; Some (Test_Done, w) }"
| "test_step d gn t wait Test_Done w = Some (Test_Done, w)"

fun steps_left :: "test_pc \<Rightarrow> nat" where
  "steps_left Test_Start = 6"
| "steps_left Setup_Pending = 5"
| "steps_left (Setup_Ready r) = 4"
| "steps_left (Body_Pending a) = 3"
| "steps_left Teardown_Pending = 2"
| "steps_left (Teardown_Ready r) = 1"
| "steps_left Test_Done = 0"

text \<open>The three answers of a setup: a fixture, nothing, a failure.\<close>

lemma setup_answer:
  obtains (passed) a where "r = Inr (Some a)" | (skipped) "r = Inr None" | (failed) "r = Inl ()"
proof (cases r)
  case (Inr x)
  then show ?thesis using passed skipped by (cases x) auto
qed (use failed in simp)

lemma test_step_decreases:
  assumes "test_step d gn t wait pc w = Some (pc', w')" and "pc \<noteq> Test_Done"
  shows "steps_left pc' < steps_left pc"
proof (cases pc)
  case (Setup_Ready r)
  then show ?thesis using assms by (cases r rule: setup_answer) auto
qed (use assms in \<open>auto split: prod.splits simp: Let_def\<close>)

text \<open>Running a test by its steps, with no wait for the lock.\<close>

fun drive :: "duration \<Rightarrow> string \<Rightarrow> test_desc \<Rightarrow> nat \<Rightarrow> test_pc \<Rightarrow> world \<Rightarrow> (test_pc \<times> world) option" where
  "drive d gn t 0 pc w = Some (pc, w)"
| "drive d gn t (Suc n) pc w =
     do { (pc, w) \<leftarrow> test_step d gn t 0 pc w; drive d gn t n pc w }"

lemma drive_teardown:
  "drive d gn t 2 Teardown_Pending w =
     do { let (r, w) = spawn_teardown (teardown_timeout (t_fixture t) d) 0 w;
          w \<leftarrow> record_w (test_path gn t) (teardown_event r) w;
          Some (Test_Done, w) }"
  by (simp add: numeral_2_eq_2 split: prod.split)

lemma drive_Suc_end [simp]: "drive d gn t n Test_Done w = Some (Test_Done, w)"
  by (induction n) auto

lemma drive_setup_ready:
  "drive d gn t 4 (Setup_Ready r) w =
     do { w \<leftarrow> record_w (test_path gn t) (setup_event TaskTest r) w;
          w \<leftarrow> (case r of
              Inr (Some a) \<Rightarrow>
                do { w \<leftarrow> task_test (test_path gn t) (t_body t) (body_timeout t d) w;
                     task_teardown (test_path gn t) (teardown_timeout (t_fixture t) d) (drop_arc a w) }
            | _ \<Rightarrow> task_teardown (test_path gn t) (teardown_timeout (t_fixture t) d) w);
          Some (Test_Done, w) }"
  by (cases r rule: setup_answer)
    (auto simp: numeral_eq_Suc task_test_def task_teardown_def Let_def split: prod.split bind_splits)

lemma drive_run_test:
  "drive d gn t 6 Test_Start w = map_option (\<lambda>w'. (Test_Done, w')) (run_test d gn t w)"
proof -
  have map_bind: "map_option (\<lambda>w'. (Test_Done, w')) m = do { w \<leftarrow> m; Some (Test_Done, w) }" for m
    by (cases m) auto
  have "drive d gn t 6 Test_Start w =
      do { w \<leftarrow> record_w (test_path gn t) SetupLaunched w;
           let (r, w) = spawn_setup (t_fixture t) (setup_timeout (t_fixture t) d) 0 w;
           drive d gn t 4 (Setup_Ready r) w }"
  proof -
    have steps: "drive d gn t 6 Test_Start w =
        do { (pc, w) \<leftarrow> test_step d gn t 0 Test_Start w;
             (pc, w) \<leftarrow> test_step d gn t 0 pc w; drive d gn t 4 pc w }"
      using drive.simps(2) [of d gn t 5] drive.simps(2) [of d gn t 4]
      by (simp del: drive.simps test_step.simps add: case_prod_unfold)
    have "test_step d gn t 0 Setup_Pending v \<bind> (\<lambda>(pc, w). drive d gn t 4 pc w) =
        (case spawn_setup (t_fixture t) (setup_timeout (t_fixture t) d) 0 v of
           (r, w) \<Rightarrow> drive d gn t 4 (Setup_Ready r) w)" for v
      by (simp del: drive.simps split: prod.split)
    then show ?thesis unfolding steps by (simp del: drive.simps)
  qed
  then show ?thesis
    unfolding drive_setup_ready run_test_def map_bind task_setup_def Let_def
    by (simp add: case_prod_unfold cong: sum.case_cong option.case_cong)
qed

end
