(* ===== verification/Selection.thy ===== *)
theory Selection
  imports Test_Tree "HOL-Library.AList"
begin

text \<open>
  The selection of tests by command line filters, \<open>crates/e2etest/src/filter.rs\<close>: the matcher of
  one filter, the construction of the map from groups to tests and of the set of groups in
  \<open>Filter::new\<close>, and the two questions the runner asks, \<open>consider_group\<close> and \<open>consider_test\<close>.

  The hash map is an association list with one entry per key.
\<close>

section \<open>Matching\<close>

datatype filter_matcher = Match_Any | Match_Partial string | Match_Exact string

definition matcher_new :: "string \<Rightarrow> filter_matcher" where
  "matcher_new flt =
     (if flt = [] then Match_Any
      else case Option.bind (strip_prefix_char (CHR 0x22) flt) (strip_suffix_char (CHR 0x22)) of
        Some f \<Rightarrow> Match_Exact f
      | None \<Rightarrow> Match_Partial flt)"

fun matches :: "filter_matcher \<Rightarrow> string \<Rightarrow> bool" where
  "matches Match_Any candidate = True"
| "matches (Match_Partial flt) candidate = contains_str candidate flt"
| "matches (Match_Exact flt) candidate = (candidate = flt)"

section \<open>Building the filter\<close>

record test_filter =
  f_tests :: "(string \<times> string set) list"
  f_groups :: "string set"

definition filter_empty :: test_filter where
  "filter_empty = \<lparr>f_tests = [], f_groups = {}\<rparr>"

text \<open>\<open>entry(k).or_default()\<close>, and the same followed by an insertion into the set found there.\<close>

definition entry_or_default ::
    "string \<Rightarrow> (string \<times> string set) list \<Rightarrow> (string \<times> string set) list" where
  "entry_or_default k m = (case map_of m k of None \<Rightarrow> AList.update k {} m | Some _ \<Rightarrow> m)"

definition entry_insert ::
    "string \<Rightarrow> string \<Rightarrow> (string \<times> string set) list \<Rightarrow> (string \<times> string set) list" where
  "entry_insert k t m =
     AList.update k (insert t (case map_of m k of None \<Rightarrow> {} | Some ts \<Rightarrow> ts)) m"

text \<open>The closure \<open>update_group_set\<close>: every group on the way to \<open>group_name\<close>.\<close>

definition update_group_set :: "string \<Rightarrow> string \<Rightarrow> string set \<Rightarrow> string set" where
  "update_group_set parent_name group_name group_set =
     snd (foldl (\<lambda>(acc, gs) name. let acc' = path_cons acc name in (acc', insert acc' gs))
       (parent_name, group_set) (split_path group_name))"

type_synonym selection_state = "(string \<times> string set) list \<times> string set"

text \<open>The loop body for a filter \<open>group::test\<close>.\<close>

definition qualified_step ::
    "string \<Rightarrow> filter_matcher \<Rightarrow> filter_matcher \<Rightarrow> selection_state \<Rightarrow> string \<times> string \<Rightarrow> selection_state"
where
  "qualified_step parent_name group_filter test_filter st gt =
     (case st of (filter_map, group_set) \<Rightarrow> (case gt of (group_name, test_name) \<Rightarrow>
        if \<not> matches group_filter group_name then (filter_map, group_set)
        else
          (let parent_group_name = path_cons parent_name group_name in
           if test_filter = Match_Any
           then (entry_or_default parent_group_name filter_map,
                 update_group_set parent_name group_name group_set)
           else if matches test_filter test_name
           then (entry_insert parent_group_name test_name filter_map,
                 update_group_set parent_name group_name group_set)
           else (filter_map, group_set))))"

text \<open>The loop body for a filter without \<open>::\<close>.\<close>

definition unqualified_step ::
    "string \<Rightarrow> filter_matcher \<Rightarrow> selection_state \<Rightarrow> string \<times> string \<Rightarrow> selection_state" where
  "unqualified_step parent_name flt st gt =
     (case st of (filter_map, group_set) \<Rightarrow> (case gt of (group_name, test_name) \<Rightarrow>
        (let parent_group_name = path_cons parent_name group_name in
         if matches flt group_name
         then (entry_or_default parent_group_name filter_map,
               update_group_set parent_name group_name group_set)
         else if matches flt test_name
         then (entry_insert parent_group_name test_name filter_map,
               update_group_set parent_name group_name group_set)
         else (filter_map, group_set))))"

definition filter_step :: "string \<Rightarrow> string list \<Rightarrow> selection_state \<Rightarrow> string \<Rightarrow> selection_state" where
  "filter_step parent_name names st flt =
     (let pairs = List.map_filter rsplit_once names in
      case rsplit_once flt of
        Some (group_part, test_part) \<Rightarrow>
          foldl (qualified_step parent_name (matcher_new group_part) (matcher_new test_part)) st pairs
      | None \<Rightarrow> foldl (unqualified_step parent_name (matcher_new flt)) st pairs)"

definition filter_new :: "string list \<Rightarrow> string \<Rightarrow> string list \<Rightarrow> test_filter" where
  "filter_new filters group_name names =
     (if filters = [] then filter_empty
      else case foldl (filter_step group_name names) ([], {}) filters of
        (filter_map, group_set) \<Rightarrow> \<lparr>f_tests = filter_map, f_groups = group_set\<rparr>)"

section \<open>Asking the filter\<close>

definition consider_group :: "test_filter \<Rightarrow> string list \<Rightarrow> string \<Rightarrow> bool" where
  "consider_group fl group_names group_name =
     (let name = join_path (group_names @ [group_name])
      in f_groups fl = {} \<or> name \<in> f_groups fl)"

definition consider_test :: "test_filter \<Rightarrow> string list \<Rightarrow> string \<Rightarrow> bool" where
  "consider_test fl group_names test_name =
     (if f_tests fl = [] then True
      else case map_of (f_tests fl) (join_path group_names) of
        Some tests \<Rightarrow> tests = {} \<or> test_name \<in> tests
      | None \<Rightarrow> False)"

section \<open>What one filter says about one test\<close>

text \<open>
  \<open>Some True\<close>: the filter takes the whole group of the test; \<open>Some False\<close>: it takes the test;
  \<open>None\<close>: it does not match.
\<close>

definition verdict :: "string \<Rightarrow> string \<Rightarrow> string \<Rightarrow> bool option" where
  "verdict flt g t =
     (case rsplit_once flt of
        Some (gp, tp) \<Rightarrow>
          if \<not> matches (matcher_new gp) g then None
          else if matcher_new tp = Match_Any then Some True
          else if matches (matcher_new tp) t then Some False
          else None
      | None \<Rightarrow>
          if matches (matcher_new flt) g then Some True
          else if matches (matcher_new flt) t then Some False
          else None)"

definition picks :: "string list \<Rightarrow> string list \<Rightarrow> (string \<times> string \<times> bool) set" where
  "picks filters names = {(g, t, whole).
     (g, t) \<in> set (List.map_filter rsplit_once names) \<and> (\<exists>f \<in> set filters. verdict f g t = Some whole)}"

text \<open>The groups on the way to \<open>g\<close>, from the first one below the root.\<close>

definition group_chain :: "string \<Rightarrow> string \<Rightarrow> string set" where
  "group_chain root g = {join_path (root # take i (split_path g)) | i. 0 < i \<and> i \<le> length (split_path g)}"

lemma update_group_set_eq: "update_group_set root g gs = gs \<union> group_chain root g"
proof -
  have "snd (foldl (\<lambda>(acc, gs) name. let acc' = path_cons acc name in (acc', insert acc' gs))
      (acc, gs) ns) =
    gs \<union> {join_path (acc # take i ns) | i. 0 < i \<and> i \<le> length ns}" for acc gs ns
  proof (induction ns arbitrary: acc gs)
    case (Cons n ns)
    have eq: "join_path (path_cons acc n # take i ns) = join_path (acc # take (Suc i) (n # ns))" for i
      by (cases "take i ns") (auto simp: path_cons_def)
    have "{join_path (acc # take i (n # ns)) | i. 0 < i \<and> i \<le> length (n # ns)} =
        {join_path (path_cons acc n # take i ns) | i. i \<le> length ns}" (is "?L = ?R")
    proof
      show "?L \<subseteq> ?R"
      proof
        fix x assume "x \<in> ?L"
        then obtain i where i: "x = join_path (acc # take i (n # ns))" "0 < i" "i \<le> Suc (length ns)"
          by auto
        then obtain j where "i = Suc j" by (cases i) auto
        with i have "x = join_path (path_cons acc n # take j ns)" "j \<le> length ns"
          by (simp_all only: eq)
        then show "x \<in> ?R" by blast
      qed
      show "?R \<subseteq> ?L"
      proof
        fix x assume "x \<in> ?R"
        then obtain i where "x = join_path (acc # take (Suc i) (n # ns))" "Suc i \<le> length (n # ns)"
          by (auto simp only: eq length_Cons Suc_le_mono)
        then show "x \<in> ?L" by blast
      qed
    qed
    also have "\<dots> = insert (path_cons acc n)
        {join_path (path_cons acc n # take i ns) | i. 0 < i \<and> i \<le> length ns}" (is "_ = insert _ ?B")
    proof
      show "{join_path (path_cons acc n # take i ns) | i. i \<le> length ns} \<subseteq> insert (path_cons acc n) ?B"
      proof
        fix x assume "x \<in> {join_path (path_cons acc n # take i ns) | i. i \<le> length ns}"
        then obtain i where "x = join_path (path_cons acc n # take i ns)" "i \<le> length ns" by blast
        then show "x \<in> insert (path_cons acc n) ?B" by (cases "i = 0") auto
      qed
      have "path_cons acc n = join_path (path_cons acc n # take 0 ns)" by simp
      then show "insert (path_cons acc n) ?B \<subseteq> {join_path (path_cons acc n # take i ns) | i. i \<le> length ns}"
        by blast
    qed
    finally show ?case
      using Cons.IH by (simp add: Let_def)
  qed simp
  then show ?thesis by (simp add: update_group_set_def group_chain_def)
qed

section \<open>The filter as a fold over what was picked\<close>

definition apply_pick :: "string \<Rightarrow> selection_state \<Rightarrow> string \<times> string \<times> bool \<Rightarrow> selection_state" where
  "apply_pick root st p =
     (case st of (m, gs) \<Rightarrow> (case p of (g, t, whole) \<Rightarrow>
        (if whole then entry_or_default (path_cons root g) m else entry_insert (path_cons root g) t m,
         update_group_set root g gs)))"

definition pick_list :: "string list \<Rightarrow> string list \<Rightarrow> (string \<times> string \<times> bool) list" where
  "pick_list filters names =
     concat (map (\<lambda>f. List.map_filter (\<lambda>(g, t). map_option (\<lambda>w. (g, t, w)) (verdict f g t))
       (List.map_filter rsplit_once names)) filters)"

lemma set_map_filter: "set (List.map_filter f xs) = {y. \<exists>x \<in> set xs. f x = Some y}"
  by (induction xs) (auto simp: List.map_filter_simps split: option.splits)

lemma set_pick_list: "set (pick_list filters names) = picks filters names"
  by (auto simp: pick_list_def picks_def set_map_filter)

lemma qualified_step_pick:
  "rsplit_once f = Some (gp, tp) \<Longrightarrow>
     qualified_step root (matcher_new gp) (matcher_new tp) st (g, t) =
       (case verdict f g t of None \<Rightarrow> st | Some w \<Rightarrow> apply_pick root st (g, t, w))"
  by (cases st) (simp add: qualified_step_def verdict_def apply_pick_def Let_def)

lemma unqualified_step_pick:
  "rsplit_once f = None \<Longrightarrow>
     unqualified_step root (matcher_new f) st (g, t) =
       (case verdict f g t of None \<Rightarrow> st | Some w \<Rightarrow> apply_pick root st (g, t, w))"
  by (cases st) (simp add: unqualified_step_def verdict_def apply_pick_def Let_def)

lemma foldl_map_filter:
  assumes "\<And>st x. step st x = (case v x of None \<Rightarrow> st | Some y \<Rightarrow> app st y)"
  shows "foldl step st xs = foldl app st (List.map_filter v xs)"
  by (induction xs arbitrary: st) (auto simp: List.map_filter_simps assms split: option.splits)

lemma filter_step_picks:
  "filter_step root names st f = foldl (apply_pick root) st (pick_list [f] names)"
proof -
  let ?v = "\<lambda>(g, t). map_option (\<lambda>w. (g, t, w)) (verdict f g t)"
  show ?thesis
  proof (cases "rsplit_once f")
    case None
    have "foldl (unqualified_step root (matcher_new f)) st xs = foldl (apply_pick root) st (List.map_filter ?v xs)" for xs
      by (rule foldl_map_filter) (auto simp: unqualified_step_pick [OF None] split: option.splits)
    with None show ?thesis by (simp add: filter_step_def pick_list_def)
  next
    case (Some gt)
    obtain gp tp where gt: "gt = (gp, tp)" by (cases gt)
    have "foldl (qualified_step root (matcher_new gp) (matcher_new tp)) st xs =
        foldl (apply_pick root) st (List.map_filter ?v xs)" for xs
      using Some gt
      by (intro foldl_map_filter) (auto simp: qualified_step_pick [of f gp tp] split: option.splits)
    with Some gt show ?thesis by (simp add: filter_step_def pick_list_def)
  qed
qed

lemma foldl_filter_step:
  "foldl (filter_step root names) st fs = foldl (apply_pick root) st (pick_list fs names)"
proof (induction fs arbitrary: st)
  case (Cons f fs)
  have "pick_list (f # fs) names = pick_list [f] names @ pick_list fs names"
    by (simp add: pick_list_def)
  with Cons show ?case by (simp add: filter_step_picks)
qed (simp add: pick_list_def)

lemma map_of_entry_or_default:
  "map_of (entry_or_default k m) =
     (map_of m)(k \<mapsto> (case map_of m k of None \<Rightarrow> {} | Some ts \<Rightarrow> ts))"
  by (auto simp: entry_or_default_def update_conv' fun_eq_iff split: option.splits)

lemma map_of_entry_insert:
  "map_of (entry_insert k t m) =
     (map_of m)(k \<mapsto> insert t (case map_of m k of None \<Rightarrow> {} | Some ts \<Rightarrow> ts))"
  by (simp add: entry_insert_def update_conv')

definition tests_at :: "string \<Rightarrow> (string \<times> string \<times> bool) set \<Rightarrow> string \<Rightarrow> string set" where
  "tests_at root P k = {t. \<exists>g. (g, t, False) \<in> P \<and> k = path_cons root g}"

definition keys_at :: "string \<Rightarrow> (string \<times> string \<times> bool) set \<Rightarrow> string set" where
  "keys_at root P = {path_cons root g | g t w. (g, t, w) \<in> P}"

lemma fold_picks:
  "foldl (apply_pick root) (m, gs) ps = (m', gs') \<Longrightarrow>
     map_of m' = (\<lambda>k. if k \<in> keys_at root (set ps) \<or> k \<in> dom (map_of m)
       then Some ((case map_of m k of None \<Rightarrow> {} | Some ts \<Rightarrow> ts) \<union> tests_at root (set ps) k) else None) \<and>
     gs' = gs \<union> (\<Union>(g, t, w) \<in> set ps. group_chain root g)"
proof (induction ps arbitrary: m gs)
  case Nil
  then show ?case
    by (auto simp: keys_at_def tests_at_def fun_eq_iff split: option.splits)
next
  case (Cons p ps)
  obtain g t w where p: "p = (g, t, w)" by (cases p)
  let ?k = "path_cons root g"
  let ?m1 = "if w then entry_or_default ?k m else entry_insert ?k t m"
  have "foldl (apply_pick root) (?m1, update_group_set root g gs) ps = (m', gs')"
    using Cons.prems p apply_pick_def [of root "(m, gs)" p] by simp
  note IH = Cons.IH [OF this]
  have m1: "map_of ?m1 = (map_of m)(?k \<mapsto> (case map_of m ?k of None \<Rightarrow> {} | Some ts \<Rightarrow> ts) \<union>
      (if w then {} else {t}))"
    by (auto simp: map_of_entry_or_default map_of_entry_insert)
  have T: "tests_at root (set (p # ps)) k =
      (if \<not> w \<and> k = ?k then {t} else {}) \<union> tests_at root (set ps) k" for k
    by (auto simp: tests_at_def p)
  have K: "keys_at root (set (p # ps)) = insert ?k (keys_at root (set ps))"
    by (auto simp: keys_at_def p)
  have "map_of m' k = (if k \<in> keys_at root (set (p # ps)) \<or> k \<in> dom (map_of m)
       then Some ((case map_of m k of None \<Rightarrow> {} | Some ts \<Rightarrow> ts) \<union> tests_at root (set (p # ps)) k)
       else None)" for k
  proof (cases "k = ?k")
    case True
    then show ?thesis
      unfolding IH [THEN conjunct1] m1 T K by (auto simp: Un_assoc)
  next
    case False
    then show ?thesis
      unfolding IH [THEN conjunct1] m1 T K by auto
  qed
  moreover have "gs' = gs \<union> (\<Union>(g, t, w) \<in> set (p # ps). group_chain root g)"
    using IH by (auto simp: update_group_set_eq p)
  ultimately show ?case by (intro conjI ext)
qed

lemma filter_new_tests:
  assumes "fs \<noteq> []"
  shows "map_of (f_tests (filter_new fs root names)) =
    (\<lambda>k. if k \<in> keys_at root (picks fs names) then Some (tests_at root (picks fs names) k) else None)"
    and "f_groups (filter_new fs root names) = (\<Union>(g, t, w) \<in> picks fs names. group_chain root g)"
proof -
  obtain m gs where "foldl (apply_pick root) ([], {}) (pick_list fs names) = (m, gs)"
    by (metis surj_pair)
  from fold_picks [OF this] this assms
  show "map_of (f_tests (filter_new fs root names)) =
      (\<lambda>k. if k \<in> keys_at root (picks fs names) then Some (tests_at root (picks fs names) k) else None)"
    and "f_groups (filter_new fs root names) = (\<Union>(g, t, w) \<in> picks fs names. group_chain root g)"
    by (simp_all add: filter_new_def foldl_filter_step set_pick_list cong: if_cong)
qed

lemma picks_Nil [simp]: "picks [] names = {}"
  by (simp add: picks_def)

lemma filter_new_no_picks:
  "picks fs names = {} \<Longrightarrow> filter_new fs root names = filter_empty"
proof -
  assume "picks fs names = {}"
  then have "pick_list fs names = []"
    by (metis set_empty set_pick_list)
  then show ?thesis
    by (simp add: filter_new_def foldl_filter_step filter_empty_def)
qed

lemma group_chain_nonempty: "join_path (root # split_path g) \<in> group_chain root g"
  by (auto simp: group_chain_def intro!: exI [of _ "length (split_path g)"])

lemma filter_new_picks:
  assumes "picks fs names \<noteq> {}"
  shows "f_tests (filter_new fs root names) \<noteq> []" and "f_groups (filter_new fs root names) \<noteq> {}"
proof -
  have fs: "fs \<noteq> []" using assms by auto
  obtain g t w where p: "(g, t, w) \<in> picks fs names" using assms by auto
  then have "map_of (f_tests (filter_new fs root names)) (path_cons root g) \<noteq> None"
    by (auto simp: filter_new_tests [OF fs] keys_at_def)
  then show "f_tests (filter_new fs root names) \<noteq> []" by auto
  show "f_groups (filter_new fs root names) \<noteq> {}"
    using p group_chain_nonempty [of root g] by (auto simp: filter_new_tests [OF fs])
qed

section \<open>What the filter considers\<close>

lemma path_cons_inject [simp]: "path_cons r a = path_cons r b \<longleftrightarrow> a = b"
  by (simp add: path_cons_def)

lemma path_cons_neq [simp]: "path_cons r a \<noteq> r" "r \<noteq> path_cons r a"
  by (simp_all add: path_cons_def)

lemma consider_test_iff:
  assumes "picks fs names \<noteq> {}" and "p \<noteq> []"
  shows "consider_test (filter_new fs root names) (root # p) t \<longleftrightarrow>
    (\<exists>t' w. (join_path p, t', w) \<in> picks fs names) \<and>
    ((\<forall>t'. (join_path p, t', False) \<notin> picks fs names) \<or> (join_path p, t, False) \<in> picks fs names)"
proof -
  have fs: "fs \<noteq> []" using assms(1) by auto
  have key: "join_path (root # p) = path_cons root (join_path p)"
    using assms(2) by (simp add: join_path_Cons)
  show ?thesis
    using filter_new_picks(1) [OF assms(1), of root]
    by (auto simp: consider_test_def key filter_new_tests [OF fs] keys_at_def tests_at_def)
qed

lemma consider_test_root:
  assumes "picks fs names \<noteq> {}"
  shows "\<not> consider_test (filter_new fs root names) [root] t"
proof -
  have fs: "fs \<noteq> []" using assms by auto
  show ?thesis
    using filter_new_picks(1) [OF assms, of root]
    by (auto simp: consider_test_def filter_new_tests [OF fs] keys_at_def)
qed

lemma consider_group_iff:
  assumes "picks fs names \<noteq> {}"
  shows "consider_group (filter_new fs root names) ps g \<longleftrightarrow>
    (\<exists>q t w. (q, t, w) \<in> picks fs names \<and> join_path (ps @ [g]) \<in> group_chain root q)"
proof -
  have fs: "fs \<noteq> []" using assms by auto
  show ?thesis
    using filter_new_picks(2) [OF assms, of root]
    by (auto simp: consider_group_def filter_new_tests [OF fs])
qed

lemma consider_empty [simp]:
  "consider_test filter_empty ps t" "consider_group filter_empty ps g"
  by (simp_all add: consider_test_def consider_group_def filter_empty_def)

end
