(* ===== verification/Runner.thy ===== *)
theory Runner
  imports Tasks Selection "HOL-Library.Code_Target_Nat"
begin

text \<open>
  The runner: \<open>RunContext\<close> and \<open>run\<close> of \<open>crates/e2etest/src/run.rs\<close>, \<open>run_group\<close> of
  \<open>crates/e2etest/src/group.rs\<close>, the configuration and entry point of \<open>crates/e2etest/src/lib.rs\<close>
  and the panic hooks of \<open>crates/e2etest/src/backtrace.rs\<close>.

  The combinator \<open>for_each_concurrent\<close> of the \<open>futures\<close> crate, which the runner calls with
  \<open>Some(ctx.concurrency)\<close>, is seen through what the runtime decides: it holds some of the futures,
  goes on with one of them or takes the next from the stream, and ends when the stream is at its end
  and no future is left.  Which of these moves is made is a choice of \<open>w_sched\<close>, together with the
  time that a setup or teardown started by it waits for the lock of the fixtures; whether another
  future is admitted, for a limit and a number of futures held, is \<open>w_admits\<close>.  Nothing is assumed
  of either; what the crate says about the limit is the predicate \<open>honours_limit\<close>, a hypothesis
  where it is needed.

  \<open>Code_Target_Nat\<close> is imported so that \<open>code_simp\<close> computes with milliseconds in binary.
\<close>

section \<open>The context of a run\<close>

text \<open>The part of \<open>RunContext\<close> that is copied by a clone; the rest is the \<open>world\<close>.\<close>

record run_context =
  rc_filter :: test_filter
  rc_default_timeout :: duration
  rc_concurrency :: nat
  rc_concurrency_enabled :: bool

definition DEFAULT_TIMEOUT :: duration where
  "DEFAULT_TIMEOUT = from_secs 60"

definition run_context_new :: run_context where
  "run_context_new = \<lparr>rc_filter = filter_empty, rc_default_timeout = DEFAULT_TIMEOUT,
     rc_concurrency = 1, rc_concurrency_enabled = True\<rparr>"

definition with_filter :: "test_filter \<Rightarrow> run_context \<Rightarrow> run_context" where
  "with_filter fl ctx = ctx\<lparr>rc_filter := fl\<rparr>"

definition with_default_timeout :: "duration \<Rightarrow> run_context \<Rightarrow> run_context" where
  "with_default_timeout d ctx = ctx\<lparr>rc_default_timeout := d\<rparr>"

definition with_concurrency :: "nat \<Rightarrow> run_context \<Rightarrow> run_context" where
  "with_concurrency n ctx = ctx\<lparr>rc_concurrency := (if n > 0 then n else 1)\<rparr>"

definition update_concurrency_enabled :: "bool \<Rightarrow> run_context \<Rightarrow> run_context" where
  "update_concurrency_enabled enabled_for_next_level ctx =
     ctx\<lparr>rc_concurrency_enabled := (rc_concurrency_enabled ctx \<and> enabled_for_next_level)\<rparr>"

definition is_concurrency_enabled :: "bool \<Rightarrow> run_context \<Rightarrow> bool" where
  "is_concurrency_enabled enabled_for_next_level ctx \<longleftrightarrow>
     rc_concurrency_enabled ctx \<and> enabled_for_next_level"

section \<open>Running the tests of a group\<close>

definition draw :: "world \<Rightarrow> (nat \<times> nat) \<times> world" where
  "draw w = (case w_sched w of [] \<Rightarrow> ((0, 0), w) | c # cs \<Rightarrow> (c, w\<lparr>w_sched := cs\<rparr>))"

definition remove_nth :: "nat \<Rightarrow> 'a list \<Rightarrow> 'a list" where
  "remove_nth i xs = take i xs @ drop (Suc i) xs"

definition may_start ::
    "(nat option \<Rightarrow> nat \<Rightarrow> bool) \<Rightarrow> nat option \<Rightarrow> test_desc list \<Rightarrow> (test_desc \<times> test_pc) list \<Rightarrow> bool" where
  "may_start admits limit waiting running \<longleftrightarrow> waiting \<noteq> [] \<and> (running = [] \<or> admits limit (length running))"

text \<open>
  What the crate documents of \<open>limit\<close>: no more futures than that are run at a time, and neither
  \<open>None\<close> nor zero is a limit.
\<close>

definition honours_limit :: "(nat option \<Rightarrow> nat \<Rightarrow> bool) \<Rightarrow> bool" where
  "honours_limit admits \<longleftrightarrow> (\<forall>k n. 0 < k \<longrightarrow> admits (Some k) n \<longrightarrow> n < k)"

text \<open>A runtime that admits futures whenever the limit allows it.\<close>

definition eager :: "(nat \<times> nat) list \<Rightarrow> runtime" where
  "eager cs = \<lparr>rt_choices = cs, rt_admits = (\<lambda>limit n. case limit of None \<Rightarrow> True | Some k \<Rightarrow> k = 0 \<or> n < k)\<rparr>"

lemma eager_honours_limit: "honours_limit (rt_admits (eager cs))"
  by (simp add: honours_limit_def eager_def)

lemma sum_list_remove_nth:
  "i < length xs \<Longrightarrow> sum_list (map f (remove_nth i xs)) + f (xs ! i) = sum_list (map f xs)"
  for f :: "'a \<Rightarrow> nat"
proof -
  assume "i < length xs"
  then have "xs = take i xs @ xs ! i # drop (Suc i) xs" by (rule id_take_nth_drop)
  then have "sum_list (map f xs) = sum_list (map f (take i xs @ xs ! i # drop (Suc i) xs))" by simp
  then show ?thesis by (simp add: remove_nth_def)
qed

definition pool_size :: "test_desc list \<Rightarrow> (test_desc \<times> test_pc) list \<Rightarrow> nat" where
  "pool_size waiting running =
     8 * length waiting + (\<Sum>(t, pc)\<leftarrow>running. Suc (steps_left pc))"

lemma pool_size_step:
  assumes i: "i < length running" "running ! i = (t, pc)"
    and step: "test_step d gn t wait pc w = Some (pc', w')"
  shows "pool_size waiting
      (if pc' = Test_Done then remove_nth i running else running[i := (t, pc')]) <
    pool_size waiting running"
proof -
  let ?f = "\<lambda>(t, pc). Suc (steps_left pc)"
  have le: "pc = Test_Done \<and> pc' = Test_Done \<or> steps_left pc' < steps_left pc"
    using test_step_decreases [OF step] step by (cases "pc = Test_Done") auto
  have "sum_list (map ?f (running[i := (t, pc')])) + ?f (running ! i) =
      sum_list (map ?f running) + ?f (t, pc')"
  proof -
    have "remove_nth i (running[i := (t, pc')]) = remove_nth i running"
      by (simp add: remove_nth_def)
    with sum_list_remove_nth [of i "running[i := (t, pc')]" ?f] sum_list_remove_nth [of i running ?f] i(1)
    show ?thesis by simp
  qed
  with sum_list_remove_nth [of i running ?f] i le show ?thesis
    by (auto simp: pool_size_def)
qed

lemma pool_size_moves:
  assumes "i < length running"
    and "test_step d gn (fst (running ! i)) wait (snd (running ! i)) w = Some (pc', w')"
  shows "pc' = Test_Done \<Longrightarrow> pool_size waiting (remove_nth i running) < pool_size waiting running"
    and "pc' \<noteq> Test_Done \<Longrightarrow>
      pool_size waiting (running[i := (fst (running ! i), pc')]) < pool_size waiting running"
  using pool_size_step [OF assms(1), of "fst (running ! i)" "snd (running ! i)" d gn wait w pc' w' waiting]
    assms(2)
  by simp_all

lemma pool_size_start:
  "waiting \<noteq> [] \<Longrightarrow>
     pool_size (tl waiting) (running @ [(hd waiting, Test_Start)]) < pool_size waiting running"
  by (cases waiting) (auto simp: pool_size_def)

function for_each_concurrent ::
    "duration \<Rightarrow> nat option \<Rightarrow> string \<Rightarrow> test_desc list \<Rightarrow> (test_desc \<times> test_pc) list \<Rightarrow> world \<Rightarrow> world option"
where
  "for_each_concurrent d limit gn waiting running w =
     (if waiting = [] \<and> running = [] then Some w
      else case draw w of ((c, wait), w1) \<Rightarrow>
        (let i = c mod (length running + (if may_start (w_admits w) limit waiting running then 1 else 0)) in
         if i < length running then
           (case test_step d gn (fst (running ! i)) wait (snd (running ! i)) w1 of
              None \<Rightarrow> None
            | Some (pc, w2) \<Rightarrow> for_each_concurrent d limit gn waiting
                (if pc = Test_Done then remove_nth i running
                 else running[i := (fst (running ! i), pc)]) w2)
         else for_each_concurrent d limit gn (tl waiting) (running @ [(hd waiting, Test_Start)]) w1))"
  by pat_completeness auto
termination
proof (relation "measure (\<lambda>(d, limit, gn, waiting, running, w). pool_size waiting running)", goal_cases)
  case (2 d limit gn waiting running w x w1 c wait i y pc w2)
  then show ?case by (auto intro: pool_size_moves)
next
  case (3 d limit gn waiting running w x w1 c wait i)
  then have "waiting \<noteq> []"
    by (cases "running = []") (auto simp: may_start_def split: if_splits)
  then show ?case by (simp add: pool_size_start)
qed simp

declare for_each_concurrent.simps [simp del]

text \<open>The three moves of the window, which the proofs about it go through.\<close>

definition chosen_move ::
    "(nat option \<Rightarrow> nat \<Rightarrow> bool) \<Rightarrow> nat option \<Rightarrow> test_desc list \<Rightarrow> (test_desc \<times> test_pc) list \<Rightarrow> nat \<Rightarrow> nat" where
  "chosen_move admits limit waiting running c =
     c mod (length running + (if may_start admits limit waiting running then 1 else 0))"

lemma for_each_concurrent_stop [run_simps]: "for_each_concurrent d limit gn [] [] w = Some w"
  by (subst for_each_concurrent.simps) simp

lemma for_each_concurrent_advance:
  assumes "draw w = ((c, wait), w1)" and "i = chosen_move (w_admits w) limit waiting running c"
    and "running ! i = (t, pc)" and "i < length running"
    and "test_step d gn t wait pc w1 = Some (pc', w2)"
  shows "for_each_concurrent d limit gn waiting running w =
    for_each_concurrent d limit gn waiting
      (if pc' = Test_Done then remove_nth i running else running[i := (t, pc')]) w2"
proof -
  have ne: "\<not> (waiting = [] \<and> running = [])" using assms(4) by auto
  show ?thesis
    using assms by (subst for_each_concurrent.simps, subst if_not_P [OF ne])
      (simp add: chosen_move_def Let_def)
qed

lemma for_each_concurrent_panic:
  assumes "draw w = ((c, wait), w1)" and "i = chosen_move (w_admits w) limit waiting running c"
    and "running ! i = (t, pc)" and "i < length running"
    and "test_step d gn t wait pc w1 = None"
  shows "for_each_concurrent d limit gn waiting running w = None"
proof -
  have ne: "\<not> (waiting = [] \<and> running = [])" using assms(4) by auto
  show ?thesis
    using assms by (subst for_each_concurrent.simps, subst if_not_P [OF ne])
      (simp add: chosen_move_def Let_def)
qed

lemma chosen_move_start:
  assumes "\<not> (waiting = [] \<and> running = [])" and "\<not> chosen_move admits limit waiting running c < length running"
  shows "may_start admits limit waiting running"
  using assms by (cases "running = []") (auto simp: chosen_move_def may_start_def split: if_splits)

lemma for_each_concurrent_start:
  assumes "\<not> (waiting = [] \<and> running = [])" and "draw w = ((c, wait), w1)"
    and "\<not> chosen_move (w_admits w) limit waiting running c < length running"
  shows "for_each_concurrent d limit gn waiting running w =
    for_each_concurrent d limit gn (tl waiting) (running @ [(hd waiting, Test_Start)]) w1"
  using assms(2,3) by (subst for_each_concurrent.simps, subst if_not_P [OF assms(1)])
    (simp add: chosen_move_def Let_def)

fun for_each :: "duration \<Rightarrow> string \<Rightarrow> test_desc list \<Rightarrow> world \<Rightarrow> world option" where
  "for_each d gn [] w = Some w"
| "for_each d gn (t # ts) w = do { w \<leftarrow> run_test d gn t w; for_each d gn ts w }"

section \<open>Running groups\<close>

definition chosen_tests :: "run_context \<Rightarrow> string list \<Rightarrow> test_desc list \<Rightarrow> test_desc list" where
  "chosen_tests ctx parent_names ts =
     filter (\<lambda>t. consider_test (rc_filter ctx) parent_names (t_name t)) ts"

definition concurrent_tests :: "run_context \<Rightarrow> test_desc list \<Rightarrow> test_desc list" where
  "concurrent_tests ctx ts = filter (\<lambda>t. is_concurrency_enabled (can_run_concurrently t) ctx) ts"

definition sequential_tests :: "run_context \<Rightarrow> test_desc list \<Rightarrow> test_desc list" where
  "sequential_tests ctx ts = filter (\<lambda>t. \<not> is_concurrency_enabled (can_run_concurrently t) ctx) ts"

fun run_group :: "run_context \<Rightarrow> string list \<Rightarrow> group \<Rightarrow> world \<Rightarrow> world option"
  and run_groups :: "run_context \<Rightarrow> string list \<Rightarrow> group list \<Rightarrow> world \<Rightarrow> world option" where
  "run_group ctx parent_names (Group name f tests groups) w =
     (let parent_names = parent_names @ [name];
          group_name = join_path parent_names;
          d = rc_default_timeout ctx in
      do { (fixture, w) \<leftarrow> task_setup group_name TaskGroup f (setup_timeout f d) w;
           case fixture of
             Inr (Some a) \<Rightarrow>
               (let ctx = update_concurrency_enabled (fx_concurrent f) ctx;
                    chosen = chosen_tests ctx parent_names tests in
                do { w \<leftarrow> run_groups ctx parent_names groups w;
                     w \<leftarrow> for_each_concurrent d (Some (rc_concurrency ctx)) group_name
                            (concurrent_tests ctx chosen) [] w;
                     w \<leftarrow> for_each d group_name (sequential_tests ctx chosen) w;
                     task_teardown group_name (teardown_timeout f d) (drop_arc a w) })
           | _ \<Rightarrow> task_teardown group_name (teardown_timeout f d) w })"
| "run_groups ctx parent_names [] w = Some w"
| "run_groups ctx parent_names (g # gs) w =
     (if consider_group (rc_filter ctx) parent_names (g_name g)
      then do { w \<leftarrow> run_group ctx parent_names g w; run_groups ctx parent_names gs w }
      else run_groups ctx parent_names gs w)"

section \<open>Panic hooks\<close>

text \<open>The hook of the standard library, the one set by \<open>run\<close>, and the one around an older hook.\<close>

datatype hook = Default_Hook | Log_Hook | Backtrace_Hook hook

datatype hook_action = Print_Panic | Log_Error | Store_Backtrace

fun fire :: "hook \<Rightarrow> hook_action list" where
  "fire Default_Hook = [Print_Panic]"
| "fire Log_Hook = [Log_Error]"
| "fire (Backtrace_Hook old) = Store_Backtrace # fire old"

definition take_hook :: "hook \<Rightarrow> hook \<times> hook" where
  "take_hook h = (h, Default_Hook)"

definition setup_panic_hook :: "hook \<Rightarrow> hook" where
  "setup_panic_hook h = (case take_hook h of (old_hook, _) \<Rightarrow> Backtrace_Hook old_hook)"

definition clear_panic_hook :: "hook \<Rightarrow> hook" where
  "clear_panic_hook h = snd (take_hook h)"

section \<open>A run\<close>

text \<open>The iterator over all names; the flag is \<open>empty\<close>.\<close>

fun select_tests ::
    "run_context \<Rightarrow> string \<Rightarrow> string list \<Rightarrow> bool \<Rightarrow> world \<Rightarrow> (bool \<times> world) option" where
  "select_tests ctx group_name [] no_tests w = Some (no_tests, w)"
| "select_tests ctx group_name (name # names) no_tests w =
     do { w \<leftarrow> record_w (path_cons group_name name) TestDefined w;
          let parts = split_path name in
          if consider_test (rc_filter ctx) (group_name # butlast parts) (last parts)
          then do { w \<leftarrow> record_w (path_cons group_name name) TestIncluded w;
                    select_tests ctx group_name names False w }
          else select_tests ctx group_name names no_tests w }"

definition run_world :: "run_context \<Rightarrow> group \<Rightarrow> world \<Rightarrow> world option" where
  "run_world ctx g w =
     do { (no_tests, w) \<leftarrow> select_tests ctx (g_name g) (test_names g) True w;
          if no_tests then Some w else run_group ctx [] g w }"

datatype report = Test_Run_Ok | Test_Run_Failed

definition run_report :: "inner \<Rightarrow> report" where
  "run_report stats = (if is_success stats then Test_Run_Ok else Test_Run_Failed)"

definition run_start :: "fixtures \<Rightarrow> runtime \<Rightarrow> world" where
  "run_start s sched =
     \<lparr>w_stats = inner_new, w_fx = s, w_sched = rt_choices sched, w_admits = rt_admits sched\<rparr>"

definition run_ctx :: "test_filter \<Rightarrow> duration \<Rightarrow> nat \<Rightarrow> run_context" where
  "run_ctx fl default_timeout concurrency =
     with_concurrency concurrency
       (with_default_timeout default_timeout (with_filter fl run_context_new))"

text \<open>
  \<open>run\<close> of \<open>run.rs\<close>: the final world (its statistics are what is returned), the line logged at
  the end and the panic hook left behind.
\<close>

definition run :: "fixtures \<Rightarrow> group \<Rightarrow> test_filter \<Rightarrow> duration \<Rightarrow> nat \<Rightarrow> runtime \<Rightarrow> hook \<Rightarrow>
    (world \<times> report) option \<times> hook" where
  "run s g fl default_timeout concurrency sched h =
     (let h = setup_panic_hook h in
      case run_world (run_ctx fl default_timeout concurrency) g (run_start s sched) of
        None \<Rightarrow> (None, h)
      | Some w \<Rightarrow> (Some (w, run_report (w_stats w)), clear_panic_hook h))"

section \<open>The configuration and the entry point\<close>

record config =
  permanent_fixtures :: "(type_id \<times> nat) list"
  filters :: "string list"
  default_timeout :: duration
  concurrency :: nat

definition config_default :: config where
  "config_default = \<lparr>permanent_fixtures = [], filters = [], default_timeout = DEFAULT_TIMEOUT,
     concurrency = 1\<rparr>"

definition config_with_permanent_fixture :: "type_id \<times> nat \<Rightarrow> config \<Rightarrow> config" where
  "config_with_permanent_fixture f c = c\<lparr>permanent_fixtures := permanent_fixtures c @ [f]\<rparr>"

definition config_with_filter :: "string \<Rightarrow> config \<Rightarrow> config" where
  "config_with_filter flt c = c\<lparr>filters := filters c @ [flt]\<rparr>"

definition config_with_default_timeout :: "duration \<Rightarrow> config \<Rightarrow> config" where
  "config_with_default_timeout d c = c\<lparr>default_timeout := d\<rparr>"

definition config_with_concurrency :: "nat \<Rightarrow> config \<Rightarrow> config" where
  "config_with_concurrency n c = c\<lparr>concurrency := n\<rparr>"

definition e2etest_run :: "(type_id \<Rightarrow> nat) \<Rightarrow> config \<Rightarrow> group \<Rightarrow> runtime \<Rightarrow>
    (world \<times> report) option \<times> hook" where
  "e2etest_run hash_order c g sched =
     (let h = Log_Hook;
          s = fixtures_with_permanent hash_order (permanent_fixtures c);
          fl = filter_new (filters c) (g_name g) (test_names g)
      in run s g fl (default_timeout c) (concurrency c) sched h)"

end
