(* ===== verification/Fixture_Laws.thy ===== *)
theory Fixture_Laws
  imports Fixtures
begin

text \<open>
  The laws of the fixture manager.  Setting up only ever appends entries whose dependencies are
  already in the cache (\<open>grows\<close>); tearing down only ever removes entries that nothing else
  holds (the step relation \<open>collect\<close>, which the loop of the code refines).  From these follow the
  invariant of the cache, the exact set a teardown leaves behind, and the order of teardowns.
\<close>

section \<open>A cache without dangling or cyclic references\<close>

text \<open>Each entry holds only types listed before it, and no type is listed twice.\<close>

fun layered :: "type_id set \<Rightarrow> cached list \<Rightarrow> bool" where
  "layered seen [] = True"
| "layered seen (e # es) =
     (ca_type e \<notin> seen \<and> set (ca_arcs e) \<subseteq> seen \<and> layered (insert (ca_type e) seen) es)"

definition cache_ok :: "cached list \<Rightarrow> bool" where
  "cache_ok c \<longleftrightarrow> (\<exists>es. mset es = mset c \<and> layered {} es)"

definition fx_wf :: "fixtures \<Rightarrow> bool" where
  "fx_wf s \<longleftrightarrow> cache_ok (cache s) \<and> (\<forall>t. 0 < handles s t \<longrightarrow> t \<in> cached_types (cache s)) \<and>
     dom (permanent s) \<inter> cached_types (cache s) = {}"

lemma cached_types_simps [fx_simps, simp]:
  "cached_types [] = {}"
  "cached_types (e # es) = insert (ca_type e) (cached_types es)"
  "cached_types (xs @ ys) = cached_types xs \<union> cached_types ys"
  by (auto simp: cached_types_def)

lemma cached_types_mset: "mset xs = mset ys \<Longrightarrow> cached_types xs = cached_types ys"
  by (auto simp: cached_types_def dest: mset_eq_setD)

lemma layered_append [simp]:
  "layered seen (xs @ ys) \<longleftrightarrow> layered seen xs \<and> layered (seen \<union> cached_types xs) ys"
  by (induction xs arbitrary: seen) (auto simp: insert_commute Un_commute)

lemma layered_distinct: "layered seen es \<Longrightarrow> distinct (map ca_type es) \<and> cached_types es \<inter> seen = {}"
  by (induction es arbitrary: seen) (auto simp: cached_types_def)

lemma layered_arcs: "layered seen es \<Longrightarrow> e \<in> set es \<Longrightarrow> set (ca_arcs e) \<subseteq> seen \<union> cached_types es"
  by (induction es arbitrary: seen) fastforce+

lemma layered_forget:
  "layered (insert t seen) es \<Longrightarrow> \<forall>y \<in> set es. t \<notin> set (ca_arcs y) \<Longrightarrow> layered seen es"
  by (induction es arbitrary: seen) (auto simp: insert_commute)

lemma layered_remove:
  "layered seen (xs @ e # ys) \<Longrightarrow> \<forall>y \<in> set ys. ca_type e \<notin> set (ca_arcs y) \<Longrightarrow> layered seen (xs @ ys)"
  by (auto intro: layered_forget)

lemma cache_ok_Nil [simp]: "cache_ok []"
  by (auto simp: cache_ok_def)

lemma cache_ok_distinct: "cache_ok c \<Longrightarrow> distinct (map ca_type c)"
  by (metis cache_ok_def layered_distinct mset_eq_imp_distinct_iff mset_map)

lemma cache_ok_arcs: "cache_ok c \<Longrightarrow> e \<in> set c \<Longrightarrow> set (ca_arcs e) \<subseteq> cached_types c"
  by (metis Un_empty_left cache_ok_def cached_types_mset layered_arcs mset_eq_setD)

lemma cache_ok_mset: "mset c = mset c' \<Longrightarrow> cache_ok c \<longleftrightarrow> cache_ok c'"
  by (simp add: cache_ok_def)

section \<open>Setting up\<close>

text \<open>The types a fixture's code can set up, and the absence of a fixture that sets itself up.\<close>

fun fixture_types :: "fixture \<Rightarrow> type_id set"
  and code_types :: "setup_code \<Rightarrow> type_id set" where
  "fixture_types (Fixture t ts tt conc code td) = insert t (code_types code)"
| "code_types (Sleep n k) = code_types k"
| "code_types (Call_Setup f k k') = fixture_types f \<union> code_types k \<union> code_types k'"
| "code_types (Call_Get t k k') = code_types k \<union> code_types k'"
| "code_types _ = {}"

fun acyclic_fixture :: "fixture \<Rightarrow> bool"
  and acyclic_code :: "setup_code \<Rightarrow> bool" where
  "acyclic_fixture (Fixture t ts tt conc code td) = (t \<notin> code_types code \<and> acyclic_code code)"
| "acyclic_code (Sleep n k) = acyclic_code k"
| "acyclic_code (Call_Setup f k k') = (acyclic_fixture f \<and> acyclic_code k \<and> acyclic_code k')"
| "acyclic_code (Call_Get t k k') = (acyclic_code k \<and> acyclic_code k')"
| "acyclic_code _ = True"

definition grows :: "type_id set \<Rightarrow> fixtures \<Rightarrow> fixtures \<Rightarrow> bool" where
  "grows T s s' \<longleftrightarrow> (\<exists>news.
     s' = s\<lparr>cache := cache s @ news, calls := calls s @ map (\<lambda>e. Built (ca_type e)) news\<rparr> \<and>
     layered (cached_types (cache s)) news \<and> cached_types news \<subseteq> T - dom (permanent s))"

lemma grows_refl [simp]: "grows T s s"
  by (auto simp: grows_def intro: exI [of _ "[]"])

lemma grows_trans:
  assumes "grows T s s1" and "grows T' s1 s2"
  shows "grows (T \<union> T') s s2"
proof -
  from assms(1) obtain n1 where 1:
    "s1 = s\<lparr>cache := cache s @ n1, calls := calls s @ map (\<lambda>e. Built (ca_type e)) n1\<rparr>"
    "layered (cached_types (cache s)) n1" "cached_types n1 \<subseteq> T - dom (permanent s)"
    unfolding grows_def by blast
  from assms(2) obtain n2 where 2:
    "s2 = s1\<lparr>cache := cache s1 @ n2, calls := calls s1 @ map (\<lambda>e. Built (ca_type e)) n2\<rparr>"
    "layered (cached_types (cache s1)) n2" "cached_types n2 \<subseteq> T' - dom (permanent s1)"
    unfolding grows_def by blast
  from 1 2 show ?thesis
    unfolding grows_def by (intro exI [of _ "n1 @ n2"]) auto
qed

lemma grows_mono: "grows T s s' \<Longrightarrow> T \<subseteq> T' \<Longrightarrow> grows T' s s'"
  by (fastforce simp: grows_def)

lemma grows_fields:
  assumes "grows T s s'"
  shows "permanent s' = permanent s" "handles s' = handles s" "hasher s' = hasher s"
    "cached_types (cache s) \<subseteq> cached_types (cache s')"
    "cached_types (cache s') \<subseteq> cached_types (cache s) \<union> T"
  using assms by (auto simp: grows_def)

lemma grows_insert:
  assumes "grows T s s'" and "t \<notin> T" "t \<notin> cached_types (cache s)" "permanent s t = None"
    and "set arcs \<subseteq> cached_types (cache s')"
  shows "grows (insert t T) s
    (s'\<lparr>cache := cache_insert \<lparr>ca_type = t, ca_arcs = arcs, ca_teardown = td\<rparr> (cache s'),
        calls := calls s' @ [Built t]\<rparr>)"
proof -
  from assms(1) obtain n where n:
    "s' = s\<lparr>cache := cache s @ n, calls := calls s @ map (\<lambda>e. Built (ca_type e)) n\<rparr>"
    "layered (cached_types (cache s)) n" "cached_types n \<subseteq> T - dom (permanent s)"
    unfolding grows_def by blast
  have "\<forall>x \<in> set (cache s @ n). ca_type x \<noteq> t"
    using assms(2,3) n(3) by (auto simp: cached_types_def)
  then have "cache_insert \<lparr>ca_type = t, ca_arcs = arcs, ca_teardown = td\<rparr> (cache s @ n) =
      cache s @ n @ [\<lparr>ca_type = t, ca_arcs = arcs, ca_teardown = td\<rparr>]"
    by (simp add: cache_insert_def filter_id_conv)
  with n assms show ?thesis
    unfolding grows_def
    by (intro exI [of _ "n @ [\<lparr>ca_type = t, ca_arcs = arcs, ca_teardown = td\<rparr>]"]) auto
qed

lemma cached_types_cache_insert [simp]:
  "cached_types (cache_insert e es) = insert (ca_type e) (cached_types es)"
  by (auto simp: cache_insert_def cached_types_def)

lemma inner_get_Some:
  "inner_get t s = Some (Cached_Arc u) \<Longrightarrow> u = t \<and> t \<in> cached_types (cache s)"
  by (auto simp: inner_get_def split: option.splits if_splits)

lemma setup_grows:
  "inner_setup f b s = ((r, b'), s') \<Longrightarrow> acyclic_fixture f \<Longrightarrow>
     grows (fixture_types f) s s' \<and> b' \<le> b \<and>
     (\<forall>u. r = Setup_Some (Cached_Arc u) \<longrightarrow> u = fx_type f \<and> u \<in> cached_types (cache s'))"
  "run_setup code got b s = ((r', b'), s') \<Longrightarrow> acyclic_code code \<Longrightarrow>
     set got \<subseteq> cached_types (cache s) \<Longrightarrow>
     grows (code_types code) s s' \<and> b' \<le> b \<and>
     (\<forall>arcs. r' = Code_Some arcs \<longrightarrow> set arcs \<subseteq> cached_types (cache s'))"
proof (induction f b s and code got b s arbitrary: r b' s' and r' b' s' rule: inner_setup_run_setup.induct)
  case (1 t ts tt conc code td b s)
  show ?case
  proof (cases "permanent s t \<noteq> None \<or> t \<in> cached_types (cache s)")
    case True
    with 1 show ?thesis
      by (auto dest: inner_get_Some split: option.splits)
  next
    case False
    obtain ce b1 s1 where run: "run_setup code [] b s = ((ce, b1), s1)"
      by (metis surj_pair)
    from 1 False run have "grows (code_types code) s s1" "b1 \<le> b"
      "\<forall>arcs. ce = Code_Some arcs \<longrightarrow> set arcs \<subseteq> cached_types (cache s1)"
      by auto
    with False run 1(2,3) show ?thesis
      by (cases ce)
        (auto intro: grows_insert grows_mono)
  qed
next
  case (7 f k k' got b s)
  obtain se b1 s1 where i: "inner_setup f b s = ((se, b1), s1)"
    by (metis surj_pair)
  with 7 have g1: "grows (fixture_types f) s s1" "b1 \<le> b"
    and c1: "\<forall>u. se = Setup_Some (Cached_Arc u) \<longrightarrow> u \<in> cached_types (cache s1)"
    by auto
  have sub: "set got \<subseteq> cached_types (cache s1)"
    using "7.prems"(3) grows_fields(4) [OF g1(1)] by blast
  show ?case
  proof (cases se)
    case (Setup_Some a)
    show ?thesis
    proof (cases a)
      case (Permanent_Arc v)
      with 7 i Setup_Some sub have "grows (code_types k) s1 s' \<and> b' \<le> b1 \<and>
          (\<forall>arcs. r' = Code_Some arcs \<longrightarrow> set arcs \<subseteq> cached_types (cache s'))"
        by auto
      with g1 show ?thesis by (auto intro: grows_mono [OF grows_trans])
    next
      case (Cached_Arc u)
      with 7 i Setup_Some sub c1 have "grows (code_types k) s1 s' \<and> b' \<le> b1 \<and>
          (\<forall>arcs. r' = Code_Some arcs \<longrightarrow> set arcs \<subseteq> cached_types (cache s'))"
        by auto
      with g1 show ?thesis by (auto intro: grows_mono [OF grows_trans])
    qed
  next
    case Setup_None
    with 7 i sub have "grows (code_types k') s1 s' \<and> b' \<le> b1 \<and>
        (\<forall>arcs. r' = Code_Some arcs \<longrightarrow> set arcs \<subseteq> cached_types (cache s'))"
      by auto
    with g1 show ?thesis by (auto intro: grows_mono [OF grows_trans])
  next
    case Setup_Aborted
    with 7 i g1 show ?thesis by (auto intro: grows_mono)
  qed
next
  case (8 t k k' got b s)
  show ?case
  proof (cases "inner_get t s")
    case None
    with 8 show ?thesis by (auto intro: grows_mono)
  next
    case (Some a)
    show ?thesis
    proof (cases a)
      case (Permanent_Arc v)
      with 8 Some show ?thesis by (auto intro: grows_mono)
    next
      case (Cached_Arc u)
      with Some have u: "u \<in> cached_types (cache s)"
        by (auto dest: inner_get_Some)
      with "8.prems" Some Cached_Arc "8.IH"(3) [OF Some Cached_Arc, of r' b' s']
      have "grows (code_types k) s s' \<and> b' \<le> b \<and>
          (\<forall>arcs. r' = Code_Some arcs \<longrightarrow> set arcs \<subseteq> cached_types (cache s'))"
        by simp
      then show ?thesis by (auto intro: grows_mono)
    qed
  qed
qed (auto split: if_splits)

lemma grows_wf:
  assumes "fx_wf s" and "grows T s s'"
  shows "fx_wf s'"
proof -
  from assms(2) obtain n where n:
    "s' = s\<lparr>cache := cache s @ n, calls := calls s @ map (\<lambda>e. Built (ca_type e)) n\<rparr>"
    "layered (cached_types (cache s)) n" "cached_types n \<subseteq> T - dom (permanent s)"
    unfolding grows_def by blast
  from assms(1) obtain es where es: "mset es = mset (cache s)" "layered {} es"
    by (auto simp: fx_wf_def cache_ok_def)
  then have "layered {} (es @ n)" and "mset (es @ n) = mset (cache s @ n)"
    using n(2) cached_types_mset [OF es(1)] by auto
  then have "cache_ok (cache s @ n)"
    unfolding cache_ok_def by blast
  with n assms(1) show ?thesis by (fastforce simp: fx_wf_def)
qed

section \<open>Tearing down\<close>

text \<open>
  One step of a teardown as a relation: some entry that only the map holds leaves it.  The log
  lists the types in the order they leave.
\<close>

inductive collect :: "(type_id \<Rightarrow> nat) \<Rightarrow> cached list \<Rightarrow> cached list \<Rightarrow> type_id list \<Rightarrow> bool"
  for h where
  stop: "mset c = mset c' \<Longrightarrow> collect h c c' []"
| drop: "mset c = add_mset e (mset c1) \<Longrightarrow> strong_count h c (ca_type e) = 1 \<Longrightarrow>
     collect h c1 c' l \<Longrightarrow> collect h c c' (ca_type e # l)"

inductive_cases collect_NilE: "collect h c c' []"
inductive_cases collect_ConsE: "collect h c c' (t # l)"

lemma strong_count_mset: "mset c = mset c' \<Longrightarrow> strong_count h c t = strong_count h c' t"
  unfolding strong_count_def by (auto intro: sum_list_mset_cong)

lemma strong_count_1_iff:
  "strong_count h c t = Suc 0 \<longleftrightarrow> h t = 0 \<and> (\<forall>e \<in> set c. t \<notin> set (ca_arcs e))"
  by (auto simp: strong_count_def sum_list_nonneg_eq_0_iff count_list_0_iff)

lemma collect_mset: "collect h c c' l \<Longrightarrow> mset d = mset c \<Longrightarrow> collect h d c' l"
proof (induction arbitrary: d rule: collect.induct)
  case (stop c c')
  then show ?case by (auto intro: collect.stop)
next
  case (drop c e c1 c' l)
  then show ?case
    using strong_count_mset [OF drop.prems] by (auto intro: collect.drop)
qed

lemma collect_append: "collect h c c1 l1 \<Longrightarrow> collect h c1 c2 l2 \<Longrightarrow> collect h c c2 (l1 @ l2)"
proof (induction rule: collect.induct)
  case (stop c c')
  then show ?case using collect_mset [of h c' c2 l2 c] by simp
qed (auto intro: collect.drop)

text \<open>The loop of the code refines the relation.\<close>

lemma run_fut_le: "run_fut f b = Some b' \<Longrightarrow> b' \<le> b"
  by (cases f) (auto split: if_splits)

lemma collect_drop_mid:
  "strong_count h (xs @ e # ys) (ca_type e) = 1 \<Longrightarrow> collect h (xs @ ys) c l \<Longrightarrow>
     collect h (xs @ e # ys) c (ca_type e # l)"
  by (rule collect.drop [of _ e "xs @ ys"]) auto

lemma teardown_pass_collect:
  "teardown_pass h kept es b found log = (ok, c, b', found', log') \<Longrightarrow>
     \<exists>l. collect h (kept @ es) c l \<and> log' = log @ map Torn l"
proof (induction h kept es b found log rule: teardown_pass.induct)
  case (1 h kept b found log)
  then show ?case by (intro exI [of _ "[]"]) (simp add: collect.stop)
next
  case (2 h kept e es b found log)
  show ?case
  proof (cases "strong_count h (kept @ e # es) (ca_type e) = 1")
    case True
    show ?thesis
    proof (cases "run_fut (ca_teardown e) b")
      case None
      with "2.prems" True show ?thesis
        by (intro exI [of _ "[ca_type e]"]) (simp add: collect_drop_mid collect.stop)
    next
      case (Some b1)
      with "2.prems" "2.IH"(1) [OF True Some] True obtain l where "collect h (kept @ es) c l"
          "log' = (log @ [Torn (ca_type e)]) @ map Torn l"
        by auto
      with True show ?thesis
        by (intro exI [of _ "ca_type e # l"]) (simp add: collect_drop_mid)
    qed
  next
    case False
    with "2.prems" "2.IH"(2) [OF False] show ?thesis by simp
  qed
qed

lemma mset_iteration_order [simp]: "mset (iteration_order s) = mset (cache s)"
  by (simp add: iteration_order_def)

lemma inner_teardown_unfold:
  assumes "teardown_pass (handles s) [] (iteration_order s) b False (calls s) = (ok, c, b', found, log)"
  shows "inner_teardown b s =
    (if \<not> ok then (False, s\<lparr>cache := c, calls := log\<rparr>)
     else if found then inner_teardown b' (s\<lparr>cache := c, calls := log\<rparr>)
     else (True, s\<lparr>cache := c, calls := log\<rparr>))"
  using assms by (subst inner_teardown.simps) (simp add: Let_def)

lemma teardown_pass_shrinks:
  "teardown_pass (handles s) [] (iteration_order s) b False (calls s) = (ok, c, b', True, log) \<Longrightarrow>
     length c < length (cache s)"
  by (auto dest: teardown_pass_length simp: iteration_order_def)

lemma inner_teardown_collect:
  "inner_teardown b s = (ok, s') \<Longrightarrow>
     \<exists>c l. collect (handles s) (cache s) c l \<and> s' = s\<lparr>cache := c, calls := calls s @ map Torn l\<rparr>"
proof (induction "length (cache s)" arbitrary: b s rule: less_induct)
  case (less s b)
  obtain ok1 c1 b1 found log1 where p:
    "teardown_pass (handles s) [] (iteration_order s) b False (calls s) = (ok1, c1, b1, found, log1)"
    by (metis prod_cases5)
  from teardown_pass_collect [OF p] obtain l where
    l: "collect (handles s) (iteration_order s) c1 l" "log1 = calls s @ map Torn l" by auto
  then have l': "collect (handles s) (cache s) c1 l"
    using collect_mset [OF l(1), of "cache s"] by simp
  let ?s1 = "s\<lparr>cache := c1, calls := log1\<rparr>"
  show ?case
  proof (cases "ok1 \<and> found")
    case True
    with less.prems inner_teardown_unfold [OF p] have rec: "inner_teardown b1 ?s1 = (ok, s')"
      by simp
    have "length (cache ?s1) < length (cache s)"
      using True p teardown_pass_shrinks by auto
    from less.hyps [OF this rec] obtain c l2 where
      "collect (handles s) c1 c l2" "s' = s\<lparr>cache := c, calls := log1 @ map Torn l2\<rparr>"
      by auto
    with l l' show ?thesis
      by (intro exI [of _ c] exI [of _ "l @ l2"]) (auto intro: collect_append)
  next
    case False
    with less.prems inner_teardown_unfold [OF p] l l' show ?thesis
      by (auto split: if_splits)
  qed
qed

text \<open>A pass that finds nothing shows that every entry left is held by something else.\<close>

lemma teardown_pass_stuck:
  "teardown_pass h kept es b found log = (True, c, b', False, log') \<Longrightarrow>
     \<not> found \<and> c = kept @ es \<and> (\<forall>e \<in> set es. strong_count h c (ca_type e) \<noteq> 1)"
proof (induction h kept es b found log rule: teardown_pass.induct)
  case (2 h kept e es b found log)
  then show ?case by (auto split: if_splits option.splits)
qed auto

lemma inner_teardown_stuck:
  "inner_teardown b s = (True, s') \<Longrightarrow> e \<in> set (cache s') \<Longrightarrow>
     strong_count (handles s) (cache s') (ca_type e) \<noteq> 1"
proof (induction "length (cache s)" arbitrary: b s rule: less_induct)
  case (less s b)
  obtain ok1 c1 b1 found log1 where p:
    "teardown_pass (handles s) [] (iteration_order s) b False (calls s) = (ok1, c1, b1, found, log1)"
    by (metis prod_cases5)
  show ?case
  proof (cases found)
    case True
    with less.prems(1) inner_teardown_unfold [OF p]
    have rec: "inner_teardown b1 (s\<lparr>cache := c1, calls := log1\<rparr>) = (True, s')"
      by (simp split: if_splits)
    have "length (cache (s\<lparr>cache := c1, calls := log1\<rparr>)) < length (cache s)"
      using True p teardown_pass_shrinks by auto
    from less.hyps [OF this rec less.prems(2)] show ?thesis by simp
  next
    case False
    with less.prems(1) inner_teardown_unfold [OF p] have "ok1" "s' = s\<lparr>cache := c1, calls := log1\<rparr>"
      by (simp_all split: if_splits)
    with False p teardown_pass_stuck [of "handles s" "[]" "iteration_order s" b False "calls s" c1 b1 log1]
      less.prems(2)
    show ?thesis by auto
  qed
qed

section \<open>What a teardown leaves\<close>

text \<open>The fixtures some running group or test holds, directly or through other fixtures.\<close>

inductive held :: "(type_id \<Rightarrow> nat) \<Rightarrow> cached list \<Rightarrow> type_id \<Rightarrow> bool"
  for h c where
  handle: "0 < h t \<Longrightarrow> held h c t"
| through: "held h c (ca_type e) \<Longrightarrow> e \<in> set c \<Longrightarrow> t \<in> set (ca_arcs e) \<Longrightarrow> held h c t"

lemma held_mono: "held h c t \<Longrightarrow> set c \<subseteq> set d \<Longrightarrow> held h d t"
  by (induction rule: held.induct) (auto intro: held.intros)

lemma not_held_if_unreferenced:
  "h t = 0 \<Longrightarrow> \<forall>e \<in> set c. t \<notin> set (ca_arcs e) \<Longrightarrow> \<not> held h c t"
  by (auto elim: held.cases)

lemma held_remove:
  assumes "held h c t" and "set c = insert e (set c1)" and "\<not> held h c (ca_type e)"
  shows "held h c1 t"
  using assms(1)
proof (induction rule: held.induct)
  case (through x t)
  then have "x \<noteq> e" using assms(3) by auto
  with through assms(2) show ?case by (auto intro: held.through)
qed (rule held.handle)

lemma collect_subset: "collect h c c' l \<Longrightarrow> set c' \<subseteq> set c"
proof (induction rule: collect.induct)
  case (stop c c')
  then show ?case by (auto dest: mset_eq_setD)
next
  case (drop c e c1 c' l)
  then have "set c1 \<subseteq> set c"
    by (metis set_mset_mset set_mset_add_mset_insert subset_insertI)
  with drop show ?case by blast
qed

lemma add_mset_set: "mset c = add_mset e (mset c1) \<Longrightarrow> set c = insert e (set c1)"
  by (metis set_mset_add_mset_insert set_mset_mset)

lemma collect_keeps_held:
  "collect h c c' l \<Longrightarrow> e \<in> set c \<Longrightarrow> held h c (ca_type e) \<Longrightarrow> e \<in> set c'"
proof (induction rule: collect.induct)
  case (stop c c')
  then show ?case by (auto dest: mset_eq_setD)
next
  case (drop c x c1 c' l)
  have sx: "set c = insert x (set c1)" using drop.hyps(1) by (rule add_mset_set)
  have nx: "\<not> held h c (ca_type x)"
    using drop.hyps(2) by (intro not_held_if_unreferenced) (auto simp: strong_count_1_iff)
  with drop.prems have "e \<noteq> x" by auto
  with drop sx nx show ?case by (auto dest: held_remove)
qed

lemma collect_cache_ok: "collect h c c' l \<Longrightarrow> cache_ok c \<Longrightarrow> cache_ok c'"
proof (induction rule: collect.induct)
  case (stop c c')
  then show ?case by (simp add: cache_ok_def)
next
  case (drop c e c1 c' l)
  from drop.prems obtain es where es: "mset es = mset c" "layered {} es"
    by (auto simp: cache_ok_def)
  have "e \<in> set es"
    using es(1) drop.hyps(1) by (metis add_mset_set insertI1 mset_eq_setD)
  then obtain xs ys where sp: "es = xs @ e # ys" by (auto simp: in_set_conv_decomp)
  have "\<forall>y \<in> set ys. ca_type e \<notin> set (ca_arcs y)"
    using drop.hyps(2) sp mset_eq_setD [OF es(1)] by (auto simp: strong_count_1_iff)
  with es(2) sp have "layered {} (xs @ ys)" by (metis layered_remove)
  moreover have "mset (xs @ ys) = mset c1"
    using es(1) sp drop.hyps(1) by simp
  ultimately have "cache_ok c1" unfolding cache_ok_def by blast
  then show ?case by (rule drop.IH)
qed

lemma stuck_all_held:
  assumes "cache_ok c" and "\<And>e. e \<in> set c \<Longrightarrow> strong_count h c (ca_type e) \<noteq> 1" and "e \<in> set c"
  shows "held h c (ca_type e)"
proof -
  obtain es where es: "mset es = mset c" "layered {} es"
    using assms(1) by (auto simp: cache_ok_def)
  have set_es: "set es = set c" using es(1) by (rule mset_eq_setD)
  have "layered {} (xs @ ys) \<Longrightarrow> set (xs @ ys) = set c \<Longrightarrow> \<forall>y \<in> set ys. held h c (ca_type y) \<Longrightarrow>
      \<forall>x \<in> set xs. held h c (ca_type x)" for xs ys
  proof (induction xs arbitrary: ys rule: rev_induct)
    case (snoc x xs)
    have "x \<in> set c" using snoc.prems(2) by auto
    with assms(2) have "0 < h (ca_type x) \<or> (\<exists>e \<in> set c. ca_type x \<in> set (ca_arcs e))"
      by (auto simp: strong_count_1_iff)
    moreover have "\<not> (\<exists>e \<in> set (xs @ [x]). ca_type x \<in> set (ca_arcs e))"
      using snoc.prems(1) layered_arcs [of "{}" xs] by fastforce
    ultimately have "0 < h (ca_type x) \<or> (\<exists>e \<in> set ys. e \<in> set c \<and> ca_type x \<in> set (ca_arcs e))"
      using snoc.prems(2) by auto
    then have x: "held h c (ca_type x)"
      using snoc.prems(3) by (auto intro: held.intros)
    moreover have "\<forall>x \<in> set xs. held h c (ca_type x)"
      using snoc.prems x by (intro snoc.IH [of "x # ys"]) auto
    ultimately show ?case by simp
  qed simp
  from this [of es "[]"] es(2) set_es assms(3) show ?thesis by simp
qed

lemma inner_teardown_exact:
  assumes "fx_wf s" and "inner_teardown b s = (True, s')"
  shows "set (cache s') = {e \<in> set (cache s). held (handles s) (cache s) (ca_type e)}"
proof -
  from inner_teardown_collect [OF assms(2)] obtain c l where
    c: "collect (handles s) (cache s) c l" "s' = s\<lparr>cache := c, calls := calls s @ map Torn l\<rparr>" by blast
  have ok: "cache_ok c"
    using collect_cache_ok [OF c(1)] assms(1) by (simp add: fx_wf_def)
  have "held (handles s) c (ca_type e)" if "e \<in> set c" for e
    using ok _ that by (rule stuck_all_held) (use inner_teardown_stuck [OF assms(2)] c(2) in auto)
  then show ?thesis
    using c(2) collect_subset [OF c(1)] collect_keeps_held [OF c(1)] held_mono
    by fastforce
qed

lemma inner_teardown_wf:
  assumes "fx_wf s" and "inner_teardown b s = (ok, s')"
  shows "fx_wf s' \<and> handles s' = handles s \<and> permanent s' = permanent s \<and> hasher s' = hasher s"
proof -
  from inner_teardown_collect [OF assms(2)] obtain c l where
    c: "collect (handles s) (cache s) c l" "s' = s\<lparr>cache := c, calls := calls s @ map Torn l\<rparr>" by blast
  have "t \<in> cached_types c" if pos: "0 < handles s t" for t
  proof -
    obtain e where e: "e \<in> set (cache s)" "ca_type e = t"
      using pos assms(1) by (auto simp: fx_wf_def cached_types_def)
    with pos have "e \<in> set c"
      by (intro collect_keeps_held [OF c(1)]) (auto intro: held.handle)
    with e show ?thesis by (auto simp: cached_types_def)
  qed
  moreover have "cached_types c \<subseteq> cached_types (cache s)"
    using collect_subset [OF c(1)] by (auto simp: cached_types_def)
  ultimately show ?thesis
    using assms(1) c collect_cache_ok [OF c(1)] by (auto simp: fx_wf_def)
qed

section \<open>The order of teardowns\<close>

text \<open>\<open>before x y l\<close>: \<open>y\<close> does not occur in \<open>l\<close> before an occurrence of \<open>x\<close>.\<close>

fun before :: "'a \<Rightarrow> 'a \<Rightarrow> 'a list \<Rightarrow> bool" where
  "before x y [] = True"
| "before x y (z # zs) = (z = x \<or> (z \<noteq> y \<and> before x y zs))"

lemma collect_dependent_first:
  "collect h c c' l \<Longrightarrow> e \<in> set c \<Longrightarrow> t \<in> set (ca_arcs e) \<Longrightarrow> before (ca_type e) t l"
proof (induction rule: collect.induct)
  case (drop c x c1 c' l)
  have "set c = insert x (set c1)" using drop.hyps(1) by (rule add_mset_set)
  moreover have "ca_type x \<noteq> t"
    using drop.hyps(2) drop.prems by (auto simp: strong_count_1_iff)
  ultimately show ?case using drop by auto
qed simp

section \<open>Built and torn down\<close>

text \<open>Every fixture that was built is either still cached or was torn down, once per time it was built.\<close>

definition calls_balanced :: "fixtures \<Rightarrow> bool" where
  "calls_balanced s \<longleftrightarrow> (\<forall>t. count_list (calls s) (Built t) =
     count_list (calls s) (Torn t) + count_list (map ca_type (cache s)) t)"

lemma count_list_map_Built [simp]:
  "count_list (map (\<lambda>e. Built (f e)) es) (Built t) = count_list (map f es) t"
  "count_list (map (\<lambda>e. Built (f e)) es) (Torn t) = 0"
  "count_list (map Torn l) (Built t) = 0"
  "count_list (map Torn l) (Torn t) = count_list l t"
  by (induction es; simp)+ (induction l; simp)+

lemma grows_balanced: "calls_balanced s \<Longrightarrow> grows T s s' \<Longrightarrow> calls_balanced s'"
  by (auto simp: grows_def calls_balanced_def)

lemma collect_types: "collect h c c' l \<Longrightarrow> mset (map ca_type c) = mset (map ca_type c') + mset l"
  by (induction rule: collect.induct) auto

lemma collect_count_list:
  "collect h c c' l \<Longrightarrow> count_list (map ca_type c) t = count_list (map ca_type c') t + count_list l t"
  using collect_types [of h c c' l] by (metis count_mset count_union)

lemma inner_teardown_balanced:
  assumes "calls_balanced s" and "inner_teardown b s = (ok, s')"
  shows "calls_balanced s'"
proof -
  from inner_teardown_collect [OF assms(2)] obtain c l where
    c: "collect (handles s) (cache s) c l" "s' = s\<lparr>cache := c, calls := calls s @ map Torn l\<rparr>" by blast
  with assms(1) collect_count_list [OF c(1)] show ?thesis
    by (simp add: calls_balanced_def)
qed

end
