(* ===== verification/Run_Fixtures.thy ===== *)
theory Run_Fixtures
  imports Runner Fixture_Laws
begin

text \<open>
  The fixtures during a run: every group and test gives back the fixtures it was given, whatever
  the schedule, so the last teardown of a run can collect all of them.
\<close>

section \<open>The interface of the fixture manager\<close>

definition fx_inv :: "fixtures \<Rightarrow> bool" where
  "fx_inv s \<longleftrightarrow> fx_wf s \<and> calls_balanced s"

fun owned :: "('k \<Rightarrow> 't \<Rightarrow> nat) \<Rightarrow> 'k option task_end \<Rightarrow> 't \<Rightarrow> nat" where
  "owned owns (Finished (Some a)) t = owns a t"
| "owned owns _ t = 0"

text \<open>
  What the runner relies on: a setup adds the handle it returns, a teardown leaves the handles
  alone, and dropping a handle takes it back.
\<close>

locale fixture_manager =
  fixes set_up :: "'f \<Rightarrow> duration \<Rightarrow> duration \<Rightarrow> 's \<Rightarrow> 'k option task_end \<times> 's"
    and tear_down :: "duration \<Rightarrow> duration \<Rightarrow> 's \<Rightarrow> unit task_end \<times> 's"
    and release :: "'k \<Rightarrow> 's \<Rightarrow> 's"
    and inv :: "'s \<Rightarrow> bool"
    and held_by_tests :: "'s \<Rightarrow> 't \<Rightarrow> nat"
    and owns :: "'k \<Rightarrow> 't \<Rightarrow> nat"
    and good :: "'f \<Rightarrow> bool"
  assumes setup_law: "inv s \<Longrightarrow> good f \<Longrightarrow> set_up f b wait s = (r, s') \<Longrightarrow>
      inv s' \<and> (\<forall>t. held_by_tests s' t = held_by_tests s t + owned owns r t)"
    and teardown_law: "inv s \<Longrightarrow> tear_down b wait s = (e, s') \<Longrightarrow>
      inv s' \<and> held_by_tests s' = held_by_tests s"
    and release_law: "inv s \<Longrightarrow>
      inv (release a s) \<and> (\<forall>t. held_by_tests (release a s) t = held_by_tests s t - owns a t)"
begin

lemma setup_nothing:
  assumes "inv s" and "good f" and "set_up f b wait s = (r, s')" and "\<And>a. r \<noteq> Finished (Some a)"
  shows "inv s' \<and> held_by_tests s' = held_by_tests s"
proof -
  have "owned owns r t = 0" for t
    using assms(4) by (cases "(owns, r, t)" rule: owned.cases) auto
  with setup_law [OF assms(1-3)] show ?thesis by auto
qed

lemma bracket:
  assumes "inv s" and "good f" and "set_up f b wait s = (Finished (Some a), s1)"
    and "inv s2" and "held_by_tests s2 = held_by_tests s1"
  shows "inv (release a s2) \<and> held_by_tests (release a s2) = held_by_tests s"
  using setup_law [OF assms(1-3)] release_law [OF assms(4), of a] assms(5) by auto

end

lemma grows_inv:
  assumes "fx_inv s" and "grows T s s'"
  shows "fx_inv s' \<and> handles s' = handles s"
  using assms grows_wf grows_balanced grows_fields(2) by (auto simp: fx_inv_def)

lemma hold_arc_inv:
  assumes "fx_inv s" and "\<And>t. a = Cached_Arc t \<Longrightarrow> t \<in> cached_types (cache s)"
  shows "fx_inv (hold_arc a s)"
  using assms by (cases a) (auto simp: fx_inv_def fx_wf_def hold_arc_def calls_balanced_def)

lemma release_arc_inv: "fx_inv s \<Longrightarrow> fx_inv (release_arc a s)"
  by (fastforce simp: fx_inv_def fx_wf_def release_arc_def calls_balanced_def)

lemma fixtures_setup_law:
  assumes "fx_inv s" and "acyclic_fixture f" and "fixtures_setup f b wait s = (r, s')"
  shows "fx_inv s' \<and> (\<forall>t. handles s' t = handles s t + owned arc_handles r t)"
proof (cases "b < wait")
  case True
  with assms show ?thesis by (auto simp: fixtures_setup_def)
next
  case False
  obtain e b1 s1 where i: "inner_setup f (b - wait) s = ((e, b1), s1)" by (metis surj_pair)
  from setup_grows(1) [OF i assms(2)] have g: "grows (fixture_types f) s s1"
    and c: "\<And>u. e = Setup_Some (Cached_Arc u) \<Longrightarrow> u \<in> cached_types (cache s1)" by auto
  from grows_inv [OF assms(1) g] have inv: "fx_inv s1" "handles s1 = handles s" by auto
  show ?thesis
  proof (cases e)
    case (Setup_Some a)
    with i False assms(3) have r: "r = Finished (Some a)" "s' = hold_arc a s1"
      by (auto simp: fixtures_setup_def)
    with hold_arc_inv [OF inv(1), of a] c Setup_Some inv(2) show ?thesis
      by (auto simp: hold_arc_def)
  qed (use i False assms(3) inv in \<open>auto simp: fixtures_setup_def\<close>)
qed

lemma fixtures_teardown_law:
  assumes "fx_inv s" and "fixtures_teardown b wait s = (e, s')"
  shows "fx_inv s' \<and> handles s' = handles s"
proof (cases "b < wait")
  case True
  with assms show ?thesis by (auto simp: fixtures_teardown_def)
next
  case False
  obtain ok s1 where "inner_teardown (b - wait) s = (ok, s1)" by fastforce
  with inner_teardown_wf [of s "b - wait" ok s1] inner_teardown_balanced [of s "b - wait" ok s1] assms False
  show ?thesis by (auto simp: fixtures_teardown_def fx_inv_def split: bool.splits)
qed

interpretation fxm: fixture_manager fixtures_setup fixtures_teardown release_arc fx_inv handles
  arc_handles acyclic_fixture
proof unfold_locales
  show "fx_inv s \<Longrightarrow> acyclic_fixture f \<Longrightarrow> fixtures_setup f b wait s = (r, s') \<Longrightarrow>
      fx_inv s' \<and> (\<forall>t. handles s' t = handles s t + owned arc_handles r t)" for s f b wait r s'
    by (rule fixtures_setup_law)
  show "fx_inv s \<Longrightarrow> fixtures_teardown b wait s = (e, s') \<Longrightarrow> fx_inv s' \<and> handles s' = handles s"
    for s b wait e s'
    by (rule fixtures_teardown_law)
  show "fx_inv s \<Longrightarrow> fx_inv (release_arc a s) \<and> (\<forall>t. handles (release_arc a s) t = handles s t - arc_handles a t)"
    for s a
    using release_arc_inv by (simp add: release_arc_def)
qed

section \<open>Tests\<close>

lemma record_w_fx [run_simps]: "record_w n ev w = Some w' \<Longrightarrow> w_fx w' = w_fx w"
  by (auto simp: record_w_def)

lemma drop_arc_fx [run_simps]: "w_fx (drop_arc a w) = release_arc a (w_fx w)"
  by (simp add: drop_arc_def)

text \<open>\<open>w'\<close> holds what \<open>w\<close> holds.\<close>

definition settled :: "world \<Rightarrow> world \<Rightarrow> bool" where
  "settled w w' \<longleftrightarrow> fx_inv (w_fx w') \<and> handles (w_fx w') = handles (w_fx w)"

lemma settled_trans: "settled w w1 \<Longrightarrow> settled w1 w2 \<Longrightarrow> settled w w2"
  by (simp add: settled_def)

lemma spawn_teardown_settled:
  "spawn_teardown b wait w = (r, w') \<Longrightarrow> fx_inv (w_fx w) \<Longrightarrow> settled w w'"
  using fxm.teardown_law [of "w_fx w" b wait]
  by (auto simp: spawn_teardown_def settled_def split: prod.splits)

lemma spawn_setup_law:
  assumes "spawn_setup f b wait w = (r, w')" and "fx_inv (w_fx w)" and "acyclic_fixture f"
  shows "(\<exists>a. r = Inr (Some a) \<and> fixtures_setup f b wait (w_fx w) = (Finished (Some a), w_fx w') \<and>
      fx_inv (w_fx w') \<and> handles (w_fx w') = (\<lambda>t. handles (w_fx w) t + arc_handles a t)) \<or>
    ((\<nexists>a. r = Inr (Some a)) \<and> settled w w')"
proof -
  obtain e s where e: "fixtures_setup f b wait (w_fx w) = (e, s)" by fastforce
  with assms(1) have r: "r = single e" "w' = w\<lparr>w_fx := s\<rparr>" by (auto simp: spawn_setup_def)
  from fxm.setup_law [OF assms(2,3) e] have "fx_inv s" "\<forall>t. handles s t = handles (w_fx w) t + owned arc_handles e t"
    by auto
  with e r show ?thesis
    by (cases "(arc_handles, e, undefined :: type_id)" rule: owned.cases) (auto simp: settled_def)
qed

lemma task_teardown_settled:
  assumes "task_teardown n b w = Some w'" and "fx_inv (w_fx w)"
  shows "settled w w'"
proof -
  obtain w1 r w2 where "record_w n TeardownLaunched w = Some w1" "spawn_teardown b 0 w1 = (r, w2)"
    "record_w n (teardown_event r) w2 = Some w'"
    using assms(1) by (auto simp: task_teardown_def case_prod_unfold) (metis prod.collapse)
  with assms(2) spawn_teardown_settled [of b 0 w1 r w2] show ?thesis
    by (simp add: settled_def record_w_fx)
qed

lemma task_setup_law:
  assumes "task_setup n k f b w = Some (r, w')" and "fx_inv (w_fx w)" and "acyclic_fixture f"
  shows "(\<exists>a. r = Inr (Some a) \<and> fixtures_setup f b 0 (w_fx w) = (Finished (Some a), w_fx w') \<and>
      fx_inv (w_fx w')) \<or> ((\<nexists>a. r = Inr (Some a)) \<and> settled w w')"
proof -
  obtain w1 where w1: "record_w n SetupLaunched w = Some w1"
    and rest: "(case spawn_setup f b 0 w1 of (r, w2) \<Rightarrow>
        do { w3 \<leftarrow> record_w n (setup_event k r) w2; Some (r, w3) }) = Some (r, w')"
    using assms(1) by (auto simp: task_setup_def)
  obtain r' w2 where w2: "spawn_setup f b 0 w1 = (r', w2)" by fastforce
  with rest have "spawn_setup f b 0 w1 = (r, w2)" "record_w n (setup_event k r) w2 = Some w'" by auto
  with w1 assms(2,3) spawn_setup_law [of f b 0 w1 r w2] show ?thesis
    by (auto simp: settled_def record_w_fx)
qed

lemma task_test_fx: "task_test n body b w = Some w' \<Longrightarrow> w_fx w' = w_fx w"
  by (auto simp: task_test_def Let_def) (metis record_w_fx)

text \<open>Using a fixture and giving it back, shared by tests and groups.\<close>

lemma used_and_dropped:
  assumes "fx_inv (w_fx w)" and "acyclic_fixture f"
    and "fixtures_setup f b 0 (w_fx w) = (Finished (Some a), w_fx w1)" and "settled w1 w2"
  shows "settled w (drop_arc a w2)"
  using fxm.bracket [OF assms(1-3), of "w_fx w2"] assms(4) by (simp add: settled_def drop_arc_fx)

lemma run_test_settled:
  assumes "run_test d gn t w = Some w'" and "fx_inv (w_fx w)" and "acyclic_fixture (t_fixture t)"
  shows "settled w w'"
proof -
  obtain r w1 where s: "task_setup (test_path gn t) TaskTest (t_fixture t) (setup_timeout (t_fixture t) d) w = Some (r, w1)"
    using assms(1) by (auto simp: run_test_def Let_def)
  show ?thesis
  proof (cases r rule: setup_answer)
    case (passed a)
    obtain w2 where w2: "task_test (test_path gn t) (t_body t) (body_timeout t d) w1 = Some w2"
      "task_teardown (test_path gn t) (teardown_timeout (t_fixture t) d) (drop_arc a w2) = Some w'"
      using assms(1) s passed by (auto simp: run_test_def Let_def)
    have f: "fixtures_setup (t_fixture t) (setup_timeout (t_fixture t) d) 0 (w_fx w) = (Finished (Some a), w_fx w1)"
      and "settled w1 w2"
      using task_setup_law [OF s assms(2,3)] passed task_test_fx [OF w2(1)] by (auto simp: settled_def)
    from used_and_dropped [OF assms(2,3) this] task_teardown_settled [OF w2(2)] show ?thesis
      by (auto simp: settled_def)
  next
    case skipped
    with assms s task_setup_law [OF s assms(2,3)] show ?thesis
      by (auto simp: run_test_def Let_def settled_def dest!: task_teardown_settled)
  next
    case failed
    with assms s task_setup_law [OF s assms(2,3)] show ?thesis
      by (auto simp: run_test_def Let_def settled_def dest!: task_teardown_settled)
  qed
qed

lemma for_each_settled:
  "for_each d gn ts w = Some w' \<Longrightarrow> fx_inv (w_fx w) \<Longrightarrow> \<forall>t \<in> set ts. acyclic_fixture (t_fixture t) \<Longrightarrow>
     settled w w'"
proof (induction ts arbitrary: w)
  case (Cons t ts)
  then obtain w1 where w1: "run_test d gn t w = Some w1" "for_each d gn ts w1 = Some w'" by auto
  have "settled w w1" using w1(1) Cons.prems by (intro run_test_settled) auto
  moreover from this have "settled w1 w'"
    using w1(2) Cons.prems by (intro Cons.IH) (auto simp: settled_def)
  ultimately show ?case by (rule settled_trans)
qed (simp add: settled_def)

section \<open>Tests side by side\<close>

text \<open>The handles a test owns at a suspension point.\<close>

fun pc_arcs :: "test_pc \<Rightarrow> type_id \<Rightarrow> nat" where
  "pc_arcs (Setup_Ready (Inr (Some a))) u = arc_handles a u"
| "pc_arcs (Body_Pending a) u = arc_handles a u"
| "pc_arcs _ u = 0"

definition pool_arcs :: "(test_desc \<times> test_pc) list \<Rightarrow> type_id \<Rightarrow> nat" where
  "pool_arcs running u = (\<Sum>(t, pc)\<leftarrow>running. pc_arcs pc u)"

lemma test_step_arcs:
  assumes "test_step d gn t wait pc w = Some (pc', w')" and "fx_inv (w_fx w)"
    and "acyclic_fixture (t_fixture t)" and "\<forall>u. pc_arcs pc u \<le> handles (w_fx w) u"
  shows "fx_inv (w_fx w') \<and> (\<forall>u. handles (w_fx w') u + pc_arcs pc u = handles (w_fx w) u + pc_arcs pc' u)"
proof (cases pc)
  case Setup_Pending
  with assms(1) obtain r where r: "spawn_setup (t_fixture t) (setup_timeout (t_fixture t) d) wait w = (r, w')"
    "pc' = Setup_Ready r" by (auto split: prod.splits)
  from spawn_setup_law [OF r(1) assms(2,3)] r(2) Setup_Pending show ?thesis
    by (cases r rule: setup_answer) (auto simp: settled_def)
next
  case (Setup_Ready r)
  with assms show ?thesis
    by (cases r rule: setup_answer) (auto simp: record_w_fx)
next
  case (Body_Pending a)
  with assms show ?thesis
    by (auto simp: Let_def record_w_fx drop_arc_fx release_arc_inv) (simp add: release_arc_def)
next
  case Teardown_Pending
  with assms spawn_teardown_settled [of "teardown_timeout (t_fixture t) d" wait w] show ?thesis
    by (auto simp: settled_def split: prod.splits)
qed (use assms in \<open>auto simp: record_w_fx\<close>)

lemma pool_arcs_step:
  assumes "i < length running" and "running ! i = (t, pc)"
  shows "pool_arcs (if pc' = Test_Done then remove_nth i running else running[i := (t, pc')]) u + pc_arcs pc u =
    pool_arcs running u + pc_arcs pc' u"
proof -
  let ?f = "\<lambda>(t :: test_desc, pc). pc_arcs pc u"
  have "remove_nth i (running[i := (t, pc')]) = remove_nth i running"
    by (simp add: remove_nth_def)
  with sum_list_remove_nth [of i running ?f] sum_list_remove_nth [of i "running[i := (t, pc')]" ?f] assms
  show ?thesis by (auto simp: pool_arcs_def)
qed

lemma pool_arcs_member: "(t, pc) \<in> set running \<Longrightarrow> pc_arcs pc u \<le> pool_arcs running u"
  unfolding pool_arcs_def by (rule member_le_sum_list) (force, simp)

lemma for_each_concurrent_arcs:
  "for_each_concurrent d limit gn waiting running w = Some w' \<Longrightarrow> fx_inv (w_fx w) \<Longrightarrow>
   \<forall>t \<in> set waiting \<union> fst ` set running. acyclic_fixture (t_fixture t) \<Longrightarrow>
   \<forall>u. handles (w_fx w) u = base u + pool_arcs running u \<Longrightarrow>
   fx_inv (w_fx w') \<and> handles (w_fx w') = base"
proof (induction d limit gn waiting running w rule: for_each_concurrent.induct)
  case (1 d limit gn waiting running w)
  obtain c wait w1 where dr: "draw w = ((c, wait), w1)" by (metis surj_pair)
  then have w1: "w_fx w1 = w_fx w" by (auto simp: draw_def split: list.splits)
  define i where "i = chosen_move (w_admits w) limit waiting running c"
  note i_def' = i_def [unfolded chosen_move_def]
  consider (stop) "waiting = [] \<and> running = []"
    | (advance) "\<not> (waiting = [] \<and> running = [])" "i < length running"
    | (start) "\<not> (waiting = [] \<and> running = [])" "\<not> i < length running" by blast
  then show ?case
  proof cases
    case stop
    with "1.prems" show ?thesis by (auto simp: run_simps pool_arcs_def)
  next
    case advance
    obtain t pc where tp: "running ! i = (t, pc)" by (cases "running ! i")
    have mem: "(t, pc) \<in> set running" using advance(2) tp by (metis nth_mem)
    obtain pc' w2 where step: "test_step d gn t wait pc w1 = Some (pc', w2)"
      using "1.prems"(1) for_each_concurrent_panic [OF dr i_def tp advance(2)]
      by (cases "test_step d gn t wait pc w1") auto
    let ?running = "if pc' = Test_Done then remove_nth i running else running[i := (t, pc')]"
    have rest: "for_each_concurrent d limit gn waiting ?running w2 = Some w'"
      using "1.prems"(1) for_each_concurrent_advance [OF dr i_def tp advance(2) step] by simp
    have ac: "acyclic_fixture (t_fixture t)" using "1.prems"(3) mem by force
    have le: "\<forall>u. pc_arcs pc u \<le> handles (w_fx w1) u"
      using "1.prems"(4) pool_arcs_member [OF mem] by (simp add: w1 trans_le_add2)
    from test_step_arcs [OF step _ ac le] "1.prems"(2) have inv: "fx_inv (w_fx w2)"
      and h: "\<And>u. handles (w_fx w2) u + pc_arcs pc u = handles (w_fx w) u + pc_arcs pc' u"
      by (auto simp: w1)
    have "set ?running \<subseteq> insert (t, pc') (set running)"
      using set_update_subset_insert [of running i "(t, pc')"]
      by (auto simp: remove_nth_def dest: in_set_takeD in_set_dropD)
    then have acs: "\<forall>t \<in> set waiting \<union> fst ` set ?running. acyclic_fixture (t_fixture t)"
      using "1.prems"(3) ac by fastforce
    have "handles (w_fx w2) u = base u + pool_arcs ?running u" for u
      using pool_arcs_step [OF advance(2) tp, of pc' u] h [of u] "1.prems"(4) by auto
    with "1.IH"(1) [OF advance(1) dr [symmetric] refl i_def' advance(2), of "(pc', w2)" pc' w2,
        unfolded tp fst_conv snd_conv, OF step refl rest inv acs]
    show ?thesis by blast
  next
    case start
    have "may_start (w_admits w) limit waiting running"
      using start chosen_move_start by (simp add: i_def)
    then obtain t ts where wt: "waiting = t # ts" by (cases waiting) (auto simp: may_start_def)
    have "for_each_concurrent d limit gn (tl waiting) (running @ [(hd waiting, Test_Start)]) w1 = Some w'"
      using "1.prems"(1) for_each_concurrent_start [OF start(1) dr] start(2) by (simp add: i_def)
    from "1.IH"(2) [OF start(1) dr [symmetric] refl i_def' start(2) this] "1.prems" wt w1 show ?thesis
      by (auto simp: pool_arcs_def)
  qed
qed

lemma for_each_concurrent_settled:
  assumes "for_each_concurrent d limit gn ts [] w = Some w'" and "fx_inv (w_fx w)"
    and "\<forall>t \<in> set ts. acyclic_fixture (t_fixture t)"
  shows "settled w w'"
  using for_each_concurrent_arcs [OF assms(1,2), of "handles (w_fx w)"] assms(3)
  by (simp add: settled_def pool_arcs_def)

section \<open>Groups\<close>

fun acyclic_group :: "group \<Rightarrow> bool" where
  "acyclic_group (Group n f ts gs) =
     (acyclic_fixture f \<and> (\<forall>t \<in> set ts. acyclic_fixture (t_fixture t)) \<and> (\<forall>g \<in> set gs. acyclic_group g))"

lemma run_groups_settled:
  assumes "\<And>g w w'. g \<in> set gs \<Longrightarrow> run_group ctx ps g w = Some w' \<Longrightarrow> fx_inv (w_fx w) \<Longrightarrow> settled w w'"
    and "run_groups ctx ps gs w = Some w'" and "fx_inv (w_fx w)"
  shows "settled w w'"
  using assms
proof (induction gs arbitrary: w)
  case (Cons g gs)
  show ?case
  proof (cases "consider_group (rc_filter ctx) ps (g_name g)")
    case True
    with Cons.prems(2) obtain w1 where w1: "run_group ctx ps g w = Some w1" "run_groups ctx ps gs w1 = Some w'"
      by auto
    have "settled w w1" using w1(1) Cons.prems(3) by (intro Cons.prems(1)) auto
    moreover have "settled w1 w'"
      using calculation Cons.prems(1) w1(2) by (intro Cons.IH) (auto simp: settled_def)
    ultimately show ?thesis by (rule settled_trans)
  next
    case False
    with Cons show ?thesis by auto
  qed
qed (simp add: settled_def)

text \<open>A group ends with a teardown that starts with the handles the group started with.\<close>

lemma run_group_end:
  "run_group ctx ps g w = Some w' \<Longrightarrow> fx_inv (w_fx w) \<Longrightarrow> acyclic_group g \<Longrightarrow>
     \<exists>w1 b. task_teardown (join_path (ps @ [g_name g])) b w1 = Some w' \<and> settled w w1"
proof (induction g arbitrary: ctx ps w w')
  case (Group n f ts gs)
  let ?d = "rc_default_timeout ctx" and ?qs = "ps @ [n]" and ?n = "join_path (ps @ [n])"
  let ?ctx = "update_concurrency_enabled (fx_concurrent f) ctx"
  let ?chosen = "chosen_tests ?ctx ?qs ts"
  have ac: "acyclic_fixture f" using Group.prems(3) by simp
  obtain r w1 where s: "task_setup ?n TaskGroup f (setup_timeout f ?d) w = Some (r, w1)"
    using Group.prems(1) by (auto simp: Let_def)
  note law = task_setup_law [OF s Group.prems(2) ac]
  show ?case
  proof (cases r rule: setup_answer)
    case (passed a)
    with s Group.prems(1) obtain w2 w3 w4 where
      w2: "run_groups ?ctx ?qs gs w1 = Some w2" and
      w3: "for_each_concurrent ?d (Some (rc_concurrency ?ctx)) ?n (concurrent_tests ?ctx ?chosen) [] w2 = Some w3" and
      w4: "for_each ?d ?n (sequential_tests ?ctx ?chosen) w3 = Some w4" and
      w5: "task_teardown ?n (teardown_timeout f ?d) (drop_arc a w4) = Some w'"
      by (auto simp: Let_def)
    have tests: "\<forall>t \<in> set ?chosen. acyclic_fixture (t_fixture t)"
      using Group.prems(3) by (auto simp: chosen_tests_def)
    have f: "fixtures_setup f (setup_timeout f ?d) 0 (w_fx w) = (Finished (Some a), w_fx w1)"
      and i1: "fx_inv (w_fx w1)" using law passed by auto
    have s2: "settled w1 w2"
    proof (rule run_groups_settled [OF _ w2 i1])
      fix g v v' assume g: "g \<in> set gs" "run_group ?ctx ?qs g v = Some v'" "fx_inv (w_fx v)"
      with Group.IH [OF g] Group.prems(3) obtain u b where
        "task_teardown (join_path (?qs @ [g_name g])) b u = Some v'" "settled v u" by auto
      then show "settled v v'"
        by (auto simp: settled_def dest: task_teardown_settled)
    qed
    have s3: "settled w2 w3"
      using s2 tests by (intro for_each_concurrent_settled [OF w3]) (auto simp: settled_def concurrent_tests_def)
    have s4: "settled w3 w4"
      using s3 tests by (intro for_each_settled [OF w4]) (auto simp: settled_def sequential_tests_def)
    have "settled w1 w4" using s2 s3 s4 settled_trans by blast
    from used_and_dropped [OF Group.prems(2) ac f this] w5 show ?thesis by auto
  next
    case skipped
    with law s Group.prems(1) show ?thesis by (auto simp: Let_def)
  next
    case failed
    with law s Group.prems(1) show ?thesis by (auto simp: Let_def)
  qed
qed

lemma run_group_settled:
  "run_group ctx ps g w = Some w' \<Longrightarrow> fx_inv (w_fx w) \<Longrightarrow> acyclic_group g \<Longrightarrow> settled w w'"
  by (auto simp: settled_def dest!: run_group_end task_teardown_settled)

section \<open>The last teardown\<close>

lemma not_held_without_handles: "held h c t \<Longrightarrow> \<exists>u. 0 < h u"
  by (induction rule: held.induct) auto

lemma teardown_empties:
  assumes "fx_inv s" and "\<And>t. handles s t = 0" and "inner_teardown b s = (True, s')"
  shows "cache s' = []"
proof -
  have "\<not> held (handles s) (cache s) t" for t
    using assms(2) not_held_without_handles [of "handles s"] by fastforce
  then have "set (cache s') = {}"
    using inner_teardown_exact [OF _ assms(3)] assms(1) by (simp add: fx_inv_def)
  then show ?thesis by simp
qed

lemma task_teardown_last:
  assumes "task_teardown n b w = Some w'" and "fx_inv (w_fx w)" and "\<And>t. handles (w_fx w) t = 0"
    and "entry_event (last (events (w_stats w'))) = TeardownPassed"
  shows "cache (w_fx w') = []"
proof -
  obtain w1 where w1: "record_w n TeardownLaunched w = Some w1"
    and rest: "(case spawn_teardown b 0 w1 of (r, w2) \<Rightarrow> record_w n (teardown_event r) w2) = Some w'"
    using assms(1) by (auto simp: task_teardown_def)
  obtain r w2 where w2: "spawn_teardown b 0 w1 = (r, w2)" by fastforce
  with rest have w': "record_w n (teardown_event r) w2 = Some w'" by simp
  have "entry_event (last (events (w_stats w'))) = teardown_event r"
    using w' by (cases r) (auto simp: record_w_def record_event_def push_event_def split: if_splits)
  with assms(4) obtain u where r: "r = Inr u" by (cases r) auto
  with w2 obtain s where "inner_teardown b (w_fx w1) = (True, s)" "w_fx w2 = s"
    by (auto simp: spawn_teardown_def fixtures_teardown_def split: prod.splits bool.splits if_splits)
  with teardown_empties [of "w_fx w1" b s] assms(2,3) w1 w' show ?thesis
    by (auto simp: record_w_fx)
qed

lemma fx_inv_start: "fx_inv (fixtures_with_permanent h fs)" "handles (fixtures_with_permanent h fs) t = 0"
  by (simp_all add: fixtures_with_permanent_def fx_inv_def fx_wf_def calls_balanced_def)

end
