(* ===== verification/Selection_Tree.thy ===== *)
theory Selection_Tree
  imports Selection
begin

text \<open>
  The filter against the tree of groups it was built from: which tests of a subtree are chosen,
  and why the answers of \<open>consider_group\<close> and \<open>consider_test\<close> fit together.
\<close>

section \<open>Chosen tests and visited groups\<close>

text \<open>The full names of the tests of a subtree that \<open>consider_test\<close> accepts; \<open>ps\<close> are its parents.\<close>

fun selected :: "test_filter \<Rightarrow> string list \<Rightarrow> group \<Rightarrow> string list" where
  "selected fl ps (Group n f ts gs) =
     concat (map (selected fl (ps @ [n])) gs) @
     map (\<lambda>t. path_cons (join_path (ps @ [n])) (t_name t))
       (filter (\<lambda>t. consider_test fl (ps @ [n]) (t_name t)) ts)"

text \<open>
  A subgroup is entered exactly when some test below it is chosen.  This is what makes the
  assertions of \<open>record\<close> hold during a run.
\<close>

fun consistent :: "test_filter \<Rightarrow> string list \<Rightarrow> group \<Rightarrow> bool" where
  "consistent fl ps (Group n f ts gs) =
     (\<forall>g \<in> set gs. (consider_group fl (ps @ [n]) (g_name g) \<longleftrightarrow> selected fl (ps @ [n]) g \<noteq> []) \<and>
        consistent fl (ps @ [n]) g)"

lemma set_selected:
  "set (selected fl ps g) =
     {join_path (ps @ g_name g # p @ [t_name t]) | p t. (p, t) \<in> set (test_paths g) \<and>
        consider_test fl (ps @ g_name g # p) (t_name t)}"
proof (induction g arbitrary: ps)
  case (Group n f ts gs)
  have own: "path_cons (join_path (ps @ [n])) x = join_path (ps @ n # [] @ [x])" for x
    by (simp add: join_path_snoc [of "ps @ [n]", simplified])
  have sub: "set (selected fl (ps @ [n]) g) =
      {join_path (ps @ n # (g_name g # p) @ [t_name t]) | p t. (p, t) \<in> set (test_paths g) \<and>
        consider_test fl (ps @ n # g_name g # p) (t_name t)}" if "g \<in> set gs" for g
    using Group.IH [OF that, of "ps @ [n]"] by simp
  show ?case
    by (auto simp: sub own) (force simp: sub own)+
qed

lemma selected_filter_empty: "selected filter_empty ps g = [] \<longleftrightarrow> test_paths g = []"
proof (cases "test_paths g")
  case Nil
  then have "set (selected filter_empty ps g) = {}"
    by (simp add: set_selected)
  with Nil show ?thesis by simp
next
  case (Cons x xs)
  then have "join_path (ps @ g_name g # fst x @ [t_name (snd x)]) \<in> set (selected filter_empty ps g)"
    unfolding set_selected by (cases x) auto
  with Cons show ?thesis by auto
qed

lemma consistent_filter_empty: "no_empty_group g \<Longrightarrow> consistent filter_empty ps g"
proof (induction g arbitrary: ps)
  case (Group n f ts gs)
  then show ?case by (auto simp: selected_filter_empty dest: no_empty_group_paths)
qed

section \<open>The pairs the filter sees\<close>

lemma rsplit_once_test:
  assumes "plain (t_name t)"
  shows "rsplit_once (join_path (p @ [t_name t])) =
    (if p = [] then None else Some (join_path p, t_name t))"
  using assms by (simp add: rsplit_once_plain join_path_snoc rsplit_once_path_cons)

lemma pairs_of_tree:
  assumes "well_named G"
  shows "set (List.map_filter rsplit_once (test_names G)) =
    {(join_path p, t_name t) | p t. (p, t) \<in> set (test_paths G) \<and> p \<noteq> []}"
proof -
  have split: "rsplit_once (join_path (p @ [t_name t])) = (if p = [] then None else Some (join_path p, t_name t))"
    if "(p, t) \<in> set (test_paths G)" for p t
    using test_paths_plain [OF assms that] by (simp add: rsplit_once_test)
  show ?thesis (is "?L = ?R")
  proof
    show "?L \<subseteq> ?R"
    proof
      fix y assume "y \<in> ?L"
      then obtain p t where "(p, t) \<in> set (test_paths G)" "rsplit_once (join_path (p @ [t_name t])) = Some y"
        by (auto simp: set_map_filter test_names_paths)
      then show "y \<in> ?R" using split by (auto split: if_splits)
    qed
    show "?R \<subseteq> ?L"
    proof
      fix y assume "y \<in> ?R"
      then obtain p t where pt: "(p, t) \<in> set (test_paths G)" "p \<noteq> []" "y = (join_path p, t_name t)"
        by blast
      then have "rsplit_once (join_path (p @ [t_name t])) = Some y" using split by simp
      moreover have "join_path (p @ [t_name t]) \<in> set (test_names G)"
        using pt(1) by (force simp: test_names_paths)
      ultimately show "y \<in> ?L" by (auto simp: set_map_filter)
    qed
  qed
qed

lemma picks_of_tree:
  assumes "well_named G"
  shows "(g, t, w) \<in> picks fs (test_names G) \<longleftrightarrow>
    (\<exists>p td. (p, td) \<in> set (test_paths G) \<and> p \<noteq> [] \<and> g = join_path p \<and> t = t_name td \<and>
      (\<exists>f \<in> set fs. verdict f g t = Some w))"
  by (auto simp: picks_def pairs_of_tree [OF assms])

lemma group_chain_plain:
  assumes "p \<noteq> []" "\<forall>x \<in> set p. plain x" "plain root" "q \<noteq> []" "\<forall>x \<in> set q. plain x"
  shows "join_path (root # q) \<in> group_chain root (join_path p) \<longleftrightarrow> (\<exists>r. p = q @ r)"
proof
  assume "join_path (root # q) \<in> group_chain root (join_path p)"
  then obtain i where i: "join_path (root # q) = join_path (root # take i p)"
    using assms by (auto simp: group_chain_def split_join)
  have "\<forall>x \<in> set (root # take i p). plain x"
    using assms(2,3) by (auto dest: in_set_takeD)
  with i have "root # q = root # take i p"
    using assms by (subst (asm) join_path_inject) auto
  then show "\<exists>r. p = q @ r"
    by (metis append_take_drop_id list.inject)
next
  assume "\<exists>r. p = q @ r"
  then obtain r where "p = q @ r" by blast
  then show "join_path (root # q) \<in> group_chain root (join_path p)"
    using assms by (auto simp: group_chain_def split_join intro!: exI [of _ "length q"])
qed

section \<open>Subtrees\<close>

text \<open>\<open>subtree_at G q H\<close>: \<open>H\<close> holds exactly the tests of \<open>G\<close> below the path \<open>q\<close>.\<close>

definition subtree_at :: "group \<Rightarrow> string list \<Rightarrow> group \<Rightarrow> bool" where
  "subtree_at G q H \<longleftrightarrow> (\<forall>p t. (q @ p, t) \<in> set (test_paths G) \<longleftrightarrow> (p, t) \<in> set (test_paths H))"

lemma test_paths_child:
  assumes "well_named (Group n f ts gs)" and "g \<in> set gs"
  shows "(g_name g # p, t) \<in> set (test_paths (Group n f ts gs)) \<longleftrightarrow> (p, t) \<in> set (test_paths g)"
proof -
  have "g' = g" if "g' \<in> set gs" "g_name g' = g_name g" for g'
    using that assms by (auto simp: distinct_map inj_on_def)
  then have "(\<exists>g' \<in> set gs. g_name g' = g_name g \<and> (p, t) \<in> set (test_paths g')) \<longleftrightarrow>
      (p, t) \<in> set (test_paths g)"
    using assms(2) by metis
  moreover have "(g_name g # p, t) \<in> set (test_paths (Group n f ts gs)) \<longleftrightarrow>
      (\<exists>g' \<in> set gs. g_name g' = g_name g \<and> (p, t) \<in> set (test_paths g'))"
    by force
  ultimately show ?thesis by simp
qed

lemma subtree_at_child:
  assumes "subtree_at G q (Group n f ts gs)" and "well_named (Group n f ts gs)" and "g \<in> set gs"
  shows "subtree_at G (q @ [g_name g]) g"
  using assms test_paths_child [OF assms(2,3)] by (simp add: subtree_at_def)

lemma consider_group_selected:
  fixes fs :: "string list" and G :: group
  defines "fl \<equiv> filter_new fs (g_name G) (test_names G)"
  assumes G: "well_named G" and some: "picks fs (test_names G) \<noteq> {}"
    and H: "subtree_at G (q @ [g_name h]) h" and q: "\<forall>x \<in> set q. plain x" and h: "well_named h"
  shows "consider_group fl (g_name G # q) (g_name h) \<longleftrightarrow> selected fl (g_name G # q) h \<noteq> []"
proof -
  let ?P = "picks fs (test_names G)" and ?q = "q @ [g_name h]"
  have plain_q: "\<forall>x \<in> set ?q. plain x" using q well_named_name [OF h] by simp
  have plain_root: "plain (g_name G)" using G by (rule well_named_name)
  have group: "consider_group fl (g_name G # q) (g_name h) \<longleftrightarrow>
      (\<exists>r t w. (join_path (?q @ r), t, w) \<in> ?P \<and> (\<exists>td. (?q @ r, td) \<in> set (test_paths G) \<and> t = t_name td))"
    (is "_ \<longleftrightarrow> ?in_subtree")
  proof -
    have "(\<exists>r. p = ?q @ r) \<longleftrightarrow> join_path (g_name G # ?q) \<in> group_chain (g_name G) (join_path p)"
      if "(p, td) \<in> set (test_paths G)" "p \<noteq> []" for p td
      using test_paths_plain [OF G that(1)] that(2) plain_root plain_q
      by (subst group_chain_plain) auto
    note chain = this
    have root: "join_path ((g_name G # q) @ [g_name h]) = join_path (g_name G # ?q)" by simp
    show ?thesis
    proof
      assume "consider_group fl (g_name G # q) (g_name h)"
      then obtain g t w where g: "(g, t, w) \<in> ?P" "join_path (g_name G # ?q) \<in> group_chain (g_name G) g"
        unfolding fl_def consider_group_iff [OF some] root by blast
      then obtain p td where "(p, td) \<in> set (test_paths G)" "p \<noteq> []" "g = join_path p" "t = t_name td"
        by (auto simp: picks_of_tree [OF G])
      with g chain show ?in_subtree by blast
    next
      assume ?in_subtree
      then obtain r t w td where r: "(join_path (?q @ r), t, w) \<in> ?P" "(?q @ r, td) \<in> set (test_paths G)"
        by blast
      with chain [of "?q @ r" td] have "join_path (g_name G # ?q) \<in> group_chain (g_name G) (join_path (?q @ r))"
        by simp
      with r show "consider_group fl (g_name G # q) (g_name h)"
        unfolding fl_def consider_group_iff [OF some] root by blast
    qed
  qed
  have test: "consider_test fl (g_name G # ?q @ r) t \<longleftrightarrow>
      (\<exists>t' w. (join_path (?q @ r), t', w) \<in> ?P) \<and>
      ((\<forall>t'. (join_path (?q @ r), t', False) \<notin> ?P) \<or> (join_path (?q @ r), t, False) \<in> ?P)" for r t
    unfolding fl_def by (rule consider_test_iff [OF some]) simp
  have below: "(?q @ r, td) \<in> set (test_paths G) \<longleftrightarrow> (r, td) \<in> set (test_paths h)" for r td
    using H by (simp add: subtree_at_def)
  have real_pick: "\<exists>td. (?q @ r, td) \<in> set (test_paths G) \<and> t = t_name td"
    if pick: "(join_path (?q @ r), t, w) \<in> ?P" and r: "\<forall>x \<in> set r. plain x" for r t w
  proof -
    from pick obtain p td where p: "(p, td) \<in> set (test_paths G)" "p \<noteq> []"
      "join_path (?q @ r) = join_path p" "t = t_name td"
      by (auto simp: picks_of_tree [OF G])
    with test_paths_plain [OF G p(1)] plain_q r have "?q @ r = p"
      by (subst (asm) join_path_inject) auto
    with p show ?thesis by blast
  qed
  show ?thesis
  proof
    assume "consider_group fl (g_name G # q) (g_name h)"
    then obtain r t w td where pick: "(join_path (?q @ r), t, w) \<in> ?P"
      and td: "(?q @ r, td) \<in> set (test_paths G)" "t = t_name td"
      unfolding group by blast
    have r: "\<forall>x \<in> set r. plain x" using test_paths_plain [OF G td(1)] by auto
    obtain td' where "(?q @ r, td') \<in> set (test_paths G)" "consider_test fl (g_name G # ?q @ r) (t_name td')"
    proof (cases "\<exists>t'. (join_path (?q @ r), t', False) \<in> ?P")
      case True
      then obtain t' where t': "(join_path (?q @ r), t', False) \<in> ?P" by blast
      from real_pick [OF t' r] obtain td' where
        td': "(?q @ r, td') \<in> set (test_paths G)" "t' = t_name td'" by blast
      have "consider_test fl (g_name G # ?q @ r) (t_name td')"
        unfolding test using t' td' by blast
      with td'(1) show ?thesis by (rule that)
    next
      case False
      have "consider_test fl (g_name G # ?q @ r) (t_name td)"
        unfolding test using pick False by blast
      with td(1) show ?thesis by (rule that)
    qed
    then have "(r, td') \<in> set (test_paths h)" "consider_test fl ((g_name G # q) @ g_name h # r) (t_name td')"
      by (simp_all flip: below)
    then have "set (selected fl (g_name G # q) h) \<noteq> {}"
      unfolding set_selected by blast
    then show "selected fl (g_name G # q) h \<noteq> []" by auto
  next
    assume "selected fl (g_name G # q) h \<noteq> []"
    then obtain r td where td: "(r, td) \<in> set (test_paths h)"
      "consider_test fl (g_name G # ?q @ r) (t_name td)"
      using set_selected [of fl "g_name G # q" h] by (fastforce simp flip: set_empty)
    then obtain t' w where "(join_path (?q @ r), t', w) \<in> ?P"
      unfolding test by blast
    moreover have "\<forall>x \<in> set r. plain x"
      using td(1) below test_paths_plain [OF G, of "?q @ r" td] by auto
    ultimately show "consider_group fl (g_name G # q) (g_name h)"
      unfolding group using real_pick by blast
  qed
qed

lemma consistent_subtree:
  assumes G: "well_named G" and some: "picks fs (test_names G) \<noteq> {}"
  shows "subtree_at G q h \<Longrightarrow> \<forall>x \<in> set q. plain x \<Longrightarrow> well_named h \<Longrightarrow>
    ps @ [g_name h] = g_name G # q \<Longrightarrow>
    consistent (filter_new fs (g_name G) (test_names G)) ps h"
proof (induction h arbitrary: q ps)
  case (Group n f ts gs)
  have "(consider_group (filter_new fs (g_name G) (test_names G)) (ps @ [n]) (g_name g) \<longleftrightarrow>
       selected (filter_new fs (g_name G) (test_names G)) (ps @ [n]) g \<noteq> []) \<and>
     consistent (filter_new fs (g_name G) (test_names G)) (ps @ [n]) g" if g: "g \<in> set gs" for g
  proof -
    have sub: "subtree_at G (q @ [g_name g]) g"
      using Group.prems(1,3) g by (rule subtree_at_child)
    have wg: "well_named g" using Group.prems(3) g by simp
    have ps: "ps @ [n] = g_name G # q" using Group.prems(4) by simp
    have "consistent (filter_new fs (g_name G) (test_names G)) (ps @ [n]) g"
      using sub Group.prems(2) wg well_named_name [OF wg] ps
      by (intro Group.IH [OF g, of "q @ [g_name g]"]) auto
    with consider_group_selected [OF G some sub Group.prems(2) wg] ps show ?thesis by simp
  qed
  then show ?case by simp
qed

lemma consistent_filter_new:
  assumes "well_named G" and "picks fs (test_names G) \<noteq> {} \<or> no_empty_group G"
  shows "consistent (filter_new fs (g_name G) (test_names G)) [] G"
proof (cases "picks fs (test_names G) = {}")
  case True
  with assms(2) show ?thesis
    by (simp add: filter_new_no_picks consistent_filter_empty)
next
  case False
  then show ?thesis
    using assms(1) by (intro consistent_subtree [of G fs "[]" G "[]"]) (auto simp: subtree_at_def)
qed

end
