(* ===== verification/Traces.thy ===== *)
theory Traces
  imports Runner Selection_Tree
begin

text \<open>
  The abstract specification of a run: the language of the logs that the run of a tree of groups
  may leave.  The words of one test say which events it records and in which order; the trace of
  a group is that of its setup, its subgroups one after the other, an interleaving of the words
  of its concurrent tests, the words of its other tests one after the other, and its teardown.
\<close>

section \<open>Interleavings\<close>

inductive interleave :: "'a list list \<Rightarrow> 'a list \<Rightarrow> bool" where
  stop: "\<forall>xs \<in> set xss. xs = [] \<Longrightarrow> interleave xss []"
| take: "i < length xss \<Longrightarrow> xss ! i = x # xs \<Longrightarrow> interleave (xss[i := xs]) zs \<Longrightarrow>
     interleave xss (x # zs)"

lemma interleave_prepend:
  "i < length xss \<Longrightarrow> interleave xss zs \<Longrightarrow> interleave (xss[i := ws @ xss ! i]) (ws @ zs)"
proof (induction ws)
  case (Cons w ws)
  have "(xss[i := (w # ws) @ xss ! i]) ! i = w # (ws @ xss ! i)"
    using Cons.prems by simp
  moreover have "interleave (xss[i := (w # ws) @ xss ! i, i := ws @ xss ! i]) (ws @ zs)"
    using Cons by simp
  ultimately show ?case
    using Cons.prems by (simp only: append_Cons) (rule interleave.take [of i], auto)
qed (simp)

lemma interleave_insert_Nil:
  "interleave (xs @ ys) zs \<Longrightarrow> interleave (xs @ [] # ys) zs"
proof (induction "xs @ ys" zs arbitrary: xs ys rule: interleave.induct)
  case stop
  then show ?case by (intro interleave.stop) auto
next
  case (take i x us zs)
  show ?case
  proof (cases "i < length xs")
    case True
    with take(2) have "(xs @ [] # ys) ! i = x # us" by (simp add: nth_append)
    moreover have "interleave ((xs @ [] # ys)[i := us]) zs"
      using take(4) [of "xs[i := us]" ys] True by (simp add: list_update_append)
    ultimately show ?thesis
      using True by (intro interleave.take [of i]) auto
  next
    case False
    define j where "j = i - length xs"
    with False have i: "i = length xs + j" by simp
    with take(1,2) have j: "j < length ys" "ys ! j = x # us" by (auto simp: nth_append)
    have "interleave ((xs @ [] # ys)[length xs + Suc j := us]) zs"
      using take(4) [of xs "ys[j := us]"] i by (simp add: list_update_append)
    with j show ?thesis
      by (intro interleave.take [of "length xs + Suc j"]) (auto simp: nth_append)
  qed
qed

lemma nth_split: "i < length xs \<Longrightarrow> xs ! i = y \<Longrightarrow> \<exists>us vs. xs = us @ y # vs \<and> length us = i"
  by (rule exI [of _ "take i xs"], rule exI [of _ "drop (Suc i) xs"]) (auto simp: id_take_nth_drop)

lemma interleave_total:
  fixes f :: "'a \<Rightarrow> nat"
  shows "interleave xss zs \<Longrightarrow> sum_list (map f zs) = (\<Sum>xs\<leftarrow>xss. sum_list (map f xs))"
proof (induction rule: interleave.induct)
  case (stop xss)
  then show ?case by (induction xss) auto
next
  case (take i xss x xs zs)
  obtain us vs where "xss = us @ (x # xs) # vs" "length us = i"
    using nth_split [OF take(1,2)] by blast
  with take.IH show ?case by (auto simp: list_update_append)
qed

lemma interleave_set: "interleave xss zs \<Longrightarrow> set zs = (\<Union>xs \<in> set xss. set xs)"
proof (induction rule: interleave.induct)
  case (take i xss x xs zs)
  obtain us vs where "xss = us @ (x # xs) # vs" "length us = i"
    using nth_split [OF take(1,2)] by blast
  with take.IH show ?case by (auto simp: list_update_append)
qed auto

section \<open>The words of a test and the traces of a group\<close>

definition at_path :: "string \<Rightarrow> event list \<Rightarrow> event_entry list" where
  "at_path n evs = map (\<lambda>ev. \<lparr>entry_name = n, entry_event = ev\<rparr>) evs"

definition body_event :: "duration \<Rightarrow> test_desc \<Rightarrow> event" where
  "body_event d t = test_event (single (run_body (t_body t) (body_timeout t d)))"

function remaining :: "duration \<Rightarrow> test_desc \<Rightarrow> test_pc \<Rightarrow> event list set" where
  "remaining d t Test_Done = {[]}"
| "remaining d t (Teardown_Ready r) = {[teardown_event r]}"
| "remaining d t Teardown_Pending = {[TeardownPassed], [TeardownFailed]}"
| "remaining d t (Body_Pending a) =
     (\<lambda>ws. body_event d t # TeardownLaunched # ws) ` remaining d t Teardown_Pending"
| "remaining d t (Setup_Ready r) =
     (case r of
        Inr (Some a) \<Rightarrow> (\<lambda>ws. SetupPassed # TestLaunched # ws) ` remaining d t (Body_Pending a)
      | _ \<Rightarrow> (\<lambda>ws. setup_event TaskTest r # TeardownLaunched # ws) ` remaining d t Teardown_Pending)"
| "remaining d t Setup_Pending = (\<Union>r. remaining d t (Setup_Ready r))"
| "remaining d t Test_Start = (\<lambda>ws. SetupLaunched # ws) ` remaining d t Setup_Pending"
  by pat_completeness auto
termination
  by (relation "measure (\<lambda>(d, t, pc). steps_left pc)") auto

text \<open>The six words of a test: with its fixture, without it, and with a failed one.\<close>

definition test_words :: "duration \<Rightarrow> test_desc \<Rightarrow> event list set" where
  "test_words d t =
     {[SetupLaunched, SetupPassed, TestLaunched, body_event d t, TeardownLaunched, td] | td.
        td \<in> {TeardownPassed, TeardownFailed}} \<union>
     {[SetupLaunched, k, TeardownLaunched, td] | k td.
        k \<in> {SetupSkipped TaskTest, SetupFailed TaskTest} \<and> td \<in> {TeardownPassed, TeardownFailed}}"

lemma remaining_Test_Start: "remaining d t Test_Start = test_words d t"
proof -
  have "remaining d t Setup_Pending =
      remaining d t (Setup_Ready (Inr (Some (Permanent_Arc 0)))) \<union>
      remaining d t (Setup_Ready (Inr None)) \<union> remaining d t (Setup_Ready (Inl ()))" (is "?L = ?R")
  proof
    show "?L \<subseteq> ?R"
    proof
      fix ws assume "ws \<in> ?L"
      then obtain r where "ws \<in> remaining d t (Setup_Ready r)" by auto
      then show "ws \<in> ?R" by (cases r rule: setup_answer) auto
    qed
    show "?R \<subseteq> ?L" unfolding remaining.simps(6) by blast
  qed
  note pending = this
  show ?thesis
    unfolding remaining.simps(7) pending by (auto simp: test_words_def)
qed

inductive group_trace :: "run_context \<Rightarrow> string list \<Rightarrow> group \<Rightarrow> event_entry list \<Rightarrow> bool" where
  not_set_up:
    "k \<in> {SetupSkipped TaskGroup, SetupFailed TaskGroup} \<Longrightarrow> td \<in> {TeardownPassed, TeardownFailed} \<Longrightarrow>
     group_trace ctx ps (Group n f ts gs)
       (at_path (join_path (ps @ [n])) [SetupLaunched, k, TeardownLaunched, td])"
| set_up:
    "ctx' = update_concurrency_enabled (fx_concurrent f) ctx \<Longrightarrow> qs = ps @ [n] \<Longrightarrow>
     chosen = chosen_tests ctx' qs ts \<Longrightarrow>
     list_all2 (group_trace ctx' qs) (filter (\<lambda>g. consider_group (rc_filter ctx') qs (g_name g)) gs) gss \<Longrightarrow>
     list_all2 (\<lambda>t es. \<exists>ws \<in> test_words (rc_default_timeout ctx) t.
       es = at_path (test_path (join_path qs) t) ws) (concurrent_tests ctx' chosen) cs \<Longrightarrow>
     interleave cs es \<Longrightarrow>
     list_all2 (\<lambda>t es. \<exists>ws \<in> test_words (rc_default_timeout ctx) t.
       es = at_path (test_path (join_path qs) t) ws) (sequential_tests ctx' chosen) ss \<Longrightarrow>
     td \<in> {TeardownPassed, TeardownFailed} \<Longrightarrow>
     group_trace ctx ps (Group n f ts gs)
       (at_path (join_path qs) [SetupLaunched, SetupPassed] @ concat gss @ es @ concat ss @
        at_path (join_path qs) [TeardownLaunched, td])"

section \<open>Extending the log\<close>

definition extends :: "world \<Rightarrow> event_entry list \<Rightarrow> world \<Rightarrow> bool" where
  "extends w es w' \<longleftrightarrow> well_recorded (w_stats w') \<and> included (w_stats w') = included (w_stats w) \<and>
     defined (w_stats w') = defined (w_stats w) \<and> events (w_stats w') = events (w_stats w) @ es"

lemma extends_refl: "well_recorded (w_stats w) \<Longrightarrow> extends w [] w"
  by (simp add: extends_def)

lemma extends_trans: "extends w es w1 \<Longrightarrow> extends w1 es' w2 \<Longrightarrow> extends w (es @ es') w2"
  by (simp add: extends_def)

lemma extends_wf: "extends w es w' \<Longrightarrow> well_recorded (w_stats w')"
  by (simp add: extends_def)

lemma extends_included: "extends w es w' \<Longrightarrow> included (w_stats w') = included (w_stats w)"
  by (simp add: extends_def)

text \<open>Changes of the fixtures and the schedule are not seen by the log.\<close>

lemma extends_same_stats [simp]:
  "extends (w\<lparr>w_fx := s\<rparr>) es w' = extends w es w'"
  "extends w es (w'\<lparr>w_fx := s\<rparr>) = extends w es w'"
  "extends (w\<lparr>w_sched := c\<rparr>) es w' = extends w es w'"
  "extends w es (w'\<lparr>w_sched := c\<rparr>) = extends w es w'"
  "extends (drop_arc a w) es w' = extends w es w'"
  "extends w es (drop_arc a w') = extends w es w'"
  by (simp_all add: extends_def drop_arc_def)

lemma record_w_extends:
  assumes "well_recorded (w_stats w)" and "recordable (included (w_stats w)) n ev"
  shows "\<exists>w'. record_w n ev w = Some w' \<and> extends w (at_path n [ev]) w' \<and>
    w_fx w' = w_fx w \<and> w_sched w' = w_sched w"
proof -
  obtain s where "record_event n ev (w_stats w) = Some s" "well_recorded s"
    "included s = included (w_stats w)"
    "events s = events (w_stats w) @ [\<lparr>entry_name = n, entry_event = ev\<rparr>]"
    using slog.put_known [OF assms] by blast
  moreover from this have "defined s = defined (w_stats w)"
    using assms(2) by (cases ev) (auto simp: record_event_def push_event_def recordable_def split: if_splits)
  ultimately show ?thesis
    by (auto simp: record_w_def extends_def at_path_def)
qed

end
