(* ===== verification/Runner_Log.thy ===== *)
theory Runner_Log
  imports Traces
begin

text \<open>
  The runner implements the specification of \<open>Traces\<close>: under every schedule the run of a group
  whose chosen tests are included records one of its traces, and no assertion of \<open>record\<close> fails.
\<close>

section \<open>Tasks\<close>

definition known :: "string \<Rightarrow> world \<Rightarrow> bool" where
  "known n w \<longleftrightarrow> (\<exists>i \<in> included (w_stats w). below n i)"

lemma known_extends: "extends w es w' \<Longrightarrow> known n w' = known n w"
  by (simp add: known_def extends_def)

lemma known_included: "n \<in> included (w_stats w) \<Longrightarrow> known n w"
  unfolding known_def by (rule bexI [of _ n]) simp_all

lemma spawn_same_stats [simp]:
  "spawn_setup f b wait w = (r, w') \<Longrightarrow> extends v es w' = extends v es w"
  "spawn_teardown b wait w = (r', w') \<Longrightarrow> extends v es w' = extends v es w"
  by (auto simp: spawn_setup_def spawn_teardown_def split: prod.splits)

lemma at_path_append: "at_path n (xs @ ys) = at_path n xs @ at_path n ys"
  by (simp add: at_path_def)

lemma at_path_Cons: "at_path n (x # ys) = at_path n [x] @ at_path n ys"
  by (simp add: at_path_def)

lemma at_path_Nil [simp]: "at_path n [] = []"
  by (simp add: at_path_def)

lemma record_fixture_event:
  assumes "extends v es w" and "known n v" and "\<not> is_test_event ev" "\<not> is_selection_event ev"
  obtains w' where "record_w n ev w = Some w'" "extends v (es @ at_path n [ev]) w'" "w_fx w' = w_fx w"
proof -
  have "recordable (included (w_stats w)) n ev"
    using assms by (auto simp: recordable_def known_def extends_included)
  from record_w_extends [OF extends_wf [OF assms(1)] this] assms(1) that show ?thesis
    by (blast intro: extends_trans)
qed

lemma record_test_event:
  assumes "extends v es w" and "n \<in> included (w_stats v)" and "is_test_event ev"
  obtains w' where "record_w n ev w = Some w'" "extends v (es @ at_path n [ev]) w'" "w_fx w' = w_fx w"
proof -
  have "recordable (included (w_stats w)) n ev"
    using assms by (cases ev) (auto simp: recordable_def extends_included)
  from record_w_extends [OF extends_wf [OF assms(1)] this] assms(1) that show ?thesis
    by (blast intro: extends_trans)
qed

lemma setup_event_kind [simp]:
  "\<not> is_test_event (setup_event k r)" "\<not> is_selection_event (setup_event k r)"
  "\<not> is_test_event (teardown_event r')" "\<not> is_selection_event (teardown_event r')"
  "is_test_event (test_event r')"
  by (cases r rule: setup_answer; simp)+ (cases r'; simp)+

lemma task_setup_extends:
  assumes "extends v es w" and "known n v"
  obtains r w' where "task_setup n k f b w = Some (r, w')"
    "extends v (es @ at_path n [SetupLaunched, setup_event k r]) w'"
proof -
  obtain w1 where w1: "record_w n SetupLaunched w = Some w1" "extends v (es @ at_path n [SetupLaunched]) w1"
    by (rule record_fixture_event [OF assms, of SetupLaunched]) auto
  obtain r w2 where s: "spawn_setup f b 0 w1 = (r, w2)" by fastforce
  obtain w3 where "record_w n (setup_event k r) w2 = Some w3"
    "extends v ((es @ at_path n [SetupLaunched]) @ at_path n [setup_event k r]) w3"
    by (rule record_fixture_event [of v "es @ at_path n [SetupLaunched]" w2 n "setup_event k r"])
      (use w1 s assms(2) in auto)
  with w1 s show ?thesis
    by (intro that [of r w3]) (auto simp: task_setup_def at_path_def)
qed

lemma task_teardown_extends:
  assumes "extends v es w" and "known n v"
  obtains td w' where "task_teardown n b w = Some w'" "td \<in> {TeardownPassed, TeardownFailed}"
    "extends v (es @ at_path n [TeardownLaunched, td]) w'"
proof -
  obtain w1 where w1: "record_w n TeardownLaunched w = Some w1"
    "extends v (es @ at_path n [TeardownLaunched]) w1"
    by (rule record_fixture_event [OF assms, of TeardownLaunched]) auto
  obtain r w2 where s: "spawn_teardown b 0 w1 = (r, w2)" by fastforce
  obtain w3 where "record_w n (teardown_event r) w2 = Some w3"
    "extends v ((es @ at_path n [TeardownLaunched]) @ at_path n [teardown_event r]) w3"
    by (rule record_fixture_event [of v "es @ at_path n [TeardownLaunched]" w2 n "teardown_event r"])
      (use w1 s assms(2) in auto)
  with w1 s show ?thesis
    by (intro that [of w3 "teardown_event r"])
      (cases r; auto simp: task_teardown_def at_path_def)+
qed

lemma task_test_extends:
  assumes "extends v es w" and "n \<in> included (w_stats v)"
  obtains w' where "task_test n body b w = Some w'"
    "extends v (es @ at_path n [TestLaunched, test_event (single (run_body body b))]) w'"
proof -
  obtain w1 where w1: "record_w n TestLaunched w = Some w1" "extends v (es @ at_path n [TestLaunched]) w1"
    by (rule record_test_event [OF assms, of TestLaunched]) auto
  obtain w2 where w2: "record_w n (test_event (single (run_body body b))) w1 = Some w2"
    "extends v ((es @ at_path n [TestLaunched]) @ at_path n [test_event (single (run_body body b))]) w2"
    by (rule record_test_event [OF w1(2) assms(2), of "test_event (single (run_body body b))"]) auto
  with w1 show ?thesis
    by (intro that [of w2]) (auto simp: task_test_def at_path_def Let_def)
qed

section \<open>Steps of a test\<close>

lemma test_step_extends:
  assumes v: "extends v es w" and n: "test_path gn t \<in> included (w_stats v)"
  obtains pc' w' ws where "test_step d gn t wait pc w = Some (pc', w')"
    "extends v (es @ at_path (test_path gn t) ws) w'"
    "\<forall>us \<in> remaining d t pc'. ws @ us \<in> remaining d t pc"
proof -
  let ?n = "test_path gn t"
  note k = known_included [OF n]
  show ?thesis
  proof (cases pc)
    case Test_Start
    obtain w1 where "record_w ?n SetupLaunched w = Some w1" "extends v (es @ at_path ?n [SetupLaunched]) w1"
      by (rule record_fixture_event [OF v k, of SetupLaunched]) auto
    with Test_Start show ?thesis by (intro that [of Setup_Pending w1 "[SetupLaunched]"]) auto
  next
    case Setup_Pending
    obtain r w1 where "spawn_setup (t_fixture t) (setup_timeout (t_fixture t) d) wait w = (r, w1)"
      by fastforce
    with Setup_Pending v show ?thesis
      by (intro that [of "Setup_Ready r" w1 "[]"]) (auto simp del: remaining.simps(5))
  next
    case (Setup_Ready r)
    obtain w1 where w1: "record_w ?n (setup_event TaskTest r) w = Some w1"
      "extends v (es @ at_path ?n [setup_event TaskTest r]) w1"
      by (rule record_fixture_event [OF v k, of "setup_event TaskTest r"]) auto
    obtain w2 where w2: "record_w ?n TestLaunched w1 = Some w2"
      "extends v ((es @ at_path ?n [setup_event TaskTest r]) @ at_path ?n [TestLaunched]) w2"
      by (rule record_test_event [OF w1(2) n, of TestLaunched]) auto
    obtain w3 where w3: "record_w ?n TeardownLaunched w1 = Some w3"
      "extends v ((es @ at_path ?n [setup_event TaskTest r]) @ at_path ?n [TeardownLaunched]) w3"
      by (rule record_fixture_event [OF w1(2) k, of TeardownLaunched]) auto
    show ?thesis
    proof (cases r rule: setup_answer)
      case (passed a)
      with Setup_Ready w1 w2 show ?thesis
        by (intro that [of "Body_Pending a" w2 "[SetupPassed, TestLaunched]"]) (auto simp: at_path_def)
    next
      case skipped
      with Setup_Ready w1 w3 show ?thesis
        by (intro that [of Teardown_Pending w3 "[SetupSkipped TaskTest, TeardownLaunched]"])
          (auto simp: at_path_def)
    next
      case failed
      with Setup_Ready w1 w3 show ?thesis
        by (intro that [of Teardown_Pending w3 "[SetupFailed TaskTest, TeardownLaunched]"])
          (auto simp: at_path_def)
    qed
  next
    case (Body_Pending a)
    obtain w1 where w1: "record_w ?n (body_event d t) w = Some w1"
      "extends v (es @ at_path ?n [body_event d t]) w1"
      by (rule record_test_event [OF v n, of "body_event d t"]) (auto simp: body_event_def)
    obtain w2 where "record_w ?n TeardownLaunched (drop_arc a w1) = Some w2"
      "extends v ((es @ at_path ?n [body_event d t]) @ at_path ?n [TeardownLaunched]) w2"
      by (rule record_fixture_event [of v "es @ at_path ?n [body_event d t]" "drop_arc a w1" ?n TeardownLaunched])
        (use w1 k in auto)
    with Body_Pending w1 show ?thesis
      by (intro that [of Teardown_Pending w2 "[body_event d t, TeardownLaunched]"])
        (auto simp: at_path_def body_event_def)
  next
    case Teardown_Pending
    obtain r w1 where "spawn_teardown (teardown_timeout (t_fixture t) d) wait w = (r, w1)"
      by fastforce
    with Teardown_Pending v show ?thesis
      by (intro that [of "Teardown_Ready r" w1 "[]"]) (cases r; auto)+
  next
    case (Teardown_Ready r)
    obtain w1 where "record_w ?n (teardown_event r) w = Some w1" "extends v (es @ at_path ?n [teardown_event r]) w1"
      by (rule record_fixture_event [OF v k, of "teardown_event r"]) auto
    with Teardown_Ready show ?thesis by (intro that [of Test_Done w1 "[teardown_event r]"]) auto
  next
    case Test_Done
    with v show ?thesis by (intro that [of Test_Done w "[]"]) auto
  qed
qed

section \<open>Many tests\<close>

definition test_log :: "duration \<Rightarrow> string \<Rightarrow> test_desc \<Rightarrow> event_entry list \<Rightarrow> bool" where
  "test_log d gn t es \<longleftrightarrow> (\<exists>ws \<in> test_words d t. es = at_path (test_path gn t) ws)"

lemma test_log_words:
  "td \<in> {TeardownPassed, TeardownFailed} \<Longrightarrow> test_log d gn t (at_path (test_path gn t)
     [SetupLaunched, SetupPassed, TestLaunched, body_event d t, TeardownLaunched, td])"
  "k \<in> {SetupSkipped TaskTest, SetupFailed TaskTest} \<Longrightarrow> td \<in> {TeardownPassed, TeardownFailed} \<Longrightarrow>
     test_log d gn t (at_path (test_path gn t) [SetupLaunched, k, TeardownLaunched, td])"
  unfolding test_log_def test_words_def by blast+

lemma run_test_extends:
  assumes v: "extends v es w" and n: "test_path gn t \<in> included (w_stats v)"
  obtains w' zs where "run_test d gn t w = Some w'" "extends v (es @ zs) w'" "test_log d gn t zs"
proof -
  let ?n = "test_path gn t"
  note k = known_included [OF n]
  obtain r w1 where w1:
    "task_setup ?n TaskTest (t_fixture t) (setup_timeout (t_fixture t) d) w = Some (r, w1)"
    "extends v (es @ at_path ?n [SetupLaunched, setup_event TaskTest r]) w1"
    by (rule task_setup_extends [OF v k])
  show ?thesis
  proof (cases "\<exists>a. r = Inr (Some a)")
    case True
    then obtain a where a: "r = Inr (Some a)" by blast
    obtain w2 where w2: "task_test ?n (t_body t) (body_timeout t d) w1 = Some w2"
      "extends v ((es @ at_path ?n [SetupLaunched, setup_event TaskTest r]) @
        at_path ?n [TestLaunched, body_event d t]) w2"
      using task_test_extends [OF w1(2) n] by (metis body_event_def)
    then have w2': "extends v ((es @ at_path ?n [SetupLaunched, setup_event TaskTest r]) @
        at_path ?n [TestLaunched, body_event d t]) (drop_arc a w2)" by simp
    obtain td w3 where "task_teardown ?n (teardown_timeout (t_fixture t) d) (drop_arc a w2) = Some w3"
      and td: "td \<in> {TeardownPassed, TeardownFailed}"
      and w3: "extends v (((es @ at_path ?n [SetupLaunched, setup_event TaskTest r]) @
        at_path ?n [TestLaunched, body_event d t]) @ at_path ?n [TeardownLaunched, td]) w3"
      by (rule task_teardown_extends [OF w2'  k])
    moreover have "run_test d gn t w = Some w3"
      using w1 w2 calculation(1) a by (simp add: run_test_def Let_def)
    moreover have "extends v (es @ at_path ?n [SetupLaunched, SetupPassed, TestLaunched,
        body_event d t, TeardownLaunched, td]) w3"
      using w3 a by (simp add: at_path_def)
    ultimately show ?thesis
      using test_log_words(1) [OF td] by (blast intro: that)
  next
    case False
    then have r: "setup_event TaskTest r \<in> {SetupSkipped TaskTest, SetupFailed TaskTest}"
      by (cases r rule: setup_answer) auto
    obtain td w2 where w2: "task_teardown ?n (teardown_timeout (t_fixture t) d) w1 = Some w2"
      and td: "td \<in> {TeardownPassed, TeardownFailed}"
      and ex: "extends v ((es @ at_path ?n [SetupLaunched, setup_event TaskTest r]) @
        at_path ?n [TeardownLaunched, td]) w2"
      by (rule task_teardown_extends [OF w1(2) k])
    have "run_test d gn t w = Some w2"
      using w1 w2 False by (cases r rule: setup_answer) (simp_all add: run_test_def Let_def)
    moreover have "extends v (es @ at_path ?n [SetupLaunched, setup_event TaskTest r,
        TeardownLaunched, td]) w2"
      using ex by (simp add: at_path_def)
    ultimately show ?thesis
      using test_log_words(2) [OF r td] by (blast intro: that)
  qed
qed

lemma for_each_extends:
  assumes "extends v es w" and "\<forall>t \<in> set ts. test_path gn t \<in> included (w_stats v)"
  shows "\<exists>w' zss. for_each d gn ts w = Some w' \<and> extends v (es @ concat zss) w' \<and>
    list_all2 (test_log d gn) ts zss"
  using assms
proof (induction ts arbitrary: w es)
  case (Cons t ts)
  obtain w1 zs where w1: "run_test d gn t w = Some w1" "extends v (es @ zs) w1" "test_log d gn t zs"
    by (rule run_test_extends [OF Cons.prems(1)]) (use Cons.prems in auto)
  from Cons.IH [OF w1(2)] Cons.prems(2) obtain w' zss where
    "for_each d gn ts w1 = Some w'" "extends v ((es @ zs) @ concat zss) w'"
    "list_all2 (test_log d gn) ts zss" by auto
  with w1 show ?case
    by (intro exI [of _ w'] exI [of _ "zs # zss"]) auto
qed (auto intro: exI [of _ "[]"])

text \<open>What the tests of the window and those that wait may still record.\<close>

definition pool_log :: "duration \<Rightarrow> string \<Rightarrow> test_desc \<times> test_pc \<Rightarrow> event_entry list \<Rightarrow> bool" where
  "pool_log d gn tp es \<longleftrightarrow> (\<exists>ws \<in> remaining d (fst tp) (snd tp). es = at_path (test_path gn (fst tp)) ws)"

lemma pool_log_start: "pool_log d gn (t, Test_Start) = test_log d gn t"
  unfolding pool_log_def test_log_def fst_conv snd_conv remaining_Test_Start ..

lemma draw_fields: "draw w = (c, w') \<Longrightarrow> extends v es w' = extends v es w \<and> w_fx w' = w_fx w"
  by (auto simp: draw_def split: list.splits)

lemma nth_decomp: "i < length xs \<Longrightarrow> \<exists>us vs. xs = us @ xs ! i # vs \<and> length us = i"
  by (rule nth_split) auto

lemma for_each_concurrent_extends:
  assumes "extends v es w"
    and "\<forall>t \<in> set waiting \<union> fst ` set running. test_path gn t \<in> included (w_stats v)"
  shows "\<exists>w' zss zs. for_each_concurrent d limit gn waiting running w = Some w' \<and>
    extends v (es @ zs) w' \<and> interleave zss zs \<and>
    list_all2 (pool_log d gn) (running @ map (\<lambda>t. (t, Test_Start)) waiting) zss"
  using assms
proof (induction d limit gn waiting running w arbitrary: es rule: for_each_concurrent.induct)
  case (1 d limit gn waiting running w)
  obtain c wait w1 where dr: "draw w = ((c, wait), w1)" by (metis surj_pair)
  define i where "i = chosen_move (w_admits w) limit waiting running c"
  have v1: "extends v es w1" using draw_fields [OF dr] "1.prems"(1) by simp
  consider (stop) "waiting = [] \<and> running = []"
    | (advance) "\<not> (waiting = [] \<and> running = [])" "i < length running"
    | (start) "\<not> (waiting = [] \<and> running = [])" "\<not> i < length running" by blast
  then show ?case
  proof cases
    case stop
    then have "for_each_concurrent d limit gn waiting running w = Some w"
      by (simp add: run_simps)
    with stop "1.prems"(1) show ?thesis
      by (intro exI [of _ w] exI [of _ "[]"]) (auto intro: interleave.stop)
  next
    case advance
    obtain t pc where tp: "running ! i = (t, pc)" by (cases "running ! i")
    obtain us vs where sp: "running = us @ (t, pc) # vs" "length us = i"
      using nth_decomp [OF advance(2)] tp by auto
    have n: "test_path gn t \<in> included (w_stats v)" using "1.prems"(2) sp by force
    obtain pc' w2 ws where step: "test_step d gn t wait pc w1 = Some (pc', w2)"
      and ex: "extends v (es @ at_path (test_path gn t) ws) w2"
      and rem: "\<forall>us \<in> remaining d t pc'. ws @ us \<in> remaining d t pc"
      by (rule test_step_extends [OF v1 n, where d = d and wait = wait and pc = pc])
    let ?running = "if pc' = Test_Done then remove_nth i running else running[i := (t, pc')]"
    have same: "for_each_concurrent d limit gn waiting running w =
        for_each_concurrent d limit gn waiting ?running w2"
      by (rule for_each_concurrent_advance [OF dr i_def tp advance(2) step])
    have names: "\<forall>t \<in> set waiting \<union> fst ` set ?running. test_path gn t \<in> included (w_stats v)"
      using "1.prems"(2) sp by (auto simp: remove_nth_def list_update_append)
    obtain w' zss zs where IH: "for_each_concurrent d limit gn waiting ?running w2 = Some w'"
      "extends v ((es @ at_path (test_path gn t) ws) @ zs) w'" "interleave zss zs"
      "list_all2 (pool_log d gn) (?running @ map (\<lambda>t. (t, Test_Start)) waiting) zss"
      using "1.IH"(1) [OF advance(1) dr [symmetric] refl i_def [unfolded chosen_move_def] advance(2),
          of "(pc', w2)" pc' w2, unfolded tp fst_conv snd_conv, OF step refl ex names]
      by blast
    obtain us' z vs' where zss: "interleave (us' @ z # vs') zs" "list_all2 (pool_log d gn) us us'"
      "pool_log d gn (t, pc') z" "list_all2 (pool_log d gn) (vs @ map (\<lambda>t. (t, Test_Start)) waiting) vs'"
    proof (cases "pc' = Test_Done")
      case True
      with IH(4) sp have "list_all2 (pool_log d gn) (us @ (vs @ map (\<lambda>t. (t, Test_Start)) waiting)) zss"
        by (simp add: remove_nth_def)
      then obtain us' vs' where "zss = us' @ vs'" "list_all2 (pool_log d gn) us us'"
        "list_all2 (pool_log d gn) (vs @ map (\<lambda>t. (t, Test_Start)) waiting) vs'"
        unfolding list_all2_append1 by blast
      with True IH(3) show ?thesis
        by (intro that [of us' "[]" vs']) (auto intro: interleave_insert_Nil simp: pool_log_def)
    next
      case False
      with IH(4) sp
      have "list_all2 (pool_log d gn) (us @ (t, pc') # (vs @ map (\<lambda>t. (t, Test_Start)) waiting)) zss"
        by (simp add: list_update_append)
      then obtain us' z vs' where "zss = us' @ z # vs'" "list_all2 (pool_log d gn) us us'"
        "pool_log d gn (t, pc') z" "list_all2 (pool_log d gn) (vs @ map (\<lambda>t. (t, Test_Start)) waiting) vs'"
        unfolding list_all2_append1 list_all2_Cons1 by blast
      with IH(3) show ?thesis by (intro that [of us' z vs']) auto
    qed
    let ?ws = "at_path (test_path gn t) ws"
    have "interleave (us' @ (?ws @ z) # vs') (?ws @ zs)"
      using interleave_prepend [of "length us'" "us' @ z # vs'" zs ?ws] zss(1) by simp
    moreover have "pool_log d gn (t, pc) (?ws @ z)"
      using zss(3) rem by (force simp: pool_log_def simp flip: at_path_append)
    moreover have "list_all2 (pool_log d gn) (running @ map (\<lambda>t. (t, Test_Start)) waiting) (us' @ (?ws @ z) # vs')"
      using zss(2,4) calculation(2) sp by (simp add: list_all2_appendI)
    ultimately show ?thesis
      using same IH(1,2) by (intro exI [of _ w'] exI [of _ "us' @ (?ws @ z) # vs'"] exI [of _ "?ws @ zs"]) auto
  next
    case start
    have ms: "may_start (w_admits w) limit waiting running"
      using start chosen_move_start by (simp add: i_def)
    then obtain t ts where wt: "waiting = t # ts" by (cases waiting) (auto simp: may_start_def)
    have same: "for_each_concurrent d limit gn waiting running w =
        for_each_concurrent d limit gn (tl waiting) (running @ [(hd waiting, Test_Start)]) w1"
      using for_each_concurrent_start [OF start(1) dr] start(2) by (simp add: i_def)
    obtain w' zss zs where
      "for_each_concurrent d limit gn (tl waiting) (running @ [(hd waiting, Test_Start)]) w1 = Some w'"
      "extends v (es @ zs) w'" "interleave zss zs"
      "list_all2 (pool_log d gn)
        ((running @ [(hd waiting, Test_Start)]) @ map (\<lambda>t. (t, Test_Start)) (tl waiting)) zss"
      using "1.IH"(2) [OF start(1) dr [symmetric] refl i_def [unfolded chosen_move_def] start(2) v1] "1.prems"(2) wt by auto
    with same wt show ?thesis by auto
  qed
qed

section \<open>Groups\<close>

lemma update_concurrency_fields [simp]:
  "rc_filter (update_concurrency_enabled b ctx) = rc_filter ctx"
  "rc_default_timeout (update_concurrency_enabled b ctx) = rc_default_timeout ctx"
  "rc_concurrency (update_concurrency_enabled b ctx) = rc_concurrency ctx"
  by (simp_all add: update_concurrency_enabled_def)

lemma below_join: "qs \<noteq> [] \<Longrightarrow> rs \<noteq> [] \<Longrightarrow> below (join_path qs) (join_path (qs @ rs))"
  by (simp add: below_def starts_with_def join_path_append path_cons_def)

lemma selected_below:
  assumes "i \<in> set (selected fl ps g)"
  shows "below (join_path (ps @ [g_name g])) i"
proof -
  obtain p x where i: "i = join_path (ps @ g_name g # p @ [x])"
    using assms unfolding set_selected by blast
  have "below (join_path (ps @ [g_name g])) (join_path ((ps @ [g_name g]) @ (p @ [x])))"
    by (rule below_join) auto
  with i show ?thesis by simp
qed

definition group_ready :: "run_context \<Rightarrow> string list \<Rightarrow> world \<Rightarrow> group \<Rightarrow> bool" where
  "group_ready ctx ps v g \<longleftrightarrow> consistent (rc_filter ctx) ps g \<and> selected (rc_filter ctx) ps g \<noteq> [] \<and>
     set (selected (rc_filter ctx) ps g) \<subseteq> included (w_stats v)"

lemma group_ready_known: "group_ready ctx ps v g \<Longrightarrow> known (join_path (ps @ [g_name g])) v"
proof -
  assume ready: "group_ready ctx ps v g"
  then obtain i where "i \<in> set (selected (rc_filter ctx) ps g)"
    by (metis group_ready_def last_in_set)
  with ready selected_below [OF this] show ?thesis
    unfolding group_ready_def known_def by blast
qed

lemma group_ready_parts:
  assumes "group_ready ctx ps v (Group n f ts gs)"
  defines "ctx' \<equiv> update_concurrency_enabled (fx_concurrent f) ctx"
  shows "\<forall>g \<in> set gs. consider_group (rc_filter ctx) (ps @ [n]) (g_name g) \<longrightarrow> group_ready ctx' (ps @ [n]) v g"
    and "\<forall>t \<in> set (chosen_tests ctx' (ps @ [n]) ts). test_path (join_path (ps @ [n])) t \<in> included (w_stats v)"
  using assms by (auto simp: group_ready_def chosen_tests_def test_path_def)

lemma run_groups_extends:
  assumes "\<And>g es w. g \<in> set gs \<Longrightarrow> extends v es w \<Longrightarrow> group_ready ctx ps v g \<Longrightarrow>
      \<exists>w' zs. run_group ctx ps g w = Some w' \<and> extends v (es @ zs) w' \<and> group_trace ctx ps g zs"
    and "extends v es w"
    and "\<forall>g \<in> set gs. consider_group (rc_filter ctx) ps (g_name g) \<longrightarrow> group_ready ctx ps v g"
  shows "\<exists>w' zss. run_groups ctx ps gs w = Some w' \<and> extends v (es @ concat zss) w' \<and>
    list_all2 (group_trace ctx ps) (filter (\<lambda>g. consider_group (rc_filter ctx) ps (g_name g)) gs) zss"
  using assms
proof (induction gs arbitrary: w es)
  case (Cons g gs)
  show ?case
  proof (cases "consider_group (rc_filter ctx) ps (g_name g)")
    case True
    with Cons.prems(1) [of g es w] Cons.prems(2,3) obtain w1 zs where
      w1: "run_group ctx ps g w = Some w1" "extends v (es @ zs) w1" "group_trace ctx ps g zs" by auto
    from Cons.IH [OF Cons.prems(1) w1(2)] Cons.prems(3) obtain w' zss where
      "run_groups ctx ps gs w1 = Some w'" "extends v ((es @ zs) @ concat zss) w'"
      "list_all2 (group_trace ctx ps) (filter (\<lambda>g. consider_group (rc_filter ctx) ps (g_name g)) gs) zss"
      by auto
    with True w1 show ?thesis
      by (intro exI [of _ w'] exI [of _ "zs # zss"]) auto
  next
    case False
    with Cons.IH [OF Cons.prems(1,2)] Cons.prems(3) show ?thesis by auto
  qed
qed (auto intro: exI [of _ "[]"])

lemma run_group_extends:
  "extends v es w \<Longrightarrow> group_ready ctx ps v g \<Longrightarrow>
     \<exists>w' zs. run_group ctx ps g w = Some w' \<and> extends v (es @ zs) w' \<and> group_trace ctx ps g zs"
proof (induction g arbitrary: ctx ps es w)
  case (Group n f ts gs)
  let ?d = "rc_default_timeout ctx" and ?qs = "ps @ [n]" and ?n = "join_path (ps @ [n])"
  let ?ctx = "update_concurrency_enabled (fx_concurrent f) ctx"
  let ?chosen = "chosen_tests ?ctx ?qs ts"
  have k: "known ?n v" using group_ready_known [OF Group.prems(2)] by simp
  obtain r w1 where w1: "task_setup ?n TaskGroup f (setup_timeout f ?d) w = Some (r, w1)"
    "extends v (es @ at_path ?n [SetupLaunched, setup_event TaskGroup r]) w1"
    by (rule task_setup_extends [OF Group.prems(1) k])
  show ?case
  proof (cases "\<exists>a. r = Inr (Some a)")
    case True
    then obtain a where a: "r = Inr (Some a)" by blast
    obtain w2 gss where w2: "run_groups ?ctx ?qs gs w1 = Some w2"
      "extends v ((es @ at_path ?n [SetupLaunched, setup_event TaskGroup r]) @ concat gss) w2"
      "list_all2 (group_trace ?ctx ?qs) (filter (\<lambda>g. consider_group (rc_filter ?ctx) ?qs (g_name g)) gs) gss"
      using run_groups_extends [of gs v ?ctx ?qs, OF Group.IH w1(2)] group_ready_parts(1) [OF Group.prems(2)]
      by auto
    have names: "\<forall>t \<in> set ?chosen. test_path ?n t \<in> included (w_stats v)"
      by (rule group_ready_parts(2) [OF Group.prems(2)])
    then have "\<forall>t \<in> set (concurrent_tests ?ctx ?chosen) \<union> fst ` set []. test_path ?n t \<in> included (w_stats v)"
      by (auto simp: concurrent_tests_def)
    from for_each_concurrent_extends [OF w2(2) this, of ?d "Some (rc_concurrency ctx)"]
    obtain w3 cs zs where w3:
      "for_each_concurrent ?d (Some (rc_concurrency ctx)) ?n (concurrent_tests ?ctx ?chosen) [] w2 = Some w3"
      "extends v (((es @ at_path ?n [SetupLaunched, setup_event TaskGroup r]) @ concat gss) @ zs) w3"
      "interleave cs zs" "list_all2 (test_log ?d ?n) (concurrent_tests ?ctx ?chosen) cs"
      by (auto simp: list_all2_map1 pool_log_start)
    have "\<forall>t \<in> set (sequential_tests ?ctx ?chosen). test_path ?n t \<in> included (w_stats v)"
      using names by (auto simp: sequential_tests_def)
    from for_each_extends [OF w3(2) this, of ?d] obtain w4 ss where w4:
      "for_each ?d ?n (sequential_tests ?ctx ?chosen) w3 = Some w4"
      "extends v ((((es @ at_path ?n [SetupLaunched, setup_event TaskGroup r]) @ concat gss) @ zs) @ concat ss) w4"
      "list_all2 (test_log ?d ?n) (sequential_tests ?ctx ?chosen) ss"
      by blast
    from w4(2) have w4': "extends v ((((es @ at_path ?n [SetupLaunched, setup_event TaskGroup r]) @
        concat gss) @ zs) @ concat ss) (drop_arc a w4)" by simp
    obtain td w5 where w5: "task_teardown ?n (teardown_timeout f ?d) (drop_arc a w4) = Some w5"
      and td: "td \<in> {TeardownPassed, TeardownFailed}"
      and ex: "extends v (((((es @ at_path ?n [SetupLaunched, setup_event TaskGroup r]) @
        concat gss) @ zs) @ concat ss) @ at_path ?n [TeardownLaunched, td]) w5"
      by (rule task_teardown_extends [OF w4' k])
    have run: "run_group ctx ps (Group n f ts gs) w = Some w5"
      using w1(1) w2(1) w3(1) w4(1) w5 a by (simp add: Let_def)
    have "group_trace ctx ps (Group n f ts gs) (at_path ?n [SetupLaunched, SetupPassed] @ concat gss @ zs @
        concat ss @ at_path ?n [TeardownLaunched, td])"
      by (rule group_trace.set_up [OF refl refl refl w2(3) _ w3(3) _ td])
        (use w3(4) w4(3) in \<open>simp_all add: test_log_def [abs_def]\<close>)
    with run ex a show ?thesis by auto
  next
    case False
    then have kind: "setup_event TaskGroup r \<in> {SetupSkipped TaskGroup, SetupFailed TaskGroup}"
      by (cases r rule: setup_answer) auto
    obtain td w2 where w2: "task_teardown ?n (teardown_timeout f ?d) w1 = Some w2"
      and td: "td \<in> {TeardownPassed, TeardownFailed}"
      and ex: "extends v ((es @ at_path ?n [SetupLaunched, setup_event TaskGroup r]) @
        at_path ?n [TeardownLaunched, td]) w2"
      by (rule task_teardown_extends [OF w1(2) k])
    have "run_group ctx ps (Group n f ts gs) w = Some w2"
      using w1 w2 False by (cases r rule: setup_answer) (simp_all add: Let_def)
    moreover have "extends v (es @ at_path ?n [SetupLaunched, setup_event TaskGroup r, TeardownLaunched, td]) w2"
      using ex by (simp add: at_path_def)
    ultimately show ?thesis
      using group_trace.not_set_up [OF kind td] by blast
  qed
qed

end
