(* ===== verification/Run_Selection.thy ===== *)
theory Run_Selection
  imports Runner_Log
begin

text \<open>
  The loop over all names at the start of \<open>run\<close>, and the run as a whole: what is defined, what is
  included, and that the log is a trace of the root group.
\<close>

section \<open>Defined and included tests\<close>

definition name_chosen :: "run_context \<Rightarrow> string \<Rightarrow> string \<Rightarrow> bool" where
  "name_chosen ctx gn name \<longleftrightarrow>
     consider_test (rc_filter ctx) (gn # butlast (split_path name)) (last (split_path name))"

lemma select_tests_eq:
  assumes "well_recorded (w_stats w)"
  shows "select_tests ctx gn names none w =
    Some (none \<and> \<not> list_ex (name_chosen ctx gn) names,
      w\<lparr>w_stats := (w_stats w)\<lparr>
        defined := defined (w_stats w) \<union> path_cons gn ` set names,
        included := included (w_stats w) \<union> path_cons gn ` {n \<in> set names. name_chosen ctx gn n}\<rparr>\<rparr>)"
  using assms
proof (induction names arbitrary: none w)
  case Nil
  have "w_stats w = (w_stats w)\<lparr>defined := defined (w_stats w), included := included (w_stats w)\<rparr>" by simp
  then show ?case by simp
next
  case (Cons n names)
  let ?s = "w_stats w"
  let ?w1 = "w\<lparr>w_stats := ?s\<lparr>defined := insert (path_cons gn n) (defined ?s)\<rparr>\<rparr>"
  have r1: "record_w (path_cons gn n) TestDefined w = Some ?w1"
    by (simp add: record_w_def record_event_defined)
  have wf1: "well_recorded (w_stats ?w1)"
    using Cons.prems by (auto simp: well_recorded_def)
  show ?case
  proof (cases "name_chosen ctx gn n")
    case True
    let ?w2 = "?w1\<lparr>w_stats := (w_stats ?w1)\<lparr>included := insert (path_cons gn n) (included ?s)\<rparr>\<rparr>"
    have r2: "record_w (path_cons gn n) TestIncluded ?w1 = Some ?w2"
      by (simp add: record_w_def record_event_included)
    have "well_recorded (w_stats ?w2)"
      using Cons.prems by (auto simp: well_recorded_def recordable_insert)
    note IH = Cons.IH [OF this, of False]
    have "{m \<in> set (n # names). name_chosen ctx gn m} = insert n {m \<in> set names. name_chosen ctx gn m}"
      using True by auto
    with IH True r1 r2 show ?thesis
      by (simp add: name_chosen_def [symmetric] del: Collect_conj_eq)
  next
    case False
    note IH = Cons.IH [OF wf1, of none]
    have "{m \<in> set (n # names). name_chosen ctx gn m} = {m \<in> set names. name_chosen ctx gn m}"
      using False by auto
    with IH False r1 show ?thesis
      by (simp add: name_chosen_def [symmetric] del: Collect_conj_eq)
  qed
qed

lemma chosen_names:
  assumes "well_named G"
  shows "path_cons (g_name G) ` {n \<in> set (test_names G). name_chosen ctx (g_name G) n} =
    set (selected (rc_filter ctx) [] G)"
proof -
  have split: "split_path (join_path (p @ [t_name t])) = p @ [t_name t]"
    if "(p, t) \<in> set (test_paths G)" for p t
    using test_paths_plain [OF assms that] by (intro split_join) auto
  have path: "path_cons (g_name G) (join_path (p @ [x])) = join_path (g_name G # p @ [x])" for p x
    by (simp add: join_path_Cons)
  have names: "set (test_names G) = {join_path (p @ [t_name t]) | p t. (p, t) \<in> set (test_paths G)}"
    by (force simp: test_names_paths)
  have "{n \<in> set (test_names G). name_chosen ctx (g_name G) n} =
      {join_path (p @ [t_name t]) | p t. (p, t) \<in> set (test_paths G) \<and>
        consider_test (rc_filter ctx) (g_name G # p) (t_name t)}"
    unfolding names name_chosen_def using split by fastforce
  moreover have "path_cons (g_name G) ` {join_path (p @ [t_name t]) | p t. P p t} =
      {join_path (g_name G # p @ [t_name t]) | p t. P p t}" for P
    unfolding path [symmetric] by blast
  ultimately show ?thesis
    unfolding set_selected by simp
qed

section \<open>The run\<close>

definition all_names :: "group \<Rightarrow> string set" where
  "all_names G = path_cons (g_name G) ` set (test_names G)"

text \<open>The selection records all names and includes the chosen tests.\<close>

lemma select_tests_selected:
  fixes ctx :: run_context
  assumes "well_named G" and "w_stats w = inner_new"
  defines "sel \<equiv> selected (rc_filter ctx) [] G"
  defines "v \<equiv> w\<lparr>w_stats := \<lparr>defined = all_names G, included = set sel, events = []\<rparr>\<rparr>"
  shows "select_tests ctx (g_name G) (test_names G) True w = Some (sel = [], v)" and "well_recorded (w_stats v)"
proof -
  have "well_recorded (w_stats w)" using assms(2) well_recorded_new by simp
  then have "select_tests ctx (g_name G) (test_names G) True w =
      Some (\<not> list_ex (name_chosen ctx (g_name G)) (test_names G), v)"
    using assms(2) chosen_names [OF assms(1), of ctx]
    by (simp add: select_tests_eq v_def sel_def inner_new_def all_names_def)
  moreover have "\<not> list_ex (name_chosen ctx (g_name G)) (test_names G) \<longleftrightarrow> sel = []"
  proof -
    have "\<not> list_ex (name_chosen ctx (g_name G)) (test_names G) \<longleftrightarrow>
        {n \<in> set (test_names G). name_chosen ctx (g_name G) n} = {}"
      by (auto simp: list_ex_iff)
    then show ?thesis
      unfolding sel_def set_empty [symmetric] chosen_names [OF assms(1), of ctx, symmetric] image_is_empty .
  qed
  ultimately show "select_tests ctx (g_name G) (test_names G) True w = Some (sel = [], v)"
    by (simp only:)
  have "set sel \<subseteq> all_names G"
    unfolding sel_def all_names_def chosen_names [OF assms(1), symmetric] by auto
  then show "well_recorded (w_stats v)"
    by (simp add: v_def well_recorded_def all_names_def)
qed

lemma run_world_trace:
  assumes "well_named G" and "consistent (rc_filter ctx) [] G" and "w_stats w = inner_new"
  shows "\<exists>w'. run_world ctx G w = Some w' \<and> well_recorded (w_stats w') \<and>
    defined (w_stats w') = all_names G \<and>
    included (w_stats w') = set (selected (rc_filter ctx) [] G) \<and>
    (if selected (rc_filter ctx) [] G = [] then events (w_stats w') = []
     else group_trace ctx [] G (events (w_stats w')))"
proof -
  let ?sel = "selected (rc_filter ctx) [] G"
  let ?v = "w\<lparr>w_stats := \<lparr>defined = all_names G, included = set ?sel, events = []\<rparr>\<rparr>"
  note sel = select_tests_selected [OF assms(1,3), of ctx]
  show ?thesis
  proof (cases "?sel = []")
    case True
    with sel show ?thesis by (simp add: run_world_def)
  next
    case False
    with assms(2) have "group_ready ctx [] ?v G"
      by (simp add: group_ready_def)
    from run_group_extends [OF extends_refl [OF sel(2)] this] obtain w' zs where
      "run_group ctx [] G ?v = Some w'" "extends ?v zs w'" "group_trace ctx [] G zs" by auto
    with False sel(1) show ?thesis
      by (auto simp: run_world_def extends_def)
  qed
qed

lemma run_ctx_fields [simp]:
  "rc_filter (run_ctx fl d c) = fl" "rc_default_timeout (run_ctx fl d c) = d"
  "rc_concurrency (run_ctx fl d c) = (if c = 0 then 1 else c)"
  "rc_concurrency_enabled (run_ctx fl d c)"
  by (simp_all add: run_ctx_def with_concurrency_def with_default_timeout_def with_filter_def
      run_context_new_def)

lemma run_trace:
  assumes "well_named G" and "consistent fl [] G"
  shows "\<exists>w. run s G fl d c sched h = (Some (w, run_report (w_stats w)), Default_Hook) \<and>
    well_recorded (w_stats w) \<and> defined (w_stats w) = all_names G \<and>
    included (w_stats w) = set (selected fl [] G) \<and>
    (if selected fl [] G = [] then events (w_stats w) = []
     else group_trace (run_ctx fl d c) [] G (events (w_stats w)))"
  using run_world_trace [OF assms(1), of "run_ctx fl d c" "run_start s sched"] assms(2)
  by (auto simp: run_def run_start_def clear_panic_hook_def take_hook_def setup_panic_hook_def)

end
