(* ===== verification/Conservation.thy ===== *)
theory Conservation
  imports Run_Selection
begin

text \<open>
  Every included test is accounted for.  The traces of a group are weighed by the number of tests
  an entry of the log speaks for: one for an entry of a test, all the included tests below the
  group for the skipped or failed setup of a group.
\<close>

section \<open>The chosen tests of a subtree, once more\<close>

lemma selected_test_paths:
  "selected fl ps g = map (\<lambda>(p, t). join_path (ps @ g_name g # p @ [t_name t]))
     (filter (\<lambda>(p, t). consider_test fl (ps @ g_name g # p) (t_name t)) (test_paths g))"
proof (induction g arbitrary: ps)
  case (Group n f ts gs)
  have own: "path_cons (join_path (ps @ [n])) x = join_path (ps @ n # [] @ [x])" for x
    by (simp add: join_path_snoc [of "ps @ [n]", simplified])
  have "concat (map (selected fl (ps @ [n])) gs) =
      concat (map (\<lambda>g. map (\<lambda>(p, t). join_path (ps @ n # p @ [t_name t]))
        (filter (\<lambda>(p, t). consider_test fl (ps @ n # p) (t_name t))
          (map (\<lambda>(p, t). (g_name g # p, t)) (test_paths g)))) gs)"
    using Group.IH [of _ "ps @ [n]"]
    by (auto intro!: arg_cong [of _ _ concat] map_cong simp: filter_map comp_def case_prod_unfold)
  then show ?case
    by (simp add: own filter_concat map_concat comp_def filter_map)
qed

lemma distinct_concat_tagged:
  assumes "distinct (map k xs)" and "\<And>x. x \<in> set xs \<Longrightarrow> distinct (f x)"
    and "\<And>x y. x \<in> set xs \<Longrightarrow> y \<in> set (f x) \<Longrightarrow> tag y = k x"
  shows "distinct (concat (map f xs))"
  using assms
proof (induction xs)
  case (Cons x xs)
  have "z \<notin> set (f y)" if "z \<in> set (f x)" "y \<in> set xs" for y z
  proof
    assume "z \<in> set (f y)"
    with that Cons.prems(3) have "tag z = k x" "tag z = k y" by auto
    with that(2) Cons.prems(1) show False by (metis distinct.simps(2) image_eqI list.simps(9) set_map)
  qed
  with Cons show ?case by auto
qed simp

lemma distinct_test_paths: "well_named g \<Longrightarrow> distinct (map (\<lambda>(p, t). p @ [t_name t]) (test_paths g))"
proof (induction g)
  case (Group n f ts gs)
  have "distinct (concat (map (\<lambda>g. map (\<lambda>(p, t). g_name g # p @ [t_name t]) (test_paths g)) gs))"
  proof (rule distinct_concat_tagged [of g_name _ _ hd])
    fix g assume "g \<in> set gs"
    with Group have "distinct (map (\<lambda>(p, t). p @ [t_name t]) (test_paths g))" by auto
    then have "distinct (map ((#) (g_name g)) (map (\<lambda>(p, t). p @ [t_name t]) (test_paths g)))"
      by (simp only: distinct_map inj_on_def) simp
    then show "distinct (map (\<lambda>(p, t). g_name g # p @ [t_name t]) (test_paths g))"
      by (simp add: comp_def case_prod_unfold)
  qed (use Group.prems in auto)
  moreover have "distinct (map (\<lambda>t. [t_name t]) ts)"
    using Group.prems by (auto simp: distinct_map inj_on_def)
  ultimately show ?case
    by (auto simp: map_concat comp_def case_prod_unfold)
qed

lemma distinct_selected:
  assumes "well_named g" and "\<forall>x \<in> set ps. plain x"
  shows "distinct (selected fl ps g)"
proof -
  have inj: "inj_on join_path ((\<lambda>(p, t). ps @ g_name g # p @ [t_name t]) ` set (test_paths g))"
  proof (rule inj_onI)
    fix x y assume "x \<in> (\<lambda>(p, t). ps @ g_name g # p @ [t_name t]) ` set (test_paths g)"
      and "y \<in> (\<lambda>(p, t). ps @ g_name g # p @ [t_name t]) ` set (test_paths g)" and "join_path x = join_path y"
    moreover from this have "x \<noteq> []" "y \<noteq> []" "\<forall>z \<in> set x. plain z" "\<forall>z \<in> set y. plain z"
      using assms(2) well_named_name [OF assms(1)] test_paths_plain [OF assms(1)] by auto
    ultimately show "x = y" using join_path_inject by blast
  qed
  have "distinct (map (\<lambda>xs. ps @ g_name g # xs) (map (\<lambda>(p, t). p @ [t_name t]) (test_paths g)))"
    using distinct_test_paths [OF assms(1)] by (simp only: distinct_map inj_on_def) simp
  then have "distinct (map (\<lambda>(p, t). ps @ g_name g # p @ [t_name t]) (test_paths g))"
    by (simp add: comp_def case_prod_unfold)
  with inj have "distinct (map join_path (map (\<lambda>(p, t). ps @ g_name g # p @ [t_name t]) (test_paths g)))"
    by (simp only: distinct_map [of join_path] set_map)
  then have "distinct (map (\<lambda>(p, t). join_path (ps @ g_name g # p @ [t_name t])) (test_paths g))"
    by (simp add: comp_def case_prod_unfold)
  then show ?thesis
    unfolding selected_test_paths by (rule distinct_map_filter)
qed

definition agrees :: "string set \<Rightarrow> test_filter \<Rightarrow> string list \<Rightarrow> group \<Rightarrow> bool" where
  "agrees inc fl ps g \<longleftrightarrow> {i \<in> inc. below (join_path (ps @ [g_name g])) i} = set (selected fl ps g)"

lemma below_trans_join: "below (join_path (qs @ rs)) i \<Longrightarrow> qs \<noteq> [] \<Longrightarrow> below (join_path qs) i"
proof -
  assume b: "below (join_path (qs @ rs)) i" and "qs \<noteq> []"
  then show ?thesis
    by (cases "rs = []") (auto simp: below_def starts_with_def join_path_append path_cons_def prefix_def)
qed

lemma below_selected_child:
  assumes wn: "well_named (Group n f ts gs)" and ps: "\<forall>x \<in> set ps. plain x" and g: "g \<in> set gs"
  shows "{i \<in> set (selected fl ps (Group n f ts gs)). below (join_path ((ps @ [n]) @ [g_name g])) i} =
    set (selected fl (ps @ [n]) g)"
proof
  show "set (selected fl (ps @ [n]) g) \<subseteq>
      {i \<in> set (selected fl ps (Group n f ts gs)). below (join_path ((ps @ [n]) @ [g_name g])) i}"
    using selected_below [of _ fl "ps @ [n]" g] g by auto
  show "{i \<in> set (selected fl ps (Group n f ts gs)). below (join_path ((ps @ [n]) @ [g_name g])) i} \<subseteq>
      set (selected fl (ps @ [n]) g)"
  proof
    fix i assume i_in: "i \<in> {i \<in> set (selected fl ps (Group n f ts gs)). below (join_path ((ps @ [n]) @ [g_name g])) i}"
    then have "i \<in> set (selected fl ps (Group n f ts gs))" and b: "below (join_path (ps @ [n, g_name g])) i"
      by simp_all
    then obtain p t where i: "i = join_path (ps @ n # p @ [t_name t])"
      and pt: "(p, t) \<in> set (test_paths (Group n f ts gs))" "consider_test fl (ps @ n # p) (t_name t)"
      unfolding set_selected group.sel by blast
    have plain: "\<forall>x \<in> set (ps @ n # p @ [t_name t]). plain x" "\<forall>x \<in> set (ps @ [n, g_name g]). plain x"
      using test_paths_plain [OF wn pt(1)] ps wn well_named_name g by auto
    have ne: "ps @ n # p @ [t_name t] \<noteq> ps @ [n, g_name g]"
    proof
      assume "ps @ n # p @ [t_name t] = ps @ [n, g_name g]"
      then have "p = []" "t_name t = g_name g" by (cases p; simp)+
      with pt(1) wn g show False by auto
    qed
    then have "join_path (ps @ n # p @ [t_name t]) \<noteq> join_path (ps @ [n, g_name g])"
      using plain by (subst join_path_inject) auto
    then have "starts_with (join_path (ps @ n # p @ [t_name t])) (path_cons (join_path (ps @ [n, g_name g])) [])"
      using b i by (simp add: below_def)
    then obtain rs where rs: "rs \<noteq> []" "ps @ n # p @ [t_name t] = (ps @ [n, g_name g]) @ rs"
      using plain by (subst (asm) path_cons_prefix_join) auto
    then obtain p' where "p = g_name g # p'" by (cases p) auto
    with pt i show "i \<in> set (selected fl (ps @ [n]) g)"
      using test_paths_child [OF wn g] unfolding set_selected by auto
  qed
qed

lemma agrees_child:
  assumes "agrees inc fl ps (Group n f ts gs)" and "well_named (Group n f ts gs)"
    and "\<forall>x \<in> set ps. plain x" and "g \<in> set gs"
  shows "agrees inc fl (ps @ [n]) g"
proof -
  have "{i \<in> inc. below (join_path ((ps @ [n]) @ [g_name g])) i} =
      {i \<in> set (selected fl ps (Group n f ts gs)). below (join_path ((ps @ [n]) @ [g_name g])) i}"
    using assms(1) below_trans_join [of "ps @ [n]" "[g_name g]"] by (auto simp: agrees_def)
  then show ?thesis
    using below_selected_child [OF assms(2-4)] by (simp add: agrees_def)
qed

section \<open>Weighing a trace\<close>

definition weight :: "(event_entry \<Rightarrow> nat) \<Rightarrow> event_entry list \<Rightarrow> nat" where
  "weight f es = sum_list (map f es)"

lemma weight_simps [simp]:
  "weight f [] = 0" "weight f (xs @ ys) = weight f xs + weight f ys"
  "weight f (concat xss) = sum_list (map (weight f) xss)"
  by (simp_all add: weight_def [abs_def]) (induction xss; simp)

lemma weight_at_path [simp]:
  "weight f (at_path n evs) = (\<Sum>ev\<leftarrow>evs. f \<lparr>entry_name = n, entry_event = ev\<rparr>)"
  by (simp add: weight_def at_path_def comp_def)

lemma weight_interleave: "interleave xss zs \<Longrightarrow> weight f zs = sum_list (map (weight f) xss)"
  by (simp add: weight_def [abs_def] interleave_total)

fun cover_event :: "string set \<Rightarrow> string \<Rightarrow> event \<Rightarrow> nat" where
  "cover_event inc n TestLaunched = 1"
| "cover_event inc n (SetupSkipped TaskTest) = 1"
| "cover_event inc n (SetupFailed TaskTest) = 1"
| "cover_event inc n (SetupSkipped TaskGroup) = card {i \<in> inc. below n i}"
| "cover_event inc n (SetupFailed TaskGroup) = card {i \<in> inc. below n i}"
| "cover_event inc n _ = 0"

definition cover :: "string set \<Rightarrow> event_entry \<Rightarrow> nat" where
  "cover inc e = cover_event inc (entry_name e) (entry_event e)"

lemma cover_simps [simp]: "cover inc \<lparr>entry_name = n, entry_event = ev\<rparr> = cover_event inc n ev"
  by (simp add: cover_def)

lemma body_event_cases: "body_event d t = TestPassed \<or> body_event d t = TestFailed"
  by (cases "single (run_body (t_body t) (body_timeout t d))") (auto simp: body_event_def)

lemma cover_test_word: "ws \<in> test_words d t \<Longrightarrow> weight (cover inc) (at_path n ws) = 1"
  using body_event_cases [of d t] by (auto simp: test_words_def)

lemma list_all2_weight:
  "list_all2 P xs yss \<Longrightarrow> (\<And>x ys. x \<in> set xs \<Longrightarrow> P x ys \<Longrightarrow> weight f ys = m x) \<Longrightarrow>
     sum_list (map (weight f) yss) = sum_list (map m xs)"
  by (induction rule: list_all2_induct) auto

lemma test_logs_weight:
  assumes "list_all2 (\<lambda>t es. \<exists>ws \<in> test_words d t. es = at_path (p t) ws) ts ess"
    and "\<And>t ws n. ws \<in> test_words d t \<Longrightarrow> weight f (at_path n ws) = c"
  shows "sum_list (map (weight f) ess) = c * length ts"
proof -
  have "sum_list (map (weight f) ess) = (\<Sum>t\<leftarrow>ts. c)"
    by (rule list_all2_weight [OF assms(1)]) (use assms(2) in auto)
  then show ?thesis by (simp add: sum_list_triv mult.commute)
qed

lemma test_split:
  "length (concurrent_tests ctx ts) + length (sequential_tests ctx ts) = length ts"
  by (simp add: concurrent_tests_def sequential_tests_def sum_length_filter_compl)

lemma group_trace_cover:
  assumes "group_trace ctx ps g es" and "well_named g" "\<forall>x \<in> set ps. plain x"
    and "agrees inc (rc_filter ctx) ps g" "consistent (rc_filter ctx) ps g"
  shows "weight (cover inc) es = length (selected (rc_filter ctx) ps g)"
  using assms
proof (induction rule: group_trace.induct)
  case (not_set_up k td ctx ps n f ts gs)
  have "card {i \<in> inc. below (join_path (ps @ [n])) i} = length (selected (rc_filter ctx) ps (Group n f ts gs))"
    using not_set_up.prems(3) distinct_card [OF distinct_selected [OF not_set_up.prems(1,2)]]
    by (simp add: agrees_def)
  with not_set_up.hyps show ?case by auto
next
  case (set_up ctx' f ctx qs ps n chosen ts gs gss cs es ss td)
  have fl: "rc_filter ctx' = rc_filter ctx" using set_up.hyps(1) by simp
  let ?fl = "rc_filter ctx" and ?n = "join_path qs"
  have qs: "\<forall>x \<in> set qs. plain x" using set_up.hyps(2) set_up.prems(1,2) by auto
  let ?gs = "filter (\<lambda>g. consider_group ?fl qs (g_name g)) gs"
  have child: "well_named g \<and> agrees inc ?fl qs g \<and> consistent ?fl qs g" if "g \<in> set ?gs" for g
    using that set_up.prems agrees_child [OF set_up.prems(3,1,2), of g] set_up.hyps(2) by auto
  have groups: "sum_list (map (weight (cover inc)) gss) = (\<Sum>g\<leftarrow>?gs. length (selected ?fl qs g))"
  proof (rule list_all2_weight [OF set_up.IH [unfolded fl]])
    fix g zs assume "g \<in> set ?gs"
      and IH: "group_trace ctx' qs g zs \<and> (well_named g \<longrightarrow> Ball (set qs) plain \<longrightarrow>
        agrees inc ?fl qs g \<longrightarrow> consistent ?fl qs g \<longrightarrow> weight (cover inc) zs = length (selected ?fl qs g))"
    with child [of g] qs show "weight (cover inc) zs = length (selected ?fl qs g)" by blast
  qed
  have "(\<Sum>g\<leftarrow>?gs. length (selected ?fl qs g)) = (\<Sum>g\<leftarrow>gs. length (selected ?fl qs g))"
    using set_up.prems(4) set_up.hyps(2) by (intro sum_list_map_filter) auto
  with groups have gsum: "sum_list (map (weight (cover inc)) gss) = length (concat (map (selected ?fl qs) gs))"
    by (simp add: length_concat comp_def)
  have csum: "weight (cover inc) es = length (concurrent_tests ctx' chosen)"
    using test_logs_weight [OF set_up.hyps(4), of "cover inc" 1] cover_test_word
    by (simp add: weight_interleave [OF set_up.hyps(5)])
  have ssum: "sum_list (map (weight (cover inc)) ss) = length (sequential_tests ctx' chosen)"
    using test_logs_weight [OF set_up.hyps(6), of "cover inc" 1] cover_test_word by simp
  have "length chosen = length (filter (\<lambda>t. consider_test ?fl qs (t_name t)) ts)"
    using set_up.hyps(3) fl by (simp add: chosen_tests_def)
  with gsum csum ssum test_split [of ctx' chosen] set_up.hyps(2,7) show ?case
    by auto
qed

text \<open>
  The same for one test: the entries that settle what becomes of it are its launch, a setup of its own
  that was skipped or failed, and such a setup of a group above it.  A trace has one of them.
\<close>

definition settles :: "string \<Rightarrow> event_entry \<Rightarrow> bool" where
  "settles n e = (case entry_event e of
      TestLaunched \<Rightarrow> entry_name e = n
    | SetupSkipped TaskTest \<Rightarrow> entry_name e = n
    | SetupFailed TaskTest \<Rightarrow> entry_name e = n
    | SetupSkipped TaskGroup \<Rightarrow> below (entry_name e) n
    | SetupFailed TaskGroup \<Rightarrow> below (entry_name e) n
    | _ \<Rightarrow> False)"

definition one_if :: "('a \<Rightarrow> bool) \<Rightarrow> 'a \<Rightarrow> nat" where
  "one_if P x = (if P x then 1 else 0)"

definition occurs :: "'a \<Rightarrow> 'a list \<Rightarrow> nat" where
  "occurs x xs = sum_list (map (one_if (\<lambda>y. y = x)) xs)"

lemma length_filter_weight: "length (filter P es) = weight (one_if P) es"
  by (induction es) (simp_all add: weight_def one_if_def)

lemma occurs_simps [simp]:
  "occurs x (xs @ ys) = occurs x xs + occurs x ys"
  "occurs x (concat xss) = sum_list (map (occurs x) xss)"
  "occurs x (map f ts) = (\<Sum>t\<leftarrow>ts. one_if (\<lambda>t. f t = x) t)"
  "occurs x [] = 0"
  by (simp_all add: occurs_def [abs_def] one_if_def comp_def) (induction xss; simp)

lemma occurs_distinct: "distinct xs \<Longrightarrow> occurs x xs = (if x \<in> set xs then 1 else 0)"
  by (induction xs) (auto simp: occurs_def one_if_def)

lemma settles_test_word:
  "ws \<in> test_words d t \<Longrightarrow> weight (one_if (settles i)) (at_path n ws) = (if n = i then 1 else 0)"
  using body_event_cases [of d t] by (auto simp: test_words_def one_if_def settles_def)

lemma list_all2_settles:
  assumes "list_all2 (\<lambda>t es. \<exists>ws \<in> test_words d t. es = at_path (p t) ws) ts ess"
  shows "sum_list (map (weight (one_if (settles i))) ess) = (\<Sum>t\<leftarrow>ts. one_if (\<lambda>t. p t = i) t)"
  by (rule list_all2_weight [OF assms]) (auto simp: settles_test_word one_if_def simp del: weight_at_path)

lemma sum_list_split:
  fixes m :: "test_desc \<Rightarrow> nat"
  shows "(\<Sum>t\<leftarrow>concurrent_tests ctx ts. m t) + (\<Sum>t\<leftarrow>sequential_tests ctx ts. m t) = (\<Sum>t\<leftarrow>ts. m t)"
  by (induction ts) (auto simp: concurrent_tests_def sequential_tests_def)

lemma group_trace_settles:
  assumes "group_trace ctx ps g es" and "well_named g" "\<forall>x \<in> set ps. plain x"
    and "agrees inc (rc_filter ctx) ps g" "consistent (rc_filter ctx) ps g" and i: "i \<in> inc"
  shows "weight (one_if (settles i)) es = occurs i (selected (rc_filter ctx) ps g)"
  using assms(1-5)
proof (induction rule: group_trace.induct)
  case (not_set_up k td ctx ps n f ts gs)
  have "below (join_path (ps @ [n])) i \<longleftrightarrow> i \<in> set (selected (rc_filter ctx) ps (Group n f ts gs))"
    using not_set_up.prems(3) i by (auto simp: agrees_def)
  then have "occurs i (selected (rc_filter ctx) ps (Group n f ts gs)) = (if below (join_path (ps @ [n])) i then 1 else 0)"
    by (simp only: occurs_distinct [OF distinct_selected [OF not_set_up.prems(1,2)]])
  with not_set_up.hyps show ?case by (auto simp: one_if_def settles_def simp del: selected.simps)
next
  case (set_up ctx' f ctx qs ps n chosen ts gs gss cs es ss td)
  have fl: "rc_filter ctx' = rc_filter ctx" using set_up.hyps(1) by simp
  let ?fl = "rc_filter ctx" and ?w = "weight (one_if (settles i))" and ?p = "test_path (join_path qs)"
  have qs: "\<forall>x \<in> set qs. plain x" using set_up.hyps(2) set_up.prems(1,2) by auto
  let ?gs = "filter (\<lambda>g. consider_group ?fl qs (g_name g)) gs"
  have child: "well_named g \<and> agrees inc ?fl qs g \<and> consistent ?fl qs g" if "g \<in> set ?gs" for g
    using that set_up.prems agrees_child [OF set_up.prems(3,1,2), of g] set_up.hyps(2) by auto
  have "sum_list (map ?w gss) = (\<Sum>g\<leftarrow>?gs. occurs i (selected ?fl qs g))"
  proof (rule list_all2_weight [OF set_up.IH [unfolded fl]])
    fix g zs assume "g \<in> set ?gs"
      and IH: "group_trace ctx' qs g zs \<and> (well_named g \<longrightarrow> Ball (set qs) plain \<longrightarrow>
        agrees inc ?fl qs g \<longrightarrow> consistent ?fl qs g \<longrightarrow> ?w zs = occurs i (selected ?fl qs g))"
    with child [of g] qs show "?w zs = occurs i (selected ?fl qs g)" by blast
  qed
  also have "\<dots> = (\<Sum>g\<leftarrow>gs. occurs i (selected ?fl qs g))"
    using set_up.prems(4) set_up.hyps(2) by (intro sum_list_map_filter) auto
  finally have gsum: "sum_list (map ?w gss) = occurs i (concat (map (selected ?fl qs) gs))"
    by (simp add: comp_def)
  have tests: "?w es + sum_list (map ?w ss) = (\<Sum>t\<leftarrow>chosen. one_if (\<lambda>t. ?p t = i) t)"
    using list_all2_settles [OF set_up.hyps(4), of i] list_all2_settles [OF set_up.hyps(6), of i]
    by (simp add: weight_interleave [OF set_up.hyps(5)] sum_list_split)
  have own: "?w (at_path n evs) = 0" if "set evs \<subseteq> {SetupLaunched, SetupPassed, TeardownLaunched, TeardownPassed, TeardownFailed}"
    for n evs using that by (auto simp: one_if_def settles_def)
  have "?w (at_path (join_path qs) [SetupLaunched, SetupPassed]) = 0" "?w (at_path (join_path qs) [TeardownLaunched, td]) = 0"
    using own set_up.hyps(7) by (auto simp del: weight_at_path)
  with gsum tests show ?case
    using set_up.hyps(2,3) fl by (simp add: chosen_tests_def test_path_def del: weight_at_path)
qed

lemma agrees_root: "agrees (set (selected fl [] G)) fl [] G"
  using selected_below [of _ fl "[]" G] by (auto simp: agrees_def)

lemma cover_included:
  assumes "well_recorded s"
  shows "weight (cover (included s)) (events s) =
    tests_launched s + tests_skipped s + tests_skipped_by_fixture_err s"
proof -
  have "sum_list (map (cover (included s)) es) =
      (\<Sum>e\<leftarrow>es. if entry_event e = TestLaunched then 1 else 0) +
      ((\<Sum>e\<leftarrow>es. if entry_event e = SetupSkipped TaskTest then 1 else 0) +
       (\<Sum>e\<leftarrow>es. if entry_event e = SetupSkipped TaskGroup then length (iter_included s (entry_name e)) else 0)) +
      ((\<Sum>e\<leftarrow>es. if entry_event e = SetupFailed TaskTest then 1 else 0) +
       (\<Sum>e\<leftarrow>es. if entry_event e = SetupFailed TaskGroup then length (iter_included s (entry_name e)) else 0))"
    for es
  proof (induction es)
    case (Cons e es)
    have "cover (included s) e =
        (if entry_event e = TestLaunched then 1 else 0) +
        ((if entry_event e = SetupSkipped TaskTest then 1 else 0) +
         (if entry_event e = SetupSkipped TaskGroup then length (iter_included s (entry_name e)) else 0)) +
        ((if entry_event e = SetupFailed TaskTest then 1 else 0) +
         (if entry_event e = SetupFailed TaskGroup then length (iter_included s (entry_name e)) else 0))"
      by (cases "(included s, entry_name e, entry_event e)" rule: cover_event.cases)
        (simp_all add: cover_def length_iter_included well_recorded_finite [OF assms])
    with Cons.IH show ?case by simp
  qed simp
  then show ?thesis
    by (simp add: weight_def counter_defs count_events_sum count_below_sum)
qed

section \<open>Balanced events\<close>

text \<open>Two weights of events that agree on the words of tests and groups agree on every trace.\<close>

definition balanced :: "(event \<Rightarrow> nat) \<Rightarrow> (event \<Rightarrow> nat) \<Rightarrow> bool" where
  "balanced f g \<longleftrightarrow>
     (\<forall>d t ws. ws \<in> test_words d t \<longrightarrow> sum_list (map f ws) = sum_list (map g ws)) \<and>
     (\<forall>td \<in> {TeardownPassed, TeardownFailed}.
        (\<forall>k \<in> {SetupSkipped TaskGroup, SetupFailed TaskGroup}.
           f SetupLaunched + f k + f TeardownLaunched + f td = g SetupLaunched + g k + g TeardownLaunched + g td) \<and>
        f SetupLaunched + f SetupPassed + f TeardownLaunched + f td =
          g SetupLaunched + g SetupPassed + g TeardownLaunched + g td)"

text \<open>So do they on the entries of any set of paths.\<close>

lemma weight_at_path_if:
  "weight (\<lambda>e. if entry_name e \<in> A then f (entry_event e) else 0) (at_path n ws) =
     (if n \<in> A then sum_list (map f ws) else 0)"
  by (simp add: comp_def)

lemma group_trace_balanced_at:
  assumes "group_trace ctx ps gr es" and bal: "balanced f g"
  shows "weight (\<lambda>e. if entry_name e \<in> A then f (entry_event e) else 0) es =
    weight (\<lambda>e. if entry_name e \<in> A then g (entry_event e) else 0) es"
  using assms(1)
proof (induction rule: group_trace.induct)
  case (not_set_up k td ctx ps n fx ts gs)
  with bal show ?case by (auto simp: balanced_def)
next
  case (set_up ctx' fx ctx qs ps n chosen ts gs gss cs es ss td)
  let ?f = "\<lambda>e. if entry_name e \<in> A then f (entry_event e) else 0"
    and ?g = "\<lambda>e. if entry_name e \<in> A then g (entry_event e) else 0"
  have words: "list_all2 (\<lambda>t es. \<exists>ws \<in> test_words d t. es = at_path (p t) ws) us ess \<Longrightarrow>
      map (weight ?f) ess = map (weight ?g) ess" for d p us ess
    by (induction rule: list_all2_induct)
      (use bal in \<open>auto simp: balanced_def weight_at_path_if simp del: weight_at_path\<close>)
  have groups: "map (weight ?f) gss = map (weight ?g) gss"
    using set_up.IH by (induction rule: list_all2_induct) auto
  have tests: "weight ?f es = weight ?g es" "map (weight ?f) ss = map (weight ?g) ss"
    using words [OF set_up.hyps(4)] words [OF set_up.hyps(6)]
    by (simp_all only: weight_interleave [OF set_up.hyps(5)])
  from bal set_up.hyps(7) have "f SetupLaunched + f SetupPassed + f TeardownLaunched + f td =
      g SetupLaunched + g SetupPassed + g TeardownLaunched + g td"
    by (auto simp: balanced_def)
  moreover have "sum_list (map (weight ?f) gss) = sum_list (map (weight ?g) gss)"
    "sum_list (map (weight ?f) ss) = sum_list (map (weight ?g) ss)"
    by (simp_all only: groups tests(2))
  ultimately show ?case using tests(1) by simp
qed

lemma group_trace_balanced:
  assumes "group_trace ctx ps gr es" and "balanced f g"
  shows "weight (\<lambda>e. f (entry_event e)) es = weight (\<lambda>e. g (entry_event e)) es"
  using group_trace_balanced_at [OF assms, of UNIV] by simp

definition indicator :: "(event \<Rightarrow> bool) \<Rightarrow> event \<Rightarrow> nat" where
  "indicator P ev = (if P ev then 1 else 0)"

lemma count_events_weight:
  "count_events P s = weight (\<lambda>e. indicator P (entry_event e)) (events s)"
  by (simp add: count_events_sum weight_def indicator_def)

lemma body_event_simps:
  "body_event d t \<noteq> SetupLaunched" "body_event d t \<noteq> SetupPassed" "body_event d t \<noteq> TeardownLaunched"
  "body_event d t \<noteq> TeardownPassed" "body_event d t \<noteq> TeardownFailed" "body_event d t \<noteq> TestLaunched"
  "\<not> (case body_event d t of SetupSkipped _ \<Rightarrow> True | _ \<Rightarrow> False)"
  "\<not> (case body_event d t of SetupFailed _ \<Rightarrow> True | _ \<Rightarrow> False)"
  "body_event d t = TestFailed \<longleftrightarrow> body_event d t \<noteq> TestPassed"
  using body_event_cases [of d t] by auto

lemmas balanced_simps = balanced_def test_words_def indicator_def body_event_simps

lemma balanced_counters:
  shows "balanced (indicator (\<lambda>ev. ev = TestLaunched)) (\<lambda>ev. indicator (\<lambda>ev. ev = TestPassed) ev + indicator (\<lambda>ev. ev = TestFailed) ev)"
    and "balanced (indicator (\<lambda>ev. ev = SetupLaunched))
      (\<lambda>ev. indicator (\<lambda>ev. ev = SetupPassed) ev + indicator (\<lambda>ev. case ev of SetupSkipped _ \<Rightarrow> True | _ \<Rightarrow> False) ev +
        indicator (\<lambda>ev. case ev of SetupFailed _ \<Rightarrow> True | _ \<Rightarrow> False) ev)"
    and "balanced (indicator (\<lambda>ev. ev = TeardownLaunched)) (indicator (\<lambda>ev. ev = SetupLaunched))"
    and "balanced (indicator (\<lambda>ev. ev = TeardownLaunched))
      (\<lambda>ev. indicator (\<lambda>ev. ev = TeardownPassed) ev + indicator (\<lambda>ev. ev = TeardownFailed) ev)"
proof -
  show "balanced (indicator (\<lambda>ev. ev = TestLaunched)) (\<lambda>ev. indicator (\<lambda>ev. ev = TestPassed) ev + indicator (\<lambda>ev. ev = TestFailed) ev)"
    by (auto simp: balanced_simps)
  show "balanced (indicator (\<lambda>ev. ev = SetupLaunched))
      (\<lambda>ev. indicator (\<lambda>ev. ev = SetupPassed) ev + indicator (\<lambda>ev. case ev of SetupSkipped _ \<Rightarrow> True | _ \<Rightarrow> False) ev +
        indicator (\<lambda>ev. case ev of SetupFailed _ \<Rightarrow> True | _ \<Rightarrow> False) ev)"
    by (auto simp: balanced_simps)
  show "balanced (indicator (\<lambda>ev. ev = TeardownLaunched)) (indicator (\<lambda>ev. ev = SetupLaunched))"
    by (auto simp: balanced_simps)
  show "balanced (indicator (\<lambda>ev. ev = TeardownLaunched))
      (\<lambda>ev. indicator (\<lambda>ev. ev = TeardownPassed) ev + indicator (\<lambda>ev. ev = TeardownFailed) ev)"
    by (auto simp: balanced_simps)
qed

text \<open>The report of a run whose log is a trace.\<close>

lemma weight_add: "weight (\<lambda>e. f e + g e) es = weight f es + weight g es"
  by (simp add: weight_def sum_list_addf)

lemma balanced_report:
  assumes "events s = [] \<or> group_trace ctx [] G (events s)"
  shows "tests_launched s = tests_passed s + tests_failed s"
    and "setups_launched s = setups_passed s + setups_skipped s + setups_failed s"
    and "teardowns_launched s = setups_launched s"
    and "teardowns_launched s = teardowns_passed s + teardowns_failed s"
proof -
  have eq: "weight (\<lambda>e. f (entry_event e)) (events s) = weight (\<lambda>e. g (entry_event e)) (events s)"
    if "balanced f g" for f g
    using assms group_trace_balanced [OF _ that] by auto
  show "tests_launched s = tests_passed s + tests_failed s"
    using eq [OF balanced_counters(1)] by (simp add: counter_defs count_events_weight weight_add)
  show "setups_launched s = setups_passed s + setups_skipped s + setups_failed s"
    using eq [OF balanced_counters(2)] by (simp add: counter_defs count_events_weight weight_add)
  show "teardowns_launched s = setups_launched s"
    using eq [OF balanced_counters(3)] by (simp add: counter_defs count_events_weight)
  show "teardowns_launched s = teardowns_passed s + teardowns_failed s"
    using eq [OF balanced_counters(4)] by (simp add: counter_defs count_events_weight weight_add)
qed

text \<open>The events of one test.\<close>

definition times_of :: "string \<Rightarrow> event \<Rightarrow> inner \<Rightarrow> nat" where
  "times_of n ev s = length (filter (\<lambda>e. entry_name e = n \<and> entry_event e = ev) (events s))"

lemma times_of_weight:
  "times_of n ev s = weight (\<lambda>e. if entry_name e \<in> {n} then indicator (\<lambda>ev'. ev' = ev) (entry_event e) else 0) (events s)"
proof -
  have "one_if (\<lambda>e :: event_entry. entry_name e = n \<and> entry_event e = ev) =
      (\<lambda>e. if entry_name e \<in> {n} then indicator (\<lambda>ev'. ev' = ev) (entry_event e) else 0)"
    by (auto simp: one_if_def indicator_def)
  then show ?thesis by (simp only: times_of_def length_filter_weight)
qed

lemma launched_ends_once:
  assumes "events s = [] \<or> group_trace ctx [] G (events s)"
  shows "times_of n TestLaunched s = times_of n TestPassed s + times_of n TestFailed s"
proof -
  let ?P = "\<lambda>ev. indicator (\<lambda>ev'. ev' = TestPassed) ev + indicator (\<lambda>ev'. ev' = TestFailed) ev"
  have "weight (\<lambda>e. if entry_name e \<in> {n} then indicator (\<lambda>ev. ev = TestLaunched) (entry_event e) else 0) (events s) =
      weight (\<lambda>e. if entry_name e \<in> {n} then ?P (entry_event e) else 0) (events s)"
    using assms group_trace_balanced_at [OF _ balanced_counters(1), of ctx "[]" G "events s" "{n}"] by auto
  also have "\<dots> = times_of n TestPassed s + times_of n TestFailed s"
    unfolding times_of_weight weight_add [symmetric] by (rule arg_cong [where f = "\<lambda>h. weight h (events s)"]) auto
  finally show ?thesis by (simp only: times_of_weight)
qed

end
