(* ===== verification/Hash_Order.thy ===== *)
theory Hash_Order
  imports Run_Fixtures
begin

text \<open>
  The order of the hash map does not matter.  The cache of fixtures is a \<open>HashMap\<close>, and each teardown
  goes through it in an order that differs from one process to the next.  Two states of the manager
  are the same up to that order (\<open>same_fx\<close>) when they hold the same fixtures; every operation keeps
  this and answers the same, so two runs with different hash functions report the same.  The
  condition is that the futures of the teardowns are ready at once (\<open>prompt_group\<close>): when their time
  adds up to more than the timeout, the order decides which of them still run.
\<close>

section \<open>The fixture manager\<close>

definition same_fx :: "fixtures \<Rightarrow> fixtures \<Rightarrow> bool" where
  "same_fx s s' \<longleftrightarrow> permanent s = permanent s' \<and> mset (cache s) = mset (cache s') \<and>
     handles s = handles s' \<and> mset (calls s) = mset (calls s')"

fun prompt_fixture :: "fixture \<Rightarrow> bool"
  and prompt_code :: "setup_code \<Rightarrow> bool" where
  "prompt_fixture (Fixture t ts tt conc code td) = (td = Ready_After 0 \<and> prompt_code code)"
| "prompt_code (Sleep n k) = prompt_code k"
| "prompt_code (Call_Setup f k k') = (prompt_fixture f \<and> prompt_code k \<and> prompt_code k')"
| "prompt_code (Call_Get t k k') = (prompt_code k \<and> prompt_code k')"
| "prompt_code _ = True"

definition prompt_cache :: "fixtures \<Rightarrow> bool" where
  "prompt_cache s \<longleftrightarrow> (\<forall>e \<in> set (cache s). ca_teardown e = Ready_After 0)"

lemma same_fx_cached: "same_fx s s' \<Longrightarrow> cached_types (cache s') = cached_types (cache s)"
  using cached_types_mset [of "cache s'" "cache s"] by (simp add: same_fx_def)

lemma same_fx_permanent: "same_fx s s' \<Longrightarrow> permanent s' = permanent s"
  by (simp add: same_fx_def)

lemma same_fx_get: "same_fx s s' \<Longrightarrow> inner_get t s' = inner_get t s"
  by (simp add: inner_get_def same_fx_cached) (simp add: same_fx_def)

lemma same_fx_insert:
  "same_fx s s' \<Longrightarrow> same_fx (s\<lparr>cache := cache_insert e (cache s), calls := calls s @ [c]\<rparr>)
     (s'\<lparr>cache := cache_insert e (cache s'), calls := calls s' @ [c]\<rparr>)"
  by (simp add: same_fx_def cache_insert_def)

lemma setup_same:
  "same_fx s s' \<Longrightarrow> fst (inner_setup f b s') = fst (inner_setup f b s) \<and>
     same_fx (snd (inner_setup f b s)) (snd (inner_setup f b s'))"
  "same_fx s s' \<Longrightarrow> fst (run_setup code got b s') = fst (run_setup code got b s) \<and>
     same_fx (snd (run_setup code got b s)) (snd (run_setup code got b s'))"
proof (induction f b s and code got b s arbitrary: s' and s' rule: inner_setup_run_setup.induct)
  case (1 t ts tt conc code td b s)
  show ?case
  proof (cases "permanent s t \<noteq> None \<or> t \<in> cached_types (cache s)")
    case True
    with 1(2) show ?thesis by (simp add: same_fx_get same_fx_cached same_fx_permanent)
  next
    case False
    then have "\<not> (permanent s' t \<noteq> None \<or> t \<in> cached_types (cache s'))"
      using 1(2) by (simp add: same_fx_cached same_fx_permanent)
    with False 1(1) [OF False 1(2)] show ?thesis
      by (auto split: prod.splits code_end.splits intro: same_fx_insert)
  qed
next
  case (6 n k got b s)
  then show ?case by simp
next
  case (7 f k k' got b s)
  note f = "7.IH"(1) [OF "7.prems"]
  obtain e b1 s1 where i: "inner_setup f b s = ((e, b1), s1)" by (metis surj_pair)
  with f obtain s1' where i': "inner_setup f b s' = ((e, b1), s1')" and same: "same_fx s1 s1'"
    by (metis fst_conv prod.collapse snd_conv)
  show ?case
    using i i' "7.IH"(2-) same
    by (cases e) (auto split: arc.splits)
next
  case (8 t k k' got b s)
  then show ?case by (auto simp: same_fx_get split: option.splits arc.splits)
qed simp_all

lemma setup_prompt:
  "prompt_fixture f \<Longrightarrow> prompt_cache s \<Longrightarrow> prompt_cache (snd (inner_setup f b s))"
  "prompt_code code \<Longrightarrow> prompt_cache s \<Longrightarrow> prompt_cache (snd (run_setup code got b s))"
proof (induction f b s and code got b s rule: inner_setup_run_setup.induct)
  case (1 t ts tt conc code td b s)
  then show ?case
    by (auto simp: prompt_cache_def cache_insert_def split: prod.splits code_end.splits)
next
  case (7 f k k' got b s)
  then show ?case by (auto split: prod.splits setup_end.splits arc.splits)
next
  case (8 t k k' got b s)
  then show ?case by (auto split: option.splits arc.splits)
qed simp_all

lemma prompt_pass:
  "\<forall>e \<in> set es. ca_teardown e = Ready_After 0 \<Longrightarrow> fst (teardown_pass h kept es b found log)"
  by (induction h kept es b found log rule: teardown_pass.induct) (simp_all split: if_splits)

lemma prompt_teardown: "prompt_cache s \<Longrightarrow> fst (inner_teardown b s)"
proof (induction "length (cache s)" arbitrary: b s rule: less_induct)
  case (less s b)
  obtain ok c b1 found log where
    p: "teardown_pass (handles s) [] (iteration_order s) b False (calls s) = (ok, c, b1, found, log)"
    by (metis prod_cases5)
  have "\<forall>e \<in> set (iteration_order s). ca_teardown e = Ready_After 0"
    using less.prems by (simp add: prompt_cache_def iteration_order_def)
  from prompt_pass [OF this, of "handles s" "[]" b False "calls s"] p have ok by simp
  have "set c \<subseteq> set (iteration_order s)"
    using teardown_pass_collect [OF p] collect_subset by fastforce
  then have "prompt_cache (s\<lparr>cache := c, calls := log\<rparr>)"
    using less.prems by (auto simp: prompt_cache_def iteration_order_def)
  with less.hyps [of "s\<lparr>cache := c, calls := log\<rparr>" b1] p \<open>ok\<close> show ?case
    by (cases found) (auto simp: inner_teardown_unfold [OF p] dest: teardown_pass_shrinks)
qed

lemma same_fx_wf: "same_fx s s' \<Longrightarrow> fx_wf s \<Longrightarrow> fx_wf s'"
  by (simp add: fx_wf_def same_fx_cached) (simp add: same_fx_def cache_ok_mset [of "cache s"])

lemma held_same: "set c = set d \<Longrightarrow> held h c t = held h d t"
  using held_mono by blast

lemma teardown_same:
  assumes "same_fx s s'" "fx_wf s" "inner_teardown b s = (True, s1)" "inner_teardown b s' = (True, s1')"
  shows "same_fx s1 s1'"
proof -
  have wf': "fx_wf s'" using same_fx_wf assms(1,2) .
  from assms(1) have sets: "set (cache s) = set (cache s')" and h: "handles s = handles s'"
    by (auto simp: same_fx_def dest: mset_eq_setD)
  obtain c l where c: "collect (handles s) (cache s) c l" "s1 = s\<lparr>cache := c, calls := calls s @ map Torn l\<rparr>"
    using inner_teardown_collect [OF assms(3)] by blast
  obtain c' l' where c': "collect (handles s') (cache s') c' l'" "s1' = s'\<lparr>cache := c', calls := calls s' @ map Torn l'\<rparr>"
    using inner_teardown_collect [OF assms(4)] by blast
  have "set c = set c'"
    using inner_teardown_exact [OF assms(2,3)] inner_teardown_exact [OF wf' assms(4)] c(2) c'(2) sets h
      held_same [OF sets] by simp
  moreover have "distinct c" "distinct c'"
    using inner_teardown_wf [OF assms(2,3)] inner_teardown_wf [OF wf' assms(4)] c(2) c'(2)
    by (auto simp: fx_wf_def distinct_map dest!: cache_ok_distinct)
  ultimately have m: "mset c = mset c'" by (simp add: set_eq_iff_mset_eq_distinct)
  have "mset (map ca_type (cache s)) = mset (map ca_type (cache s'))"
    using assms(1) by (simp add: same_fx_def)
  then have "mset l = mset l'"
    using collect_types [OF c(1)] collect_types [OF c'(1)] m by simp
  with m c c' assms(1) show ?thesis by (simp add: same_fx_def)
qed

section \<open>What the runner calls\<close>

definition alike :: "fixtures \<Rightarrow> fixtures \<Rightarrow> bool" where
  "alike s s' \<longleftrightarrow> same_fx s s' \<and> fx_inv s \<and> prompt_cache s"

lemma fixtures_setup_alike:
  assumes "alike s s'" "acyclic_fixture f" "prompt_fixture f"
  shows "rel_prod (=) alike (fixtures_setup f b wait s) (fixtures_setup f b wait s')"
proof -
  obtain r s1 where r: "fixtures_setup f b wait s = (r, s1)" by fastforce
  have "fx_inv s1" using fixtures_setup_law [OF _ assms(2) r] assms(1) by (simp add: alike_def)
  moreover have "prompt_cache s1"
    using r setup_prompt(1) [OF assms(3), of s "b - wait"] assms(1)
    by (auto simp: alike_def fixtures_setup_def hold_arc_def prompt_cache_def split: if_splits prod.splits setup_end.splits)
  ultimately show ?thesis
    using r setup_same(1) [of s s' f "b - wait"] assms(1)
    by (auto simp: alike_def fixtures_setup_def same_fx_def hold_arc_def split: if_splits prod.splits setup_end.splits)
qed

lemma fixtures_teardown_alike:
  assumes "alike s s'"
  shows "rel_prod (=) alike (fixtures_teardown b wait s) (fixtures_teardown b wait s')"
proof (cases "b < wait")
  case True
  with assms show ?thesis by (simp add: fixtures_teardown_def)
next
  case False
  have p: "prompt_cache s" "prompt_cache s'"
    using assms by (auto simp: alike_def same_fx_def prompt_cache_def dest: mset_eq_setD)
  obtain s1 s1' where t: "inner_teardown (b - wait) s = (True, s1)" "inner_teardown (b - wait) s' = (True, s1')"
    using prompt_teardown [OF p(1), of "b - wait"] prompt_teardown [OF p(2), of "b - wait"]
    by (metis (full_types) prod.collapse)
  have "same_fx s1 s1'" using teardown_same [OF _ _ t] assms by (simp add: alike_def fx_inv_def)
  moreover have "fixtures_teardown b wait s = (Finished (), s1)" using t False by (simp add: fixtures_teardown_def)
  then have "fx_inv s1" using fixtures_teardown_law [of s b wait] assms by (simp add: alike_def)
  moreover have "prompt_cache s1"
    using inner_teardown_exact [OF _ t(1)] p(1) assms by (auto simp: prompt_cache_def alike_def fx_inv_def)
  ultimately show ?thesis using t False by (simp add: fixtures_teardown_def alike_def)
qed

lemma release_alike: "alike s s' \<Longrightarrow> alike (release_arc a s) (release_arc a s')"
  using release_arc_inv [of s a] by (simp add: alike_def same_fx_def release_arc_def prompt_cache_def)

section \<open>Tests\<close>

definition same_world :: "world \<Rightarrow> world \<Rightarrow> bool" where
  "same_world w w' \<longleftrightarrow> w_stats w' = w_stats w \<and> w_sched w' = w_sched w \<and> w_admits w' = w_admits w \<and> alike (w_fx w) (w_fx w')"

text \<open>Two results that are alike: both panics, or the same value with the same world.\<close>

abbreviation same_result :: "('a \<times> world) option \<Rightarrow> ('a \<times> world) option \<Rightarrow> bool" where
  "same_result \<equiv> rel_option (rel_prod (=) same_world)"

lemma rel_bind:
  "rel_option R m m' \<Longrightarrow> (\<And>x x'. R x x' \<Longrightarrow> rel_option S (f x) (g x')) \<Longrightarrow> rel_option S (m \<bind> f) (m' \<bind> g)"
  by (cases m; cases m') auto

lemma rel_bind_eq:
  "rel_option R m m' \<Longrightarrow> (\<And>x x'. m = Some x \<Longrightarrow> R x x' \<Longrightarrow> rel_option S (f x) (g x')) \<Longrightarrow>
     rel_option S (m \<bind> f) (m' \<bind> g)"
  by (cases m; cases m') auto

lemma rel_pair:
  "rel_prod (=) R p p' \<Longrightarrow> (\<And>r x x'. R x x' \<Longrightarrow> T (f r x) (g r x')) \<Longrightarrow> T (case_prod f p) (case_prod g p')"
  by (cases p; cases p') auto

lemma record_same: "same_world w w' \<Longrightarrow> rel_option same_world (record_w n ev w) (record_w n ev w')"
  by (cases "record_event n ev (w_stats w)") (simp_all add: record_w_def same_world_def)

lemma spawn_setup_same:
  assumes "same_world w w'" "acyclic_fixture f" "prompt_fixture f"
  shows "rel_prod (=) same_world (spawn_setup f b wait w) (spawn_setup f b wait w')"
  unfolding spawn_setup_def
  by (rule rel_pair [OF fixtures_setup_alike [OF _ assms(2,3)]]) (use assms(1) in \<open>simp_all add: same_world_def\<close>)

lemma spawn_teardown_same:
  assumes "same_world w w'"
  shows "rel_prod (=) same_world (spawn_teardown b wait w) (spawn_teardown b wait w')"
  unfolding spawn_teardown_def
  by (rule rel_pair [OF fixtures_teardown_alike]) (use assms in \<open>simp_all add: same_world_def\<close>)

lemma drop_arc_same: "same_world w w' \<Longrightarrow> same_world (drop_arc a w) (drop_arc a w')"
  by (simp add: same_world_def drop_arc_def release_alike)

lemmas same_intros = rel_bind rel_pair record_same spawn_setup_same spawn_teardown_same drop_arc_same

lemma task_setup_same:
  "same_world w w' \<Longrightarrow> acyclic_fixture f \<Longrightarrow> prompt_fixture f \<Longrightarrow>
     same_result (task_setup n k f b w) (task_setup n k f b w')"
  unfolding task_setup_def Let_def
  by (rule rel_bind [OF record_same], assumption, rule rel_pair [OF spawn_setup_same], assumption+,
      rule rel_bind [OF record_same], assumption, simp)

lemma task_teardown_same:
  "same_world w w' \<Longrightarrow> rel_option same_world (task_teardown n b w) (task_teardown n b w')"
  unfolding task_teardown_def Let_def
  by (rule rel_bind [OF record_same], assumption, rule rel_pair [OF spawn_teardown_same], assumption, rule record_same)

lemma task_test_same:
  "same_world w w' \<Longrightarrow> rel_option same_world (task_test n body b w) (task_test n body b w')"
  unfolding task_test_def Let_def by (rule rel_bind [OF record_same], assumption, rule record_same)

lemma run_test_same:
  assumes "same_world w w'" "acyclic_fixture (t_fixture t)" "prompt_fixture (t_fixture t)"
  shows "rel_option same_world (run_test d gn t w) (run_test d gn t w')"
  unfolding run_test_def Let_def
proof (rule rel_bind [OF task_setup_same [OF assms]], rule rel_pair, assumption)
  fix r :: "unit + arc option" and v v' :: world assume v: "same_world v v'"
  show "rel_option same_world
     (case r of Inl _ \<Rightarrow> task_teardown (test_path gn t) (teardown_timeout (t_fixture t) d) v
      | Inr None \<Rightarrow> task_teardown (test_path gn t) (teardown_timeout (t_fixture t) d) v
      | Inr (Some a) \<Rightarrow> task_test (test_path gn t) (t_body t) (body_timeout t d) v \<bind>
          (\<lambda>w. task_teardown (test_path gn t) (teardown_timeout (t_fixture t) d) (drop_arc a w)))
     (case r of Inl _ \<Rightarrow> task_teardown (test_path gn t) (teardown_timeout (t_fixture t) d) v'
      | Inr None \<Rightarrow> task_teardown (test_path gn t) (teardown_timeout (t_fixture t) d) v'
      | Inr (Some a) \<Rightarrow> task_test (test_path gn t) (t_body t) (body_timeout t d) v' \<bind>
          (\<lambda>w. task_teardown (test_path gn t) (teardown_timeout (t_fixture t) d) (drop_arc a w)))"
    by (cases r rule: setup_answer)
      (simp_all add: v task_teardown_same rel_bind [OF task_test_same] drop_arc_same)
qed

lemma test_step_same:
  assumes "same_world w w'" "acyclic_fixture (t_fixture t)" "prompt_fixture (t_fixture t)"
  shows "same_result (test_step d gn t wait pc w) (test_step d gn t wait pc w')"
proof (cases pc)
  case Setup_Pending
  show ?thesis unfolding Setup_Pending test_step.simps by (rule rel_pair [OF spawn_setup_same [OF assms]]) simp
next
  case (Setup_Ready r)
  have step: "same_world v v' \<Longrightarrow> same_result (record_w n ev v \<bind> (\<lambda>w. Some (pc, w))) (record_w n ev v' \<bind> (\<lambda>w. Some (pc, w)))"
    for n ev and pc :: test_pc and v v' :: world
    by (rule rel_bind [OF record_same]) simp_all
  show ?thesis using Setup_Ready
    by (cases r rule: setup_answer) (auto intro!: rel_bind [OF record_same] step assms(1))
next
  case (Body_Pending a)
  then show ?thesis
    by (auto simp: Let_def intro!: rel_bind [OF record_same] drop_arc_same assms(1))
next
  case Teardown_Pending
  show ?thesis unfolding Teardown_Pending test_step.simps by (rule rel_pair [OF spawn_teardown_same [OF assms(1)]]) simp
qed (use assms(1) in \<open>auto intro!: rel_bind [OF record_same]\<close>)

lemma for_each_same:
  "same_world w w' \<Longrightarrow> \<forall>t \<in> set ts. acyclic_fixture (t_fixture t) \<and> prompt_fixture (t_fixture t) \<Longrightarrow>
     rel_option same_world (for_each d gn ts w) (for_each d gn ts w')"
  by (induction ts arbitrary: w w') (auto intro!: rel_bind [OF run_test_same])

section \<open>Tests side by side\<close>

text \<open>What is assumed of the fixture of a test.\<close>

definition calm :: "test_desc \<Rightarrow> bool" where
  "calm t \<longleftrightarrow> acyclic_fixture (t_fixture t) \<and> prompt_fixture (t_fixture t)"

lemma for_each_concurrent_same:
  "same_world w w' \<Longrightarrow> \<forall>t \<in> set waiting \<union> fst ` set running. calm t \<Longrightarrow>
     rel_option same_world (for_each_concurrent d limit gn waiting running w)
       (for_each_concurrent d limit gn waiting running w')"
proof (induction d limit gn waiting running w arbitrary: w' rule: for_each_concurrent.induct)
  case (1 d limit gn waiting running w)
  obtain c wait w1 where dr: "draw w = ((c, wait), w1)" by (metis surj_pair)
  with "1.prems"(1) obtain w1' where dr': "draw w' = ((c, wait), w1')" and same1: "same_world w1 w1'"
    by (cases "w_sched w") (auto simp: draw_def same_world_def)
  define i where "i = chosen_move (w_admits w) limit waiting running c"
  note i_def' = i_def [unfolded chosen_move_def]
  have adm: "w_admits w' = w_admits w" using "1.prems"(1) by (simp add: same_world_def)
  consider (stop) "waiting = [] \<and> running = []"
    | (advance) "\<not> (waiting = [] \<and> running = [])" "i < length running"
    | (start) "\<not> (waiting = [] \<and> running = [])" "\<not> i < length running" by blast
  then show ?case
  proof cases
    case stop
    with "1.prems" show ?thesis by (simp add: run_simps)
  next
    case advance
    obtain t pc where tp: "running ! i = (t, pc)" by (cases "running ! i")
    have mem: "(t, pc) \<in> set running" using advance(2) tp by (metis nth_mem)
    with "1.prems"(2) have t: "calm t" by force
    from test_step_same [OF same1, of t d gn wait pc] t
    have step: "same_result (test_step d gn t wait pc w1) (test_step d gn t wait pc w1')" by (simp add: calm_def)
    show ?thesis
    proof (cases "test_step d gn t wait pc w1")
      case None
      with step have "test_step d gn t wait pc w1' = None" by simp
      with None show ?thesis
        by (simp add: for_each_concurrent_panic [OF dr i_def tp advance(2)]
            for_each_concurrent_panic [OF dr' i_def [folded adm] tp advance(2)])
    next
      case (Some y)
      obtain pc' w2 where y: "y = (pc', w2)" by (cases y)
      with step Some obtain w2' where step1: "test_step d gn t wait pc w1 = Some (pc', w2)"
        and step2: "test_step d gn t wait pc w1' = Some (pc', w2')" and same2: "same_world w2 w2'"
        by (cases "test_step d gn t wait pc w1'") auto
      let ?running = "if pc' = Test_Done then remove_nth i running else running[i := (t, pc')]"
      have "set ?running \<subseteq> insert (t, pc') (set running)"
        using set_update_subset_insert [of running i "(t, pc')"]
        by (auto simp: remove_nth_def dest: in_set_takeD in_set_dropD)
      then have "\<forall>t \<in> set waiting \<union> fst ` set ?running. calm t" using "1.prems"(2) t by fastforce
      with "1.IH"(1) [OF advance(1) dr [symmetric] refl i_def' advance(2), of "(pc', w2)" pc' w2 w2',
          unfolded tp fst_conv snd_conv, OF step1 refl same2]
      show ?thesis
        by (simp only: for_each_concurrent_advance [OF dr i_def tp advance(2) step1]
            for_each_concurrent_advance [OF dr' i_def [folded adm] tp advance(2) step2])
    qed
  next
    case start
    have "may_start (w_admits w) limit waiting running" using start chosen_move_start by (simp add: i_def)
    then obtain t ts where wt: "waiting = t # ts" by (cases waiting) (auto simp: may_start_def)
    have ng: "\<not> chosen_move (w_admits w) limit waiting running c < length running" using start(2) by (simp add: i_def)
    from "1.IH"(2) [OF start(1) dr [symmetric] refl i_def' start(2) same1] "1.prems"(2) wt
    show ?thesis
      unfolding for_each_concurrent_start [OF start(1) dr ng] for_each_concurrent_start [OF start(1) dr' ng [folded adm]]
      by simp
  qed
qed

section \<open>Runs\<close>

fun prompt_group :: "group \<Rightarrow> bool" where
  "prompt_group (Group n f ts gs) =
     (prompt_fixture f \<and> (\<forall>t \<in> set ts. prompt_fixture (t_fixture t)) \<and> (\<forall>g \<in> set gs. prompt_group g))"

lemma run_group_same:
  "same_world w w' \<Longrightarrow> acyclic_group g \<Longrightarrow> prompt_group g \<Longrightarrow>
     rel_option same_world (run_group ctx ps g w) (run_group ctx ps g w')"
  "same_world w w' \<Longrightarrow> \<forall>g \<in> set gs. acyclic_group g \<and> prompt_group g \<Longrightarrow>
     rel_option same_world (run_groups ctx ps gs w) (run_groups ctx ps gs w')"
proof (induction ctx ps g w and ctx ps gs w arbitrary: w' and w' rule: run_group_run_groups.induct)
  case (1 ctx ps n f ts gs w)
  let ?d = "rc_default_timeout ctx" and ?qs = "ps @ [n]" and ?n = "join_path (ps @ [n])"
  let ?ctx = "update_concurrency_enabled (fx_concurrent f) ctx"
  let ?chosen = "chosen_tests ?ctx ?qs ts"
  let ?rest = "\<lambda>r w. case r of Inl _ \<Rightarrow> task_teardown ?n (teardown_timeout f ?d) w
      | Inr None \<Rightarrow> task_teardown ?n (teardown_timeout f ?d) w
      | Inr (Some a) \<Rightarrow>
          run_groups ?ctx ?qs gs w \<bind> (\<lambda>w.
          for_each_concurrent ?d (Some (rc_concurrency ?ctx)) ?n (concurrent_tests ?ctx ?chosen) [] w \<bind> (\<lambda>w.
          for_each ?d ?n (sequential_tests ?ctx ?chosen) w \<bind> (\<lambda>w.
          task_teardown ?n (teardown_timeout f ?d) (drop_arc a w))))"
  have f: "acyclic_fixture f" "prompt_fixture f" using "1.prems" by simp_all
  have ts: "\<forall>t \<in> set ?chosen. calm t" using "1.prems" by (auto simp: chosen_tests_def calm_def)
  have subs: "\<forall>g \<in> set gs. acyclic_group g \<and> prompt_group g" using "1.prems" by simp
  have rest: "rel_option same_world (?rest r v) (?rest r v')"
    if e: "task_setup ?n TaskGroup f (setup_timeout f ?d) w = Some (r, v)" and v: "same_world v v'" for v v' r
  proof (cases r rule: setup_answer)
    case (passed a)
    from "1.IH" [OF refl refl refl e refl passed refl refl refl v subs]
    have groups: "rel_option same_world (run_groups ?ctx ?qs gs v) (run_groups ?ctx ?qs gs v')" by simp
    show ?thesis using passed ts
      by (auto intro!: rel_bind [OF groups] rel_bind [OF for_each_concurrent_same] rel_bind [OF for_each_same]
          task_teardown_same drop_arc_same simp: concurrent_tests_def sequential_tests_def calm_def)
  qed (simp_all add: v task_teardown_same)
  show ?case unfolding run_group.simps Let_def
  proof (rule rel_bind_eq [OF task_setup_same [OF "1.prems"(1) f]])
    fix x x' assume e: "task_setup ?n TaskGroup f (setup_timeout f ?d) w = Some x" and x: "rel_prod (=) same_world x x'"
    obtain r v v' where "x = (r, v)" "x' = (r, v')" "same_world v v'" using x by (cases x; cases x') auto
    with rest e show "rel_option same_world (case_prod ?rest x) (case_prod ?rest x')" by simp
  qed
next
  case (3 ctx ps g gs w)
  then show ?case by (auto intro!: rel_bind_eq)
qed simp_all

lemma select_tests_same:
  "same_world w w' \<Longrightarrow> same_result (select_tests ctx gn names b w) (select_tests ctx gn names b w')"
  by (induction names arbitrary: b w w') (auto simp: Let_def intro!: rel_bind [OF record_same])

lemma run_world_same:
  assumes "same_world w w'" "acyclic_group g" "prompt_group g"
  shows "rel_option same_world (run_world ctx g w) (run_world ctx g w')"
  unfolding run_world_def
  by (rule rel_bind [OF select_tests_same [OF assms(1)]], rule rel_pair, assumption)
    (auto intro: run_group_same(1) assms)

lemma start_same:
  "same_world (run_start (fixtures_with_permanent h fs) sched) (run_start (fixtures_with_permanent h' fs) sched)"
  using fx_inv_start(1) [of h fs]
  by (simp add: same_world_def alike_def same_fx_def run_start_def fixtures_with_permanent_def prompt_cache_def)

lemma e2etest_run_same:
  assumes "acyclic_group g" "prompt_group g"
  shows "rel_option (rel_prod same_world (=)) (fst (e2etest_run h c g sched)) (fst (e2etest_run h' c g sched)) \<and>
    snd (e2etest_run h c g sched) = snd (e2etest_run h' c g sched)"
proof -
  let ?ctx = "run_ctx (filter_new (filters c) (g_name g) (test_names g)) (default_timeout c) (concurrency c)"
  let ?start = "\<lambda>h. run_start (fixtures_with_permanent h (permanent_fixtures c)) sched"
  have "rel_option same_world (run_world ?ctx g (?start h)) (run_world ?ctx g (?start h'))"
    by (rule run_world_same [OF start_same assms])
  then show ?thesis
    by (cases "run_world ?ctx g (?start h)"; cases "run_world ?ctx g (?start h')")
      (simp_all add: e2etest_run_def run_def Let_def same_world_def)
qed

end
