(* ===== verification/Macros.thy ===== *)
theory Macros
  imports Test_Tree Fixture_Laws
begin

text \<open>
  The macros \<open>group!\<close> and \<open>#[test]\<close>, \<open>crates/e2etest-macros/src/lib.rs\<close>: the parsing of their
  parameters, the checks on the test function, and the generated items as data, with the fixture
  that the generated code is.  The parsers of \<open>syn\<close> for paths, tuples of types and expressions, the
  conversions of \<open>convert_case\<close> and \<open>to_lowercase\<close> are parameters; a parser says how many tokens it
  takes.
\<close>

section \<open>Syntax trees\<close>

datatype token = T_Ident string | T_Eq | T_Comma | T_Other nat

datatype ty = Ty_Path "seg list" | Ty_Other
  and seg = Seg (seg_ident: string) (seg_args: path_args)
  and path_args = No_Args | Angle "generic_arg list" | Parens
  and generic_arg = Arg_Type ty | Arg_Other

type_synonym syn_path = "seg list"

datatype syn_error = Syn_Error | Message string

record 'e syn =
  parse_path :: "token list \<Rightarrow> (syn_path \<times> nat) option"
  parse_fields :: "token list \<Rightarrow> (ty list \<times> nat) option"
  parse_expr :: "token list \<Rightarrow> ('e \<times> nat) option"
  case_constant :: "string \<Rightarrow> string"
  case_pascal :: "string \<Rightarrow> string"
  case_snake :: "string \<Rightarrow> string"
  to_lowercase :: "string \<Rightarrow> string"

section \<open>Names\<close>

definition group_groups_name :: "'e syn \<Rightarrow> string \<Rightarrow> string" where
  "group_groups_name S name = ''_E2ETEST_'' @ case_constant S name @ ''_GROUPS''"

definition group_tests_name :: "'e syn \<Rightarrow> string \<Rightarrow> string" where
  "group_tests_name S name = ''_E2ETEST_'' @ case_constant S name @ ''_TESTS''"

definition group_fixture_name :: "'e syn \<Rightarrow> string \<Rightarrow> string" where
  "group_fixture_name S name = ''_E2etestGroupFixture'' @ case_pascal S name"

definition group_type_name :: "'e syn \<Rightarrow> string \<Rightarrow> string" where
  "group_type_name S name = ''_E2etestGroup'' @ case_pascal S name"

definition test_fixture_name :: "'e syn \<Rightarrow> string \<Rightarrow> string" where
  "test_fixture_name S name = ''_E2etestTestFixture'' @ case_pascal S name"

definition test_type_name :: "'e syn \<Rightarrow> string \<Rightarrow> string" where
  "test_type_name S name = ''_E2etestTest'' @ case_pascal S name"

definition test_register_name :: "'e syn \<Rightarrow> string \<Rightarrow> string" where
  "test_register_name S name = ''_e2etest_register_'' @ case_snake S name"

section \<open>Parsing\<close>

definition quoted :: "string \<Rightarrow> string" where
  "quoted s = CHR 0x27 # s @ [CHR 0x27]"

type_synonym 'a parsed = "syn_error + 'a \<times> token list"

definition parsed_bind :: "'a parsed \<Rightarrow> ('a \<Rightarrow> token list \<Rightarrow> 'b parsed) \<Rightarrow> 'b parsed" where
  "parsed_bind p f = (case p of Inl e \<Rightarrow> Inl e | Inr (x, ts) \<Rightarrow> f x ts)"

definition parse_ident :: "token list \<Rightarrow> string parsed" where
  "parse_ident ts = (case ts of T_Ident x # ts' \<Rightarrow> Inr (x, ts') | _ \<Rightarrow> Inl Syn_Error)"

definition parse_token :: "token \<Rightarrow> token list \<Rightarrow> unit parsed" where
  "parse_token t ts = (case ts of t' # ts' \<Rightarrow> if t' = t then Inr ((), ts') else Inl Syn_Error | [] \<Rightarrow> Inl Syn_Error)"

definition parse_with :: "(token list \<Rightarrow> ('a \<times> nat) option) \<Rightarrow> token list \<Rightarrow> 'a parsed" where
  "parse_with p ts = (case p ts of Some (x, n) \<Rightarrow> Inr (x, drop n ts) | None \<Rightarrow> Inl Syn_Error)"

text \<open>The identifier that has to come first.\<close>

definition parse_keyword :: "string \<Rightarrow> string \<Rightarrow> token list \<Rightarrow> unit parsed" where
  "parse_keyword word message ts =
     parsed_bind (parse_ident ts) (\<lambda>v ts. if v = word then Inr ((), ts) else Inl (Message message))"

text \<open>The fixtures of a group: paths of one segment.\<close>

definition fixture_ident :: "ty \<Rightarrow> syn_error + string" where
  "fixture_ident elem = (case elem of
      Ty_Path segments \<Rightarrow>
        (if length segments = 1 then Inr (seg_ident (hd segments))
         else Inl (Message ''Expected a single pathtuple of Fixture with at least one element''))
    | Ty_Other \<Rightarrow> Inl (Message ''Expected a type implementing Fixture''))"

fun collect :: "('a \<Rightarrow> 'e + 'b) \<Rightarrow> 'a list \<Rightarrow> 'e + 'b list" where
  "collect f [] = Inr []"
| "collect f (x # xs) = (case f x of Inl e \<Rightarrow> Inl e | Inr y \<Rightarrow>
     (case collect f xs of Inl e \<Rightarrow> Inl e | Inr ys \<Rightarrow> Inr (y # ys)))"

record group_params =
  gp_name :: string
  gp_fixtures :: "string list"
  gp_parent :: "syn_path option"

lemma parse_token_shorter: "parse_token t ts = Inr (u, ts') \<Longrightarrow> length ts' < length ts"
  by (auto simp: parse_token_def split: list.splits if_splits)

lemma parse_ident_shorter: "parse_ident ts = Inr (x, ts') \<Longrightarrow> length ts' < length ts"
  by (auto simp: parse_ident_def split: list.splits token.splits)

lemma parse_with_shorter: "parse_with p ts = Inr (x, ts') \<Longrightarrow> length ts' \<le> length ts"
  by (auto simp: parse_with_def split: option.splits)

text \<open>The loop over the optional parameters; the last one of a kind is kept.\<close>

function group_args :: "'e syn \<Rightarrow> group_params \<Rightarrow> token list \<Rightarrow> group_params parsed" where
  "group_args S params ts =
     (if ts = [] then Inr (params, [])
      else case parse_token T_Comma ts of Inl e \<Rightarrow> Inl e | Inr (_, ts1) \<Rightarrow>
        (case parse_ident ts1 of Inl e \<Rightarrow> Inl e | Inr (name, ts2) \<Rightarrow>
          (if name = ''fixtures'' then
             (case parse_token T_Eq ts2 of Inl e \<Rightarrow> Inl e | Inr (_, ts3) \<Rightarrow>
               (case parse_with (parse_fields S) ts3 of Inl e \<Rightarrow> Inl e | Inr (elems, ts4) \<Rightarrow>
                 (case collect fixture_ident elems of Inl e \<Rightarrow> Inl e | Inr fixtures \<Rightarrow>
                   group_args S (params\<lparr>gp_fixtures := fixtures\<rparr>) ts4)))
           else if name = ''parent'' then
             (case parse_token T_Eq ts2 of Inl e \<Rightarrow> Inl e | Inr (_, ts3) \<Rightarrow>
               (case parse_with (parse_path S) ts3 of Inl e \<Rightarrow> Inl e | Inr (path, ts4) \<Rightarrow>
                 group_args S (params\<lparr>gp_parent := Some path\<rparr>) ts4))
           else Inl (Message (''unexpected parameter, expected '' @ quoted ''fixtures'' @ '' or '' @ quoted ''parent'')))))"
  by pat_completeness auto

termination
  by (relation "measure (\<lambda>(S, params, ts). length ts)")
    (auto dest!: parse_token_shorter parse_ident_shorter parse_with_shorter dest: sym)

declare group_args.simps [simp del]

definition parse_group_params :: "'e syn \<Rightarrow> token list \<Rightarrow> group_params parsed" where
  "parse_group_params S ts =
     parsed_bind (parse_keyword ''name'' (''expected '' @ quoted ''name'' @ '' token'') ts) (\<lambda>_ ts.
     parsed_bind (parse_token T_Eq ts) (\<lambda>_ ts.
     parsed_bind (parse_ident ts) (\<lambda>name ts.
     group_args S \<lparr>gp_name = to_lowercase S name, gp_fixtures = [], gp_parent = None\<rparr> ts)))"

record 'e test_params =
  tp_group :: syn_path
  tp_timeout :: "'e option"

function test_args :: "'e syn \<Rightarrow> 'e test_params \<Rightarrow> token list \<Rightarrow> 'e test_params parsed" where
  "test_args S params ts =
     (if ts = [] then Inr (params, [])
      else case parse_token T_Comma ts of Inl e \<Rightarrow> Inl e | Inr (_, ts1) \<Rightarrow>
        (case parse_ident ts1 of Inl e \<Rightarrow> Inl e | Inr (name, ts2) \<Rightarrow>
          (if name = ''timeout'' then
             (case parse_token T_Eq ts2 of Inl e \<Rightarrow> Inl e | Inr (_, ts3) \<Rightarrow>
               (case parse_with (parse_expr S) ts3 of Inl e \<Rightarrow> Inl e | Inr (timeout, ts4) \<Rightarrow>
                 test_args S (params\<lparr>tp_timeout := Some timeout\<rparr>) ts4))
           else Inl (Message (''unexpected parameter, expected '' @ quoted ''timeout'')))))"
  by pat_completeness auto

termination
  by (relation "measure (\<lambda>(S, params, ts). length ts)")
    (auto dest!: parse_token_shorter parse_ident_shorter parse_with_shorter dest: sym)

declare test_args.simps [simp del]

definition parse_test_params :: "'e syn \<Rightarrow> token list \<Rightarrow> 'e test_params parsed" where
  "parse_test_params S ts =
     parsed_bind (parse_keyword ''group'' (''expected '' @ quoted ''group'' @ '' token'') ts) (\<lambda>_ ts.
     parsed_bind (parse_token T_Eq ts) (\<lambda>_ ts.
     parsed_bind (parse_with (parse_path S) ts) (\<lambda>group ts.
     test_args S \<lparr>tp_group = group, tp_timeout = None\<rparr> ts)))"

section \<open>Generated groups\<close>

text \<open>The items that \<open>generate_group\<close> writes: their names, and the slice a subgroup is put in.\<close>

record group_items =
  gi_tests_slice :: string
  gi_groups_slice :: string
  gi_fixture_type :: string
  gi_fixtures :: "string list"
  gi_group_type :: string
  gi_name :: string
  gi_function :: string
  gi_registered_in :: "syn_path option"

definition with_last_ident :: "syn_path \<Rightarrow> string \<Rightarrow> syn_path" where
  "with_last_ident path name = butlast path @ [Seg name (seg_args (last path))]"

definition generate_group :: "'e syn \<Rightarrow> group_params \<Rightarrow> syn_error + group_items" where
  "generate_group S params =
     (let name = gp_name params;
          register_group = (case gp_parent params of
              None \<Rightarrow> Inr None
            | Some parent \<Rightarrow>
                (if parent = [] then Inl (Message ''Expected parent path to have at least one segment'')
                 else Inr (Some (with_last_ident parent (group_groups_name S (seg_ident (last parent)))))))
      in case register_group of
           Inl e \<Rightarrow> Inl e
         | Inr slice \<Rightarrow> Inr \<lparr>gi_tests_slice = group_tests_name S name, gi_groups_slice = group_groups_name S name,
             gi_fixture_type = group_fixture_name S name, gi_fixtures = gp_fixtures params,
             gi_group_type = group_type_name S name, gi_name = name, gi_function = name,
             gi_registered_in = slice\<rparr>)"

text \<open>A macro that fails is a compile error.\<close>

definition group_macro :: "'e syn \<Rightarrow> token list \<Rightarrow> syn_error + group_items" where
  "group_macro S item = (case parse_group_params S item of Inl e \<Rightarrow> Inl e | Inr (params, _) \<Rightarrow> generate_group S params)"

section \<open>Generated tests\<close>

datatype fn_arg = Receiver | Typed ty

record 'b item_fn =
  fn_ident :: string
  fn_async :: bool
  fn_returns_unit :: bool
  fn_inputs :: "fn_arg list"
  fn_block :: 'b

text \<open>An argument of type \<open>Arc<Fixture>\<close>; only the first segment and the first argument are looked at.\<close>

definition fixture_arg :: "fn_arg \<Rightarrow> syn_error + syn_path" where
  "fixture_arg arg = (case arg of
      Typed (Ty_Path (Seg ident (Angle (Arg_Type (Ty_Path fixture_type) # _)) # _)) \<Rightarrow>
        (if ident = ''Arc'' then Inr fixture_type else Inl (Message ''Expected arguments of type Arc<Fixture>''))
    | _ \<Rightarrow> Inl (Message ''Expected arguments of type Arc<Fixture>''))"

definition take_fixtures :: "'b item_fn \<Rightarrow> syn_error + syn_path list" where
  "take_fixtures run = (case collect fixture_arg (fn_inputs run) of
      Inl e \<Rightarrow> Inl e
    | Inr fixtures \<Rightarrow>
        (if fixtures = [] then Inl (Message ''Expected the test function to have at least one argument of type Arc<Fixture>'')
         else Inr fixtures))"

record 'e test_items =
  ti_fixture_type :: string
  ti_fixtures :: "syn_path list"
  ti_test_type :: string
  ti_name :: string
  ti_timeout :: "'e option"
  ti_register :: string
  ti_registered_in :: syn_path

definition generate_test :: "'e syn \<Rightarrow> 'e test_params \<Rightarrow> 'b item_fn \<Rightarrow> syn_error + 'e test_items" where
  "generate_test S params run =
     (if tp_group params = [] then Inl (Message ''Expected group path to have at least one segment'')
      else let group_name = seg_ident (last (tp_group params));
               group_tests = with_last_ident (tp_group params) (group_tests_name S group_name);
               name = fn_ident run in
        if \<not> fn_async run then Inl (Message ''Expected the test function to be async'')
        else if \<not> fn_returns_unit run then Inl (Message ''Expected the test function to return ()'')
        else (case take_fixtures run of
            Inl e \<Rightarrow> Inl e
          | Inr fixtures \<Rightarrow> Inr \<lparr>ti_fixture_type = test_fixture_name S name, ti_fixtures = fixtures,
              ti_test_type = test_type_name S name, ti_name = name, ti_timeout = tp_timeout params,
              ti_register = test_register_name S name, ti_registered_in = group_tests\<rparr>))"

definition test_macro :: "'e syn \<Rightarrow> token list \<Rightarrow> 'b item_fn \<Rightarrow> syn_error + 'e test_items" where
  "test_macro S attr run = (case parse_test_params S attr of Inl e \<Rightarrow> Inl e | Inr (params, _) \<Rightarrow> generate_test S params run)"

section \<open>The generated fixture\<close>

text \<open>
  \<open>Some(Self(setup.setup::<A>().await?, setup.setup::<B>().await?, ..))\<close>: the calls in order, \<open>None\<close> as
  soon as one of them is.
\<close>

definition generated_setup :: "fixture list \<Rightarrow> setup_code" where
  "generated_setup fs = foldr (\<lambda>f rest. Call_Setup f rest Return_None) fs (Return_Some (map fx_type fs))"

definition generated_concurrent :: "fixture list \<Rightarrow> bool" where
  "generated_concurrent fs = foldr (\<lambda>f b. fx_concurrent f \<and> b) fs True"

definition generated_fixture :: "type_id \<Rightarrow> fixture list \<Rightarrow> fixture" where
  "generated_fixture t fs =
     Fixture t default_timeout_setup default_timeout_teardown (generated_concurrent fs) (generated_setup fs) (Ready_After 0)"

text \<open>The reference: the fixtures are set up one after the other until one of them is not.\<close>

fun setup_each :: "fixture list \<Rightarrow> duration \<Rightarrow> fixtures \<Rightarrow> (code_end \<times> duration) \<times> fixtures" where
  "setup_each [] b s = ((Code_Some [], b), s)"
| "setup_each (f # fs) b s =
     (case inner_setup f b s of
        ((Setup_Some a, b'), s') \<Rightarrow>
          (case setup_each fs b' s' of
             ((Code_Some ts, b''), s'') \<Rightarrow>
               ((Code_Some ((case a of Cached_Arc t \<Rightarrow> [t] | Permanent_Arc v \<Rightarrow> []) @ ts), b''), s'')
           | r \<Rightarrow> r)
      | ((Setup_None, b'), s') \<Rightarrow> ((Code_None, b'), s')
      | ((Setup_Aborted, b'), s') \<Rightarrow> ((Code_Aborted, b'), s'))"

end
