(* ===== verification/Registry.thy ===== *)
theory Registry
  imports Macros Run_Selection
begin

text \<open>
  From declarations to the tree of groups.  The macros of \<open>crates/e2etest-macros/src/lib.rs\<close> generate
  for each group two distributed slices, one for its tests and one for its subgroups, and put each
  test and each subgroup into a slice of its parent; \<open>tests()\<close> and \<open>groups()\<close> of the generated type
  build the members of the two slices.  Here a crate is the list of the generated items with the
  modules that they are in, in the order in which the linker collects them, which is arbitrary.

  What the compiler does with a path is a parameter (\<open>linking\<close>): the static that a path denotes in a
  module, the fixture that it denotes, the identity of a generated type, the value of an expression.
  The body of a test is the future that the user wrote.

  The code builds the tree by recursion over the slices.  Groups that are their own ancestors
  compile, and the recursion over them does not end; so the tree is built with fuel, and
  \<^term>\<open>None\<close> is a recursion deeper than the fuel.
\<close>

section \<open>Generated items in their modules\<close>

type_synonym module_path = "string list"
type_synonym static_path = "string list"

record 'e linking =
  resolve :: "module_path \<Rightarrow> syn_path \<Rightarrow> static_path"
  fixture_named :: "module_path \<Rightarrow> syn_path \<Rightarrow> fixture"
  type_number :: "static_path \<Rightarrow> type_id"
  duration_of :: "'e \<Rightarrow> duration"

type_synonym group_decl = "module_path \<times> group_items"

datatype 'e decl = Group_Decl group_decl | Test_Decl module_path "'e test_items" fut

fun tests_static :: "group_decl \<Rightarrow> static_path" where
  "tests_static (m, g) = m @ [gi_tests_slice g]"

fun groups_static :: "group_decl \<Rightarrow> static_path" where
  "groups_static (m, g) = m @ [gi_groups_slice g]"

definition group_name :: "group_decl \<Rightarrow> string" where
  "group_name x = gi_name (snd x)"

text \<open>The value of the generated test type, and the members of a slice.\<close>

definition generated_test :: "'e linking \<Rightarrow> module_path \<Rightarrow> 'e test_items \<Rightarrow> fut \<Rightarrow> test_desc" where
  "generated_test L m t body =
     \<lparr>t_name = ti_name t, t_timeout = map_option (duration_of L) (ti_timeout t),
      t_fixture = generated_fixture (type_number L (m @ [ti_fixture_type t]))
        (map (fixture_named L m) (ti_fixtures t)),
      t_body = body\<rparr>"

definition in_tests_slice :: "'e linking \<Rightarrow> static_path \<Rightarrow> 'e decl \<Rightarrow> bool" where
  "in_tests_slice L slice d =
     (case d of Test_Decl m t body \<Rightarrow> resolve L m (ti_registered_in t) = slice | Group_Decl x \<Rightarrow> False)"

definition in_groups_slice :: "'e linking \<Rightarrow> static_path \<Rightarrow> 'e decl \<Rightarrow> bool" where
  "in_groups_slice L slice d =
     (case d of Group_Decl (m, g) \<Rightarrow> map_option (resolve L m) (gi_registered_in g) = Some slice
      | Test_Decl m t body \<Rightarrow> False)"

fun test_of_decl :: "'e linking \<Rightarrow> 'e decl \<Rightarrow> test_desc option" where
  "test_of_decl L (Test_Decl m t body) = Some (generated_test L m t body)"
| "test_of_decl L (Group_Decl x) = None"

fun group_of_decl :: "'e decl \<Rightarrow> group_decl option" where
  "group_of_decl (Group_Decl x) = Some x"
| "group_of_decl (Test_Decl m t body) = None"

definition slice_tests :: "'e linking \<Rightarrow> 'e decl list \<Rightarrow> static_path \<Rightarrow> test_desc list" where
  "slice_tests L ds slice = List.map_filter (test_of_decl L) (filter (in_tests_slice L slice) ds)"

definition slice_groups :: "'e linking \<Rightarrow> 'e decl list \<Rightarrow> static_path \<Rightarrow> group_decl list" where
  "slice_groups L ds slice = List.map_filter group_of_decl (filter (in_groups_slice L slice) ds)"

definition group_fixture :: "'e linking \<Rightarrow> group_decl \<Rightarrow> fixture" where
  "group_fixture L x =
     generated_fixture (type_number L (fst x @ [gi_fixture_type (snd x)]))
       (map (\<lambda>f. fixture_named L (fst x) [Seg f No_Args]) (gi_fixtures (snd x)))"

fun link_group :: "'e linking \<Rightarrow> 'e decl list \<Rightarrow> nat \<Rightarrow> group_decl \<Rightarrow> group option" where
  "link_group L ds 0 x = None"
| "link_group L ds (Suc n) x =
     map_option (Group (group_name x) (group_fixture L x) (slice_tests L ds (tests_static x)))
       (those (map (link_group L ds n) (slice_groups L ds (groups_static x))))"

section \<open>What the compiler and the user grant\<close>

definition group_decls :: "'e decl list \<Rightarrow> group_decl list" where
  "group_decls ds = List.map_filter group_of_decl ds"

text \<open>Items of one module have different names.\<close>

definition unique_statics :: "'e decl list \<Rightarrow> bool" where
  "unique_statics ds \<longleftrightarrow> distinct (group_decls ds) \<and> distinct (map tests_static (group_decls ds)) \<and>
     distinct (map groups_static (group_decls ds))"

text \<open>The members of a group have different names, which are identifiers.\<close>

definition proper_names :: "'e linking \<Rightarrow> 'e decl list \<Rightarrow> bool" where
  "proper_names L ds \<longleftrightarrow> (\<forall>x \<in> set (group_decls ds). plain (group_name x) \<and>
     (\<forall>t \<in> set (slice_tests L ds (tests_static x)). plain (t_name t)) \<and>
     distinct (map group_name (slice_groups L ds (groups_static x)) @
       map t_name (slice_tests L ds (tests_static x))))"

definition subgroup_of :: "'e linking \<Rightarrow> 'e decl list \<Rightarrow> (group_decl \<times> group_decl) set" where
  "subgroup_of L ds = {(c, x). x \<in> set (group_decls ds) \<and> c \<in> set (slice_groups L ds (groups_static x))}"

text \<open>The groups below a group, with the names on the way.\<close>

inductive lies_below :: "'e linking \<Rightarrow> 'e decl list \<Rightarrow> group_decl \<Rightarrow> group_decl \<Rightarrow> string list \<Rightarrow> bool"
  for L ds where
  self: "lies_below L ds x x []"
| sub: "c \<in> set (slice_groups L ds (groups_static x)) \<Longrightarrow> lies_below L ds c y p \<Longrightarrow>
     lies_below L ds x y (group_name c # p)"

inductive_simps lies_below_Nil: "lies_below L ds x y []"
inductive_simps lies_below_Cons: "lies_below L ds x y (a # p)"

section \<open>Members of slices\<close>

lemma slice_groups_decls: "c \<in> set (slice_groups L ds slice) \<Longrightarrow> c \<in> set (group_decls ds)"
  by (auto simp: slice_groups_def group_decls_def set_map_filter)

lemma slice_groups_iff:
  "(m, g) \<in> set (slice_groups L ds slice) \<longleftrightarrow>
     (m, g) \<in> set (group_decls ds) \<and> map_option (resolve L m) (gi_registered_in g) = Some slice"
proof -
  have "group_of_decl d = Some (m, g) \<longleftrightarrow> d = Group_Decl (m, g)" for d :: "'a decl"
    by (cases d) auto
  then show ?thesis
    by (auto simp: slice_groups_def group_decls_def set_map_filter in_groups_slice_def)
qed

lemma one_slice: "c \<in> set (slice_groups L ds s) \<Longrightarrow> c \<in> set (slice_groups L ds s') \<Longrightarrow> s = s'"
  by (cases c) (auto simp: slice_groups_iff)

lemma slice_tests_iff:
  "t \<in> set (slice_tests L ds slice) \<longleftrightarrow>
     (\<exists>m ti body. Test_Decl m ti body \<in> set ds \<and> resolve L m (ti_registered_in ti) = slice \<and>
        t = generated_test L m ti body)"
proof -
  have "test_of_decl L d = Some t \<longleftrightarrow> (\<exists>m ti body. d = Test_Decl m ti body \<and> t = generated_test L m ti body)" for d
    by (cases d) auto
  then show ?thesis
    by (fastforce simp: slice_tests_def set_map_filter in_tests_slice_def)
qed

lemma distinct_map_filter_filter: "distinct (List.map_filter f xs) \<Longrightarrow> distinct (List.map_filter f (filter P xs))"
  by (induction xs) (auto simp: List.map_filter_simps set_map_filter split: option.splits)

lemma distinct_slice_groups: "unique_statics ds \<Longrightarrow> distinct (slice_groups L ds slice)"
  by (simp add: unique_statics_def group_decls_def slice_groups_def distinct_map_filter_filter)

lemma those_eq_Some: "those xs = Some ys \<longleftrightarrow> xs = map Some ys"
  by (induction xs arbitrary: ys) (auto split: option.splits)

lemma those_None: "those xs = None \<longleftrightarrow> None \<in> set xs"
  by (induction xs) (auto split: option.splits)

lemma link_group_Some:
  "link_group L ds (Suc n) x = Some tree \<longleftrightarrow>
     (\<exists>gs. map (link_group L ds n) (slice_groups L ds (groups_static x)) = map Some gs \<and>
        tree = Group (group_name x) (group_fixture L x) (slice_tests L ds (tests_static x)) gs)"
  by (auto simp: those_eq_Some)

lemma link_group_None:
  "link_group L ds (Suc n) x = None \<longleftrightarrow>
     (\<exists>c \<in> set (slice_groups L ds (groups_static x)). link_group L ds n c = None)"
  unfolding link_group.simps option.map_disc_iff those_None set_map image_iff by metis

text \<open>The subtrees of a linked group.\<close>

lemma link_group_children:
  assumes "map (link_group L ds n) cs = map Some gs"
  shows "g \<in> set gs \<Longrightarrow> \<exists>c \<in> set cs. link_group L ds n c = Some g"
    and "c \<in> set cs \<Longrightarrow> \<exists>g \<in> set gs. link_group L ds n c = Some g"
  using assms by (metis (mono_tags) imageE imageI list.set_map)+

lemma map_of_children:
  assumes "map f cs = map Some gs" and "\<And>c g. c \<in> set cs \<Longrightarrow> f c = Some g \<Longrightarrow> F g = G c"
  shows "map F gs = map G cs"
proof (rule nth_equalityI)
  show l: "length (map F gs) = length (map G cs)" using assms(1) by (metis length_map)
  fix i assume "i < length (map F gs)"
  with l have i: "i < length cs" "i < length gs" by simp_all
  then have "f (cs ! i) = Some (gs ! i)" using assms(1) by (metis nth_map)
  with assms(2) i show "map F gs ! i = map G cs ! i" by simp
qed

lemma test_paths_Group:
  "(p, t) \<in> set (test_paths (Group n f ts gs)) \<longleftrightarrow>
     p = [] \<and> t \<in> set ts \<or> (\<exists>g \<in> set gs. \<exists>q. p = g_name g # q \<and> (q, t) \<in> set (test_paths g))"
proof -
  have "(p, t) \<in> (\<lambda>(q, t). (g_name g # q, t)) ` A \<longleftrightarrow> (\<exists>q. p = g_name g # q \<and> (q, t) \<in> A)" for g A
    by (auto simp: image_iff intro: bexI [rotated])
  then show ?thesis by auto
qed

lemma link_group_name: "link_group L ds n x = Some tree \<Longrightarrow> g_name tree = group_name x"
  by (cases n) auto

section \<open>The tree is what was declared\<close>

lemma linked_tests:
  "link_group L ds n x = Some tree \<Longrightarrow>
     (p, t) \<in> set (test_paths tree) \<longleftrightarrow>
       (\<exists>y. lies_below L ds x y p \<and> t \<in> set (slice_tests L ds (tests_static y)))"
proof (induction n arbitrary: x tree p)
  case (Suc n)
  from iffD1 [OF link_group_Some Suc.prems] obtain gs where
    gs: "map (link_group L ds n) (slice_groups L ds (groups_static x)) = map Some gs" and
    tree: "tree = Group (group_name x) (group_fixture L x) (slice_tests L ds (tests_static x)) gs"
    by blast
  have sub: "(\<exists>g \<in> set gs. \<exists>q. p = g_name g # q \<and> (q, t) \<in> set (test_paths g)) \<longleftrightarrow>
    (\<exists>c \<in> set (slice_groups L ds (groups_static x)). \<exists>q y. p = group_name c # q \<and> lies_below L ds c y q \<and>
       t \<in> set (slice_tests L ds (tests_static y)))"
    (is "?L \<longleftrightarrow> ?R")
  proof
    assume ?L
    then obtain g q where g: "g \<in> set gs" "p = g_name g # q" "(q, t) \<in> set (test_paths g)" by blast
    from link_group_children(1) [OF gs g(1)] obtain c where
      c: "c \<in> set (slice_groups L ds (groups_static x))" "link_group L ds n c = Some g" by blast
    with Suc.IH [OF c(2)] g link_group_name [OF c(2)] show ?R by blast
  next
    assume ?R
    then obtain c q y where c: "c \<in> set (slice_groups L ds (groups_static x))" "p = group_name c # q"
      "lies_below L ds c y q" "t \<in> set (slice_tests L ds (tests_static y))" by blast
    from link_group_children(2) [OF gs c(1)] obtain g where g: "g \<in> set gs" "link_group L ds n c = Some g" by blast
    from Suc.IH [OF g(2)] c(3,4) have "(q, t) \<in> set (test_paths g)" by blast
    with c(2) g(1) link_group_name [OF g(2)] show ?L by (intro bexI [of _ g] exI [of _ q]) simp_all
  qed
  have "(p, t) \<in> set (test_paths tree) \<longleftrightarrow>
      (p = [] \<and> t \<in> set (slice_tests L ds (tests_static x))) \<or>
      (\<exists>g \<in> set gs. \<exists>q. p = g_name g # q \<and> (q, t) \<in> set (test_paths g))"
    unfolding tree by (rule test_paths_Group)
  also have "\<dots> \<longleftrightarrow> (\<exists>y. lies_below L ds x y p \<and> t \<in> set (slice_tests L ds (tests_static y)))"
  proof (cases p)
    case Nil
    then show ?thesis by (simp add: lies_below_Nil)
  next
    case (Cons a q)
    show ?thesis unfolding sub unfolding Cons lies_below_Cons by auto
  qed
  finally show ?case .
qed simp

lemma linked_well_named:
  assumes "proper_names L ds"
  shows "x \<in> set (group_decls ds) \<Longrightarrow> link_group L ds n x = Some tree \<Longrightarrow> well_named tree"
proof (induction n arbitrary: x tree)
  case (Suc n)
  from iffD1 [OF link_group_Some Suc.prems(2)] obtain gs where
    gs: "map (link_group L ds n) (slice_groups L ds (groups_static x)) = map Some gs" and
    tree: "tree = Group (group_name x) (group_fixture L x) (slice_tests L ds (tests_static x)) gs"
    by blast
  have "map g_name gs = map group_name (slice_groups L ds (groups_static x))"
    using gs by (rule map_of_children) (rule link_group_name)
  moreover have "well_named g" if g: "g \<in> set gs" for g
    using link_group_children(1) [OF gs g] Suc.IH slice_groups_decls by metis
  ultimately show ?case
    using assms Suc.prems(1) unfolding proper_names_def tree by auto
qed simp

section \<open>Fuel\<close>

lemma subgroup_of_decls: "(c, x) \<in> (subgroup_of L ds)\<^sup>+ \<Longrightarrow> c \<in> set (group_decls ds) \<and> x \<in> set (group_decls ds)"
proof (induction rule: trancl_induct)
  case (base y)
  then show ?case by (auto simp: subgroup_of_def dest: slice_groups_decls)
next
  case (step y z)
  then show ?case by (auto simp: subgroup_of_def)
qed

lemma link_group_fuel:
  assumes "acyclic (subgroup_of L ds)"
  shows "x \<in> set (group_decls ds) \<Longrightarrow> card {c. (c, x) \<in> (subgroup_of L ds)\<^sup>+} < n \<Longrightarrow> link_group L ds n x \<noteq> None"
proof (induction n arbitrary: x)
  case (Suc n)
  let ?below = "\<lambda>x. {c. (c, x) \<in> (subgroup_of L ds)\<^sup>+}"
  have "link_group L ds n c \<noteq> None" if c: "c \<in> set (slice_groups L ds (groups_static x))" for c
  proof (rule Suc.IH)
    show "c \<in> set (group_decls ds)" using c by (rule slice_groups_decls)
    have s: "(c, x) \<in> subgroup_of L ds" using c Suc.prems(1) by (simp add: subgroup_of_def)
    have "?below x \<subseteq> set (group_decls ds)" using subgroup_of_decls by fast
    then have "finite (?below x)" by (rule finite_subset) simp
    moreover have "?below c \<subseteq> ?below x" using s by (auto intro: trancl_into_trancl)
    moreover have "c \<notin> ?below c" "c \<in> ?below x"
      using assms s unfolding acyclic_def by blast+
    ultimately have "card (?below c) < card (?below x)"
      by (intro psubset_card_mono) auto
    with Suc.prems(2) show "card (?below c) < n" by simp
  qed
  then show ?case unfolding link_group_None by blast
qed simp

lemma length_group_decls: "length (group_decls ds) \<le> length ds"
  by (induction ds) (auto simp: group_decls_def List.map_filter_simps split: option.splits)

text \<open>As much fuel as there are declarations is enough, unless a group is its own ancestor.\<close>

lemma link_group_ends:
  assumes "acyclic (subgroup_of L ds)" and "x \<in> set (group_decls ds)"
  obtains tree where "link_group L ds (length ds) x = Some tree"
proof -
  let ?below = "{c. (c, x) \<in> (subgroup_of L ds)\<^sup>+}"
  have "?below \<subset> set (group_decls ds)"
    using subgroup_of_decls [of _ x L ds] assms unfolding acyclic_def by blast
  then have "card ?below < card (set (group_decls ds))" by (intro psubset_card_mono) simp
  also have "\<dots> \<le> length ds" using card_length length_group_decls by (rule order_trans)
  finally show ?thesis using link_group_fuel [OF assms] that by blast
qed

text \<open>Conversely the recursion over a group that is its own ancestor ends with no fuel.\<close>

lemma link_group_cyclic: "(x, x) \<in> (subgroup_of L ds)\<^sup>+ \<Longrightarrow> link_group L ds n x = None"
proof (induction n arbitrary: x)
  case (Suc n)
  from tranclD2 [OF Suc.prems] obtain c where
    c: "(c, x) \<in> subgroup_of L ds" and "(x, c) \<in> (subgroup_of L ds)\<^sup>*" by blast
  then have "(c, c) \<in> (subgroup_of L ds)\<^sup>+" by (rule rtrancl_into_trancl2)
  then have "link_group L ds n c = None" by (rule Suc.IH)
  moreover have "c \<in> set (slice_groups L ds (groups_static x))" using c by (simp add: subgroup_of_def)
  ultimately show ?case unfolding link_group_None by blast
qed simp

section \<open>How many tests there are\<close>

fun groups_below :: "'e linking \<Rightarrow> 'e decl list \<Rightarrow> nat \<Rightarrow> group_decl \<Rightarrow> group_decl list" where
  "groups_below L ds 0 x = []"
| "groups_below L ds (Suc n) x =
     x # concat (map (groups_below L ds n) (slice_groups L ds (groups_static x)))"

lemma linked_size:
  "link_group L ds n x = Some tree \<Longrightarrow>
     length (test_paths tree) = (\<Sum>y\<leftarrow>groups_below L ds n x. length (slice_tests L ds (tests_static y)))"
proof (induction n arbitrary: x tree)
  case (Suc n)
  from iffD1 [OF link_group_Some Suc.prems] obtain gs where
    gs: "map (link_group L ds n) (slice_groups L ds (groups_static x)) = map Some gs" and
    tree: "tree = Group (group_name x) (group_fixture L x) (slice_tests L ds (tests_static x)) gs"
    by blast
  have "map (\<lambda>g. length (test_paths g)) gs =
      map (\<lambda>c. \<Sum>y\<leftarrow>groups_below L ds n c. length (slice_tests L ds (tests_static y)))
        (slice_groups L ds (groups_static x))"
    using gs by (rule map_of_children) (rule Suc.IH)
  then show ?case
    by (simp add: tree length_concat sum_list_map_concat comp_def)
qed simp

lemma groups_below_iff:
  "link_group L ds n x = Some tree \<Longrightarrow> y \<in> set (groups_below L ds n x) \<longleftrightarrow> (\<exists>p. lies_below L ds x y p)"
proof (induction n arbitrary: x tree)
  case (Suc n)
  have IH: "y \<in> set (groups_below L ds n c) \<longleftrightarrow> (\<exists>p. lies_below L ds c y p)"
    if "c \<in> set (slice_groups L ds (groups_static x))" for c
  proof -
    from Suc.prems that have "link_group L ds n c \<noteq> None" by (metis link_group_None option.distinct(1))
    with Suc.IH show ?thesis by blast
  qed
  have "(\<exists>p. lies_below L ds x y p) \<longleftrightarrow>
      y = x \<or> (\<exists>c \<in> set (slice_groups L ds (groups_static x)). \<exists>p. lies_below L ds c y p)"
    by (auto intro: lies_below.intros elim: lies_below.cases)
  with IH show ?case by auto
qed simp

lemma groups_below_reach:
  "x \<in> set (group_decls ds) \<Longrightarrow> y \<in> set (groups_below L ds n x) \<Longrightarrow> (y, x) \<in> (subgroup_of L ds)\<^sup>*"
proof (induction n arbitrary: x)
  case (Suc n)
  show ?case
  proof (cases "y = x")
    case False
    with Suc.prems obtain c where c: "c \<in> set (slice_groups L ds (groups_static x))"
      "y \<in> set (groups_below L ds n c)" by auto
    with Suc.IH slice_groups_decls have "(y, c) \<in> (subgroup_of L ds)\<^sup>*" by blast
    moreover have "(c, x) \<in> subgroup_of L ds" using c(1) Suc.prems(1) by (simp add: subgroup_of_def)
    ultimately show ?thesis by (rule rtrancl_into_rtrancl)
  qed simp
qed simp

text \<open>A group is in one slice only, so no group comes up twice.\<close>

lemma single_valued_subgroup_of:
  assumes "unique_statics ds"
  shows "single_valued (subgroup_of L ds)"
proof (rule single_valuedI)
  fix c x y assume "(c, x) \<in> subgroup_of L ds" and "(c, y) \<in> subgroup_of L ds"
  then have xy: "x \<in> set (group_decls ds)" "y \<in> set (group_decls ds)"
    and "c \<in> set (slice_groups L ds (groups_static x))" "c \<in> set (slice_groups L ds (groups_static y))"
    by (simp_all only: subgroup_of_def mem_Collect_eq case_prod_conv)
  from one_slice [OF this(3,4)] have "groups_static x = groups_static y" .
  moreover have "inj_on groups_static (set (group_decls ds))"
    using assms by (simp only: unique_statics_def distinct_map)
  ultimately show "x = y" using xy by (metis inj_onD)
qed

lemma siblings_disjoint:
  assumes "unique_statics ds" "acyclic (subgroup_of L ds)"
    and "(c, x) \<in> subgroup_of L ds" "(d, x) \<in> subgroup_of L ds" "(y, c) \<in> (subgroup_of L ds)\<^sup>*" "(y, d) \<in> (subgroup_of L ds)\<^sup>*"
  shows "c = d"
proof (rule ccontr)
  assume ne: "c \<noteq> d"
  have loop: False if "(a, b) \<in> (subgroup_of L ds)\<^sup>*" "a \<noteq> b" "(a, x) \<in> subgroup_of L ds" "(b, x) \<in> subgroup_of L ds" for a b
  proof -
    from that(1,2) obtain z where "(a, z) \<in> subgroup_of L ds" "(z, b) \<in> (subgroup_of L ds)\<^sup>*"
      by (meson converse_rtranclE)
    with that(3) single_valued_subgroup_of [OF assms(1)] have "(x, b) \<in> (subgroup_of L ds)\<^sup>*"
      by (metis single_valuedD)
    from this that(4) have "(b, b) \<in> (subgroup_of L ds)\<^sup>+" by (meson rtrancl_into_trancl2)
    with assms(2) show False by (simp add: acyclic_def del: split_paired_All)
  qed
  from single_valued_confluent [OF single_valued_subgroup_of [OF assms(1)] assms(5,6)] loop ne assms(3,4)
  show False by metis
qed

lemma distinct_groups_below:
  assumes "unique_statics ds" "acyclic (subgroup_of L ds)"
  shows "x \<in> set (group_decls ds) \<Longrightarrow> distinct (groups_below L ds n x)"
proof (induction n arbitrary: x)
  case (Suc n)
  let ?cs = "slice_groups L ds (groups_static x)"
  have child: "(c, x) \<in> subgroup_of L ds" if "c \<in> set ?cs" for c
    using that Suc.prems by (simp add: subgroup_of_def)
  have reach: "(y, c) \<in> (subgroup_of L ds)\<^sup>*" if "c \<in> set ?cs" "y \<in> set (groups_below L ds n c)" for c y
    using that slice_groups_decls groups_below_reach by blast
  have "x \<notin> set (groups_below L ds n c)" if c: "c \<in> set ?cs" for c
  proof
    assume "x \<in> set (groups_below L ds n c)"
    with reach [OF c] child [OF c] have "(x, x) \<in> (subgroup_of L ds)\<^sup>+" by (meson rtrancl_into_trancl1)
    with assms(2) show False by (simp add: acyclic_def del: split_paired_All)
  qed
  moreover have "distinct (concat (map (groups_below L ds n) ?cs))"
  proof (rule distinct_concat_map)
    show "distinct ?cs" using assms(1) by (rule distinct_slice_groups)
    show "distinct (groups_below L ds n c)" if "c \<in> set ?cs" for c
      using that slice_groups_decls Suc.IH by blast
    show "set (groups_below L ds n c) \<inter> set (groups_below L ds n d) = {}"
      if "c \<in> set ?cs" "d \<in> set ?cs" "c \<noteq> d" for c d
      using siblings_disjoint [OF assms child [OF that(1)] child [OF that(2)]] reach that by blast
  qed
  ultimately show ?case by (simp del: split_paired_All)
qed simp

lemma sum_list_indicator: "distinct xs \<Longrightarrow> (\<Sum>x\<leftarrow>xs. if a = x then 1 else (0::nat)) = (if a \<in> set xs then 1 else 0)"
  by (induction xs) auto

lemma slice_tests_total:
  assumes "distinct slices"
  shows "(\<Sum>s\<leftarrow>slices. length (slice_tests L ds s)) = length (filter (\<lambda>d. \<exists>s \<in> set slices. in_tests_slice L s d) ds)"
proof (induction ds)
  case (Cons d ds)
  have "length (slice_tests L (d # ds) s) = (if in_tests_slice L s d then 1 else 0) + length (slice_tests L ds s)" for s
    by (cases d) (auto simp: slice_tests_def in_tests_slice_def List.map_filter_simps)
  then have "(\<Sum>s\<leftarrow>slices. length (slice_tests L (d # ds) s)) =
      (\<Sum>s\<leftarrow>slices. if in_tests_slice L s d then 1 else 0) + (\<Sum>s\<leftarrow>slices. length (slice_tests L ds s))"
    by (simp add: sum_list_addf)
  moreover have "(\<Sum>s\<leftarrow>slices. if in_tests_slice L s d then 1 else 0) =
      (if \<exists>s \<in> set slices. in_tests_slice L s d then 1 else (0::nat))"
    by (cases d) (simp_all add: in_tests_slice_def sum_list_indicator [OF assms])
  ultimately show ?case using Cons.IH by simp
qed (simp add: slice_tests_def)

text \<open>Each declared test of a group that lies below is in the tree once.\<close>

lemma linked_count:
  assumes "unique_statics ds" "acyclic (subgroup_of L ds)" "x \<in> set (group_decls ds)"
    and "link_group L ds n x = Some tree"
  shows "length (test_paths tree) =
    length (filter (\<lambda>d. \<exists>y p. lies_below L ds x y p \<and> in_tests_slice L (tests_static y) d) ds)"
proof -
  let ?gs = "groups_below L ds n x"
  have "set ?gs \<subseteq> set (group_decls ds)"
  proof
    fix y assume "y \<in> set ?gs"
    with groups_below_reach [OF assms(3)] have "(y, x) \<in> (subgroup_of L ds)\<^sup>*" .
    then show "y \<in> set (group_decls ds)" using subgroup_of_decls assms(3) by (metis rtranclD)
  qed
  moreover have "inj_on tests_static (set (group_decls ds))" using assms(1) by (simp add: unique_statics_def distinct_map)
  ultimately have "distinct (map tests_static ?gs)"
    using distinct_groups_below [OF assms(1-3)] by (simp add: distinct_map inj_on_subset)
  from slice_tests_total [OF this] have "length (test_paths tree) =
      length (filter (\<lambda>d. \<exists>y \<in> set ?gs. in_tests_slice L (tests_static y) d) ds)"
    using linked_size [OF assms(4)] by (simp add: comp_def)
  also have "(\<lambda>d. \<exists>y \<in> set ?gs. in_tests_slice L (tests_static y) d) =
      (\<lambda>d. \<exists>y p. lies_below L ds x y p \<and> in_tests_slice L (tests_static y) d)"
    using groups_below_iff [OF assms(4)] by (intro ext) blast
  finally show ?thesis .
qed

end
