(* ===== verification/Whole_Runs.thy ===== *)
theory Whole_Runs
  imports Run_Fixtures Conservation Hash_Order Registry
begin

text \<open>
  Whole runs: what \<open>e2etest_run\<close> does with a tree of tests, put together from the trace of the run, the
  conservation of its counters, the fixtures that it holds, and the declarations the tree was linked
  from.
\<close>

section \<open>The log\<close>

text \<open>The conditions on a tree of tests under which the assertions of the statistics hold.\<close>

definition runnable :: "config \<Rightarrow> group \<Rightarrow> bool" where
  "runnable c g \<longleftrightarrow> well_named g \<and> (picks (filters c) (test_names g) \<noteq> {} \<or> no_empty_group g)"

lemma e2etest_run_trace:
  assumes "runnable c g"
  defines "fl \<equiv> filter_new (filters c) (g_name g) (test_names g)"
  shows "\<exists>w. e2etest_run h c g sched = (Some (w, run_report (w_stats w)), Default_Hook) \<and>
    well_recorded (w_stats w) \<and> defined (w_stats w) = all_names g \<and>
    included (w_stats w) = set (selected fl [] g) \<and>
    (if selected fl [] g = [] then events (w_stats w) = []
     else group_trace (run_ctx fl (default_timeout c) (concurrency c)) [] g (events (w_stats w)))"
proof -
  have "well_named g" and "consistent fl [] g"
    using assms consistent_filter_new by (auto simp: runnable_def)
  from run_trace [OF this] show ?thesis
    unfolding e2etest_run_def Let_def fl_def by blast
qed

lemma e2etest_run_result:
  assumes "runnable c g" and "e2etest_run h c g sched = (Some (w, r), hk)"
  defines "fl \<equiv> filter_new (filters c) (g_name g) (test_names g)"
  shows "well_recorded (w_stats w)" and "defined (w_stats w) = all_names g"
    and "included (w_stats w) = set (selected fl [] g)"
    and "selected fl [] g = [] \<Longrightarrow> events (w_stats w) = []"
    and "selected fl [] g \<noteq> [] \<Longrightarrow>
      group_trace (run_ctx fl (default_timeout c) (concurrency c)) [] g (events (w_stats w))"
    and "r = run_report (w_stats w)" and "hk = Default_Hook"
  using e2etest_run_trace [OF assms(1), of h sched] assms(2) by (auto simp: fl_def)

lemma e2etest_run_accounts:
  assumes "runnable c g" and "e2etest_run h c g sched = (Some (w, r), hk)"
  shows "tests_included (w_stats w) = tests_launched (w_stats w) + tests_skipped (w_stats w) +
      tests_skipped_by_fixture_err (w_stats w) \<and>
    tests_launched (w_stats w) = tests_passed (w_stats w) + tests_failed (w_stats w)"
proof -
  let ?fl = "filter_new (filters c) (g_name g) (test_names g)"
  have named: "well_named g" using assms(1) by (simp add: runnable_def)
  note facts = e2etest_run_result [OF assms]
  have con: "consistent ?fl [] g"
    using assms(1) consistent_filter_new by (auto simp: runnable_def)
  have "weight (cover (included (w_stats w))) (events (w_stats w)) = length (selected ?fl [] g)"
  proof (cases "selected ?fl [] g = []")
    case True
    with facts(4) show ?thesis by simp
  next
    case False
    from group_trace_cover [OF facts(5) [OF False] named, of "included (w_stats w)"] con
    show ?thesis by (simp add: facts(3) agrees_root)
  qed
  moreover have "tests_included (w_stats w) = length (selected ?fl [] g)"
    using distinct_card [OF distinct_selected [OF named, of "[]" ?fl]] by (simp add: tests_included_def facts(3))
  ultimately show ?thesis
    using cover_included [OF facts(1)] balanced_report(1) facts(4,5) by metis
qed

section \<open>The fixtures\<close>

lemma run_world_fx:
  assumes "run_world ctx g w = Some w'" and "fx_inv (w_fx w)" and "acyclic_group g"
    and "\<And>t. handles (w_fx w) t = 0" and "w_stats w = inner_new"
  shows "fx_inv (w_fx w') \<and> (\<forall>t. handles (w_fx w') t = 0) \<and>
    (events (w_stats w') \<noteq> [] \<and> entry_event (last (events (w_stats w'))) = TeardownPassed \<longrightarrow>
      cache (w_fx w') = [])"
proof -
  have "well_recorded (w_stats w)" using assms(5) well_recorded_new by simp
  then obtain e v where v: "select_tests ctx (g_name g) (test_names g) True w = Some (e, v)" "w_fx v = w_fx w"
    "events (w_stats v) = []"
    using assms(5) by (simp add: select_tests_eq inner_new_def)
  show ?thesis
  proof (cases e)
    case True
    with assms v show ?thesis by (auto simp: run_world_def)
  next
    case False
    with assms(1) v(1) have run: "run_group ctx [] g v = Some w'" by (simp add: run_world_def)
    from run_group_end [OF run] v(2) assms(2,3) obtain w1 b where
      w1: "task_teardown (join_path ([] @ [g_name g])) b w1 = Some w'" "settled v w1" by auto
    with v(2) assms(4) have "fx_inv (w_fx w1)" "\<And>t. handles (w_fx w1) t = 0"
      by (auto simp: settled_def)
    with w1(1) task_teardown_last [OF w1(1)] task_teardown_settled [OF w1(1)] show ?thesis
      by (auto simp: settled_def)
  qed
qed

section \<open>The declared tests\<close>

lemma card_all_names:
  assumes "well_named g"
  shows "card (all_names g) = length (test_paths g)"
proof -
  have "set (selected filter_empty [] g) = all_names g"
    using chosen_names [OF assms, of "run_ctx filter_empty 0 1"] by (simp add: name_chosen_def all_names_def)
  moreover have "length (selected filter_empty [] g) = length (test_paths g)"
    by (simp add: selected_test_paths map_filter_def comp_def case_prod_unfold)
  moreover have "distinct (selected filter_empty [] g)" using assms by (rule distinct_selected) simp
  ultimately show ?thesis using distinct_card by metis
qed

lemma linked_run:
  assumes "unique_statics ds" "proper_names L ds" "acyclic (subgroup_of L ds)" "x \<in> set (group_decls ds)"
    and "link_group L ds n x = Some tree" and "picks (filters c) (test_names tree) \<noteq> {} \<or> no_empty_group tree"
  shows "\<exists>w. e2etest_run h c tree sched = (Some (w, run_report (w_stats w)), Default_Hook) \<and>
    tests_defined (w_stats w) =
      length (filter (\<lambda>d. \<exists>y p. lies_below L ds x y p \<and> in_tests_slice L (tests_static y) d) ds)"
proof -
  have named: "well_named tree" using assms(2,4,5) by (rule linked_well_named)
  with assms(6) have "runnable c tree" by (simp add: runnable_def)
  from e2etest_run_trace [OF this] obtain w where
    "e2etest_run h c tree sched = (Some (w, run_report (w_stats w)), Default_Hook)"
    "defined (w_stats w) = all_names tree" by blast
  with card_all_names [OF named] linked_count [OF assms(1,3-5)] show ?thesis
    by (auto simp: tests_defined_def)
qed

text \<open>A rank that subgroups lower shows that no group is its own ancestor.\<close>

lemma ranked_acyclic:
  assumes "\<And>x c. x \<in> set (group_decls ds) \<Longrightarrow> c \<in> set (slice_groups L ds (groups_static x)) \<Longrightarrow> rank c < (rank x :: nat)"
  shows "acyclic (subgroup_of L ds)"
proof -
  have "subgroup_of L ds \<subseteq> measure rank" using assms by (auto simp: subgroup_of_def)
  then show ?thesis by (meson acyclic_subset wf_acyclic wf_measure)
qed

end
