(* ===== verification/Healthy_Runs.thy ===== *)
theory Healthy_Runs
  imports Whole_Runs
begin

text \<open>
  Runs in which nothing goes wrong.  A fixture is healthy when its setup always returns a fixture
  and asks only for permanent fixtures that the configuration has; \<open>setup_cost\<close> is the time that its
  setup takes when nothing is cached.  A group is healthy when all its fixtures and tests are and
  their times, together with the longest wait for the lock of the fixtures, lie within their
  timeouts.  The lemmas go through the runner and show that it never records a failure or a skip of
  such a group, whatever the schedule.
\<close>

section \<open>Fixtures that set up\<close>

fun setup_cost :: "fixture \<Rightarrow> duration"
  and code_cost :: "setup_code \<Rightarrow> duration" where
  "setup_cost (Fixture t ts tt conc code td) = code_cost code"
| "code_cost (Sleep n k) = n + code_cost k"
| "code_cost (Call_Setup f k k') = setup_cost f + code_cost k"
| "code_cost (Call_Get t k k') = code_cost k"
| "code_cost _ = 0"

fun sets_up :: "type_id set \<Rightarrow> fixture \<Rightarrow> bool"
  and code_sets_up :: "type_id set \<Rightarrow> setup_code \<Rightarrow> bool" where
  "sets_up P (Fixture t ts tt conc code td) = code_sets_up P code"
| "code_sets_up P (Return_Some arcs) = True"
| "code_sets_up P (Sleep n k) = code_sets_up P k"
| "code_sets_up P (Call_Setup f k k') = (sets_up P f \<and> code_sets_up P k)"
| "code_sets_up P (Call_Get t k k') = (t \<in> P \<and> code_sets_up P k)"
| "code_sets_up P _ = False"

lemma setup_succeeds:
  "sets_up P f \<Longrightarrow> P \<subseteq> dom (permanent s) \<Longrightarrow> setup_cost f \<le> b \<Longrightarrow>
     \<exists>a b' s'. inner_setup f b s = ((Setup_Some a, b'), s') \<and> b \<le> b' + setup_cost f \<and> permanent s' = permanent s"
  "code_sets_up P code \<Longrightarrow> P \<subseteq> dom (permanent s) \<Longrightarrow> code_cost code \<le> b \<Longrightarrow>
     \<exists>arcs b' s'. run_setup code got b s = ((Code_Some arcs, b'), s') \<and> b \<le> b' + code_cost code \<and>
       permanent s' = permanent s"
proof (induction f b s and code got b s rule: inner_setup_run_setup.induct)
  case (1 t ts tt conc code td b s)
  show ?case
  proof (cases "permanent s t \<noteq> None \<or> t \<in> cached_types (cache s)")
    case True
    then show ?thesis by (auto simp: inner_get_def split: option.splits)
  next
    case False
    with 1 show ?thesis by auto
  qed
next
  case (6 n k got b s)
  then have "\<exists>arcs b' s'. run_setup k got (b - n) s = ((Code_Some arcs, b'), s') \<and> b - n \<le> b' + code_cost k \<and>
      permanent s' = permanent s" by auto
  with 6(4) show ?case by fastforce
next
  case (7 f k k' got b s)
  then obtain a b1 s1 where f: "inner_setup f b s = ((Setup_Some a, b1), s1)" "b \<le> b1 + setup_cost f"
    "permanent s1 = permanent s" by fastforce
  have k: "code_sets_up P k" "P \<subseteq> dom (permanent s1)" "code_cost k \<le> b1" using 7(5-7) f by auto
  show ?case
  proof (cases a)
    case (Cached_Arc t)
    from "7.IH"(3) [OF f(1) [symmetric] refl refl _ k] Cached_Arc f show ?thesis by fastforce
  next
    case (Permanent_Arc v)
    from "7.IH"(2) [OF f(1) [symmetric] refl refl _ k] Permanent_Arc f show ?thesis by fastforce
  qed
next
  case (8 t k k' got b s)
  then obtain v where "permanent s t = Some v" by auto
  with 8 show ?case by (auto simp: inner_get_def)
qed auto

section \<open>What is healthy\<close>

definition healthy_fixture :: "duration \<Rightarrow> type_id set \<Rightarrow> duration \<Rightarrow> fixture \<Rightarrow> bool" where
  "healthy_fixture wait P d f \<longleftrightarrow> acyclic_fixture f \<and> prompt_fixture f \<and> sets_up P f \<and>
     setup_cost f + wait \<le> setup_timeout f d \<and> wait \<le> teardown_timeout f d"

definition healthy_test :: "duration \<Rightarrow> type_id set \<Rightarrow> duration \<Rightarrow> test_desc \<Rightarrow> bool" where
  "healthy_test wait P d t \<longleftrightarrow> healthy_fixture wait P d (t_fixture t) \<and>
     run_fut (t_body t) (body_timeout t d) \<noteq> None"

fun healthy_group :: "duration \<Rightarrow> type_id set \<Rightarrow> duration \<Rightarrow> group \<Rightarrow> bool" where
  "healthy_group wait P d (Group n f ts gs) = (healthy_fixture wait P d f \<and>
     (\<forall>t \<in> set ts. healthy_test wait P d t) \<and> (\<forall>g \<in> set gs. healthy_group wait P d g))"

fun adverse :: "event \<Rightarrow> bool" where
  "adverse (SetupSkipped k) = True"
| "adverse (SetupFailed k) = True"
| "adverse TestFailed = True"
| "adverse TeardownFailed = True"
| "adverse _ = False"

text \<open>The state of a run in which nothing went wrong so far.\<close>

definition well :: "duration \<Rightarrow> type_id set \<Rightarrow> world \<Rightarrow> bool" where
  "well W P w \<longleftrightarrow> alike (w_fx w) (w_fx w) \<and> P \<subseteq> dom (permanent (w_fx w)) \<and>
     (\<forall>(i, wait) \<in> set (w_sched w). wait \<le> W) \<and> (\<forall>e \<in> set (events (w_stats w)). \<not> adverse (entry_event e))"

lemma well_record: "record_w n ev w = Some w' \<Longrightarrow> well W P w \<Longrightarrow> \<not> adverse ev \<Longrightarrow> well W P w'"
  by (auto simp: record_w_def record_event_def push_event_def well_def split: if_splits event.splits)

lemma well_fx:
  "well W P w \<Longrightarrow> alike s s \<Longrightarrow> permanent s = permanent (w_fx w) \<Longrightarrow> well W P (w\<lparr>w_fx := s\<rparr>)"
  by (simp add: well_def)

lemma well_draw: "draw w = ((i, wait), w1) \<Longrightarrow> well W P w \<Longrightarrow> wait \<le> W \<and> well W P w1"
  by (auto simp: draw_def well_def split: list.splits)

lemma well_drop_arc: "well W P w \<Longrightarrow> well W P (drop_arc a w)"
  using release_alike by (auto simp: drop_arc_def well_def release_arc_def)

section \<open>Tasks\<close>

lemma spawn_setup_well:
  assumes "well W P w" and "healthy_fixture W P d f" and "wait \<le> W"
  shows "\<exists>a w'. spawn_setup f (setup_timeout f d) wait w = (Inr (Some a), w') \<and> well W P w'"
proof -
  let ?b = "setup_timeout f d"
  have b: "wait \<le> ?b" "setup_cost f \<le> ?b - wait" using assms(2,3) by (auto simp: healthy_fixture_def)
  with setup_succeeds(1) [of P f "w_fx w" "?b - wait"] assms(1,2) obtain a b' s where
    i: "inner_setup f (?b - wait) (w_fx w) = ((Setup_Some a, b'), s)" "permanent s = permanent (w_fx w)"
    by (auto simp: healthy_fixture_def well_def)
  then have r: "fixtures_setup f ?b wait (w_fx w) = (Finished (Some a), hold_arc a s)"
    using b(1) by (simp add: fixtures_setup_def)
  have "rel_prod (=) alike (fixtures_setup f ?b wait (w_fx w)) (fixtures_setup f ?b wait (w_fx w))"
    using assms(1,2) by (intro fixtures_setup_alike) (auto simp: well_def healthy_fixture_def)
  with r have "alike (hold_arc a s) (hold_arc a s)" by simp
  then have "well W P (w\<lparr>w_fx := hold_arc a s\<rparr>)"
    using assms(1) i(2) by (intro well_fx) (auto simp: hold_arc_def)
  with r show ?thesis by (simp add: spawn_setup_def)
qed

lemma spawn_teardown_well:
  assumes "well W P w" and "W \<le> b" and "wait \<le> W"
  shows "\<exists>w'. spawn_teardown b wait w = (Inr (), w') \<and> well W P w'"
proof -
  have "prompt_cache (w_fx w)" using assms(1) by (simp add: well_def alike_def)
  then obtain s where i: "inner_teardown (b - wait) (w_fx w) = (True, s)"
    using prompt_teardown by (metis (full_types) prod.collapse)
  then have r: "fixtures_teardown b wait (w_fx w) = (Finished (), s)"
    using assms(2,3) by (simp add: fixtures_teardown_def)
  have "rel_prod (=) alike (fixtures_teardown b wait (w_fx w)) (fixtures_teardown b wait (w_fx w))"
    using assms(1) by (intro fixtures_teardown_alike) (simp add: well_def)
  with r have "alike s s" by simp
  then have "well W P (w\<lparr>w_fx := s\<rparr>)"
    using assms(1) inner_teardown_collect [OF i] by (intro well_fx) auto
  with r show ?thesis by (simp add: spawn_teardown_def)
qed

lemma task_setup_well:
  assumes "task_setup n k f (setup_timeout f d) w = Some (r, w')" and "well W P w" and "healthy_fixture W P d f"
  shows "(\<exists>a. r = Inr (Some a)) \<and> well W P w'"
proof -
  obtain w1 where w1: "record_w n SetupLaunched w = Some w1"
    and rest: "(case spawn_setup f (setup_timeout f d) 0 w1 of (r, w2) \<Rightarrow>
        do { w3 \<leftarrow> record_w n (setup_event k r) w2; Some (r, w3) }) = Some (r, w')"
    using assms(1) by (auto simp: task_setup_def)
  have "well W P w1" using well_record [OF w1 assms(2)] by simp
  from spawn_setup_well [OF this assms(3), of 0] obtain a w2 where
    "spawn_setup f (setup_timeout f d) 0 w1 = (Inr (Some a), w2)" "well W P w2" by auto
  with rest show ?thesis by (auto dest: well_record)
qed

lemma task_teardown_well:
  assumes "task_teardown n b w = Some w'" and "well W P w" and "W \<le> b"
  shows "well W P w'"
proof -
  obtain w1 where w1: "record_w n TeardownLaunched w = Some w1"
    and rest: "(case spawn_teardown b 0 w1 of (r, w2) \<Rightarrow> record_w n (teardown_event r) w2) = Some w'"
    using assms(1) by (auto simp: task_teardown_def)
  have "well W P w1" using well_record [OF w1 assms(2)] by simp
  from spawn_teardown_well [OF this assms(3), of 0] rest show ?thesis by (auto elim!: well_record)
qed

lemma task_test_well:
  assumes "task_test n body b w = Some w'" and "well W P w" and "run_fut body b \<noteq> None"
  shows "well W P w'"
proof -
  have "single (run_body body b) = Inr ()" using assms(3) by (auto simp: run_body_def)
  with assms(1,2) show ?thesis by (auto simp: task_test_def elim!: well_record)
qed

lemma run_test_well:
  assumes "run_test d gn t w = Some w'" and "well W P w" and "healthy_test W P d t"
  shows "well W P w'"
proof -
  have f: "healthy_fixture W P d (t_fixture t)" "W \<le> teardown_timeout (t_fixture t) d"
    and body: "run_fut (t_body t) (body_timeout t d) \<noteq> None"
    using assms(3) by (auto simp: healthy_test_def healthy_fixture_def)
  obtain r w1 where s: "task_setup (test_path gn t) TaskTest (t_fixture t) (setup_timeout (t_fixture t) d) w = Some (r, w1)"
    using assms(1) by (auto simp: run_test_def Let_def)
  from task_setup_well [OF s assms(2) f(1)] obtain a where r: "r = Inr (Some a)" "well W P w1" by blast
  then obtain w2 where w2: "task_test (test_path gn t) (t_body t) (body_timeout t d) w1 = Some w2"
    "task_teardown (test_path gn t) (teardown_timeout (t_fixture t) d) (drop_arc a w2) = Some w'"
    using assms(1) s by (auto simp: run_test_def Let_def)
  show ?thesis
    by (rule task_teardown_well [OF w2(2) well_drop_arc [OF task_test_well [OF w2(1) r(2) body]] f(2)])
qed

lemma for_each_well:
  "for_each d gn ts w = Some w' \<Longrightarrow> well W P w \<Longrightarrow> \<forall>t \<in> set ts. healthy_test W P d t \<Longrightarrow> well W P w'"
  by (induction ts arbitrary: w) (auto dest!: run_test_well split: bind_splits)

section \<open>Tests side by side\<close>

fun pc_well :: "test_pc \<Rightarrow> bool" where
  "pc_well (Setup_Ready r) = (\<exists>a. r = Inr (Some a))"
| "pc_well (Teardown_Ready r) = (r = Inr ())"
| "pc_well _ = True"

lemma test_step_well:
  assumes "test_step d gn t wait pc w = Some (pc', w')" and "well W P w" and "pc_well pc"
    and "healthy_test W P d t" and "wait \<le> W"
  shows "well W P w' \<and> pc_well pc'"
proof -
  have f: "healthy_fixture W P d (t_fixture t)" "W \<le> teardown_timeout (t_fixture t) d"
    and body: "single (run_body (t_body t) (body_timeout t d)) = Inr ()"
    using assms(4) by (auto simp: healthy_test_def healthy_fixture_def run_body_def)
  show ?thesis
  proof (cases pc)
    case Setup_Pending
    with assms(1) spawn_setup_well [OF assms(2) f(1) assms(5)] show ?thesis by auto
  next
    case Teardown_Pending
    with assms(1) spawn_teardown_well [OF assms(2) f(2) assms(5)] show ?thesis by auto
  next
    case (Setup_Ready r)
    with assms(1,2,3) show ?thesis by (auto elim!: well_record)
  next
    case (Body_Pending a)
    with assms(1,2) body show ?thesis by (auto simp: Let_def elim!: well_record intro!: well_drop_arc)
  qed (use assms(1-3) in \<open>auto elim!: well_record\<close>)
qed

lemma for_each_concurrent_well:
  "for_each_concurrent d limit gn waiting running w = Some w' \<Longrightarrow> well W P w \<Longrightarrow>
   \<forall>t \<in> set waiting \<union> fst ` set running. healthy_test W P d t \<Longrightarrow> \<forall>x \<in> set running. pc_well (snd x) \<Longrightarrow>
   well W P w'"
proof (induction d limit gn waiting running w rule: for_each_concurrent.induct)
  case (1 d limit gn waiting running w)
  obtain c wait w1 where dr: "draw w = ((c, wait), w1)" by (metis surj_pair)
  from well_draw [OF dr "1.prems"(2)] have wait: "wait \<le> W" and well1: "well W P w1" by auto
  define i where "i = chosen_move (w_admits w) limit waiting running c"
  note i_def' = i_def [unfolded chosen_move_def]
  consider (stop) "waiting = [] \<and> running = []"
    | (advance) "\<not> (waiting = [] \<and> running = [])" "i < length running"
    | (start) "\<not> (waiting = [] \<and> running = [])" "\<not> i < length running" by blast
  then show ?case
  proof cases
    case stop
    with "1.prems" show ?thesis by (auto simp: run_simps)
  next
    case advance
    obtain t pc where tp: "running ! i = (t, pc)" by (cases "running ! i")
    have mem: "(t, pc) \<in> set running" using advance(2) tp by (metis nth_mem)
    then have t: "healthy_test W P d t" "pc_well pc" using "1.prems"(3,4) by force+
    obtain pc' w2 where step: "test_step d gn t wait pc w1 = Some (pc', w2)"
      using "1.prems"(1) for_each_concurrent_panic [OF dr i_def tp advance(2)]
      by (cases "test_step d gn t wait pc w1") auto
    let ?running = "if pc' = Test_Done then remove_nth i running else running[i := (t, pc')]"
    have rest: "for_each_concurrent d limit gn waiting ?running w2 = Some w'"
      using "1.prems"(1) for_each_concurrent_advance [OF dr i_def tp advance(2) step] by simp
    from test_step_well [OF step well1 t(2,1) wait] have well2: "well W P w2" and pc': "pc_well pc'" by auto
    have "set ?running \<subseteq> insert (t, pc') (set running)"
      using set_update_subset_insert [of running i "(t, pc')"]
      by (auto simp: remove_nth_def dest: in_set_takeD in_set_dropD)
    then have "\<forall>t \<in> set waiting \<union> fst ` set ?running. healthy_test W P d t" "\<forall>x \<in> set ?running. pc_well (snd x)"
      using "1.prems"(3,4) t(1) pc' by fastforce+
    from "1.IH"(1) [OF advance(1) dr [symmetric] refl i_def' advance(2), of "(pc', w2)" pc' w2,
        unfolded tp fst_conv snd_conv, OF step refl rest well2 this]
    show ?thesis .
  next
    case start
    have "may_start (w_admits w) limit waiting running" using start chosen_move_start by (simp add: i_def)
    then obtain t ts where wt: "waiting = t # ts" by (cases waiting) (auto simp: may_start_def)
    have "for_each_concurrent d limit gn (tl waiting) (running @ [(hd waiting, Test_Start)]) w1 = Some w'"
      using "1.prems"(1) for_each_concurrent_start [OF start(1) dr] start(2) by (simp add: i_def)
    from "1.IH"(2) [OF start(1) dr [symmetric] refl i_def' start(2) this well1] "1.prems"(3,4) wt
    show ?thesis by auto
  qed
qed

section \<open>Groups\<close>

lemma run_groups_well:
  assumes "\<And>g w w'. g \<in> set gs \<Longrightarrow> run_group ctx ps g w = Some w' \<Longrightarrow> well W P w \<Longrightarrow> well W P w'"
    and "run_groups ctx ps gs w = Some w'" and "well W P w"
  shows "well W P w'"
  using assms
proof (induction gs arbitrary: w)
  case (Cons g gs)
  show ?case
  proof (cases "consider_group (rc_filter ctx) ps (g_name g)")
    case True
    with Cons.prems(2) obtain w1 where "run_group ctx ps g w = Some w1" "run_groups ctx ps gs w1 = Some w'" by auto
    with Cons show ?thesis by (meson list.set_intros)
  next
    case False
    with Cons show ?thesis by auto
  qed
qed simp

lemma run_group_well:
  "run_group ctx ps g w = Some w' \<Longrightarrow> well W P w \<Longrightarrow> healthy_group W P (rc_default_timeout ctx) g \<Longrightarrow> well W P w'"
proof (induction g arbitrary: ctx ps w w')
  case (Group n f ts gs)
  let ?d = "rc_default_timeout ctx" and ?qs = "ps @ [n]" and ?n = "join_path (ps @ [n])"
  let ?ctx = "update_concurrency_enabled (fx_concurrent f) ctx"
  let ?chosen = "chosen_tests ?ctx ?qs ts"
  have d: "rc_default_timeout ?ctx = ?d" by (simp add: update_concurrency_enabled_def)
  have f: "healthy_fixture W P ?d f" "W \<le> teardown_timeout f ?d"
    using Group.prems(3) by (auto simp: healthy_fixture_def)
  have tests: "\<forall>t \<in> set (concurrent_tests ?ctx ?chosen) \<union> set (sequential_tests ?ctx ?chosen). healthy_test W P ?d t"
    using Group.prems(3) by (auto simp: chosen_tests_def concurrent_tests_def sequential_tests_def)
  obtain r w1 where s: "task_setup ?n TaskGroup f (setup_timeout f ?d) w = Some (r, w1)"
    using Group.prems(1) by (auto simp: Let_def)
  from task_setup_well [OF s Group.prems(2) f(1)] obtain a where r: "r = Inr (Some a)" and w1: "well W P w1" by blast
  with s Group.prems(1) obtain w2 w3 w4 where
    w2: "run_groups ?ctx ?qs gs w1 = Some w2" and
    w3: "for_each_concurrent ?d (Some (rc_concurrency ?ctx)) ?n (concurrent_tests ?ctx ?chosen) [] w2 = Some w3" and
    w4: "for_each ?d ?n (sequential_tests ?ctx ?chosen) w3 = Some w4" and
    w5: "task_teardown ?n (teardown_timeout f ?d) (drop_arc a w4) = Some w'"
    by (auto simp: Let_def)
  have "well W P w2"
  proof (rule run_groups_well [OF _ w2 w1])
    fix g v v' assume "g \<in> set gs" "run_group ?ctx ?qs g v = Some v'" "well W P v"
    with Group.IH [of g ?ctx ?qs v v'] Group.prems(3) d show "well W P v'" by simp
  qed
  then have "well W P w3" using tests by (intro for_each_concurrent_well [OF w3]) auto
  then have "well W P w4" using tests by (intro for_each_well [OF w4]) auto
  then show ?case by (rule task_teardown_well [OF w5 well_drop_arc f(2)])
qed

section \<open>Runs\<close>

lemma select_tests_well: "select_tests ctx gn names b w = Some (b', w') \<Longrightarrow> well W P w \<Longrightarrow> well W P w'"
proof (induction names arbitrary: b w)
  case (Cons name names)
  let ?n = "path_cons gn name"
  from Cons.prems(1) obtain w1 where w1: "record_w ?n TestDefined w = Some w1" by (auto split: bind_splits)
  have well1: "well W P w1" using well_record [OF w1 Cons.prems(2)] by simp
  show ?case
  proof (cases "consider_test (rc_filter ctx) (gn # butlast (split_path name)) (last (split_path name))")
    case True
    with Cons.prems(1) w1 obtain w2 where w2: "record_w ?n TestIncluded w1 = Some w2"
      and rest: "select_tests ctx gn names False w2 = Some (b', w')" by (auto simp: Let_def split: bind_splits)
    have "well W P w2" using well_record [OF w2 well1] by simp
    with rest show ?thesis by (rule Cons.IH)
  next
    case False
    with Cons.prems(1) w1 have "select_tests ctx gn names b w1 = Some (b', w')" by (simp add: Let_def)
    from this well1 show ?thesis by (rule Cons.IH)
  qed
qed simp

lemma selected_not_empty:
  assumes "well_named G" and "picks fs (test_names G) \<noteq> {} \<or> no_empty_group G"
  shows "selected (filter_new fs (g_name G) (test_names G)) [] G \<noteq> []"
proof (cases "picks fs (test_names G) = {}")
  case True
  with assms(2) show ?thesis using no_empty_group_paths by (simp add: filter_new_no_picks selected_filter_empty)
next
  case False
  let ?P = "picks fs (test_names G)" and ?fl = "filter_new fs (g_name G) (test_names G)"
  have chosen: "\<exists>p td. (p, td) \<in> set (test_paths G) \<and> consider_test ?fl (g_name G # p) (t_name td)"
    if "(g, t, whole) \<in> ?P" and "(\<forall>t'. (g, t', False) \<notin> ?P) \<or> \<not> whole" for g t whole
  proof -
    from that(1) obtain p td where p: "(p, td) \<in> set (test_paths G)" "p \<noteq> []" "g = join_path p" "t = t_name td"
      by (auto simp: picks_of_tree [OF assms(1)])
    with that have "consider_test ?fl (g_name G # p) (t_name td)"
      unfolding consider_test_iff [OF False p(2)] by auto
    with p(1) show ?thesis by blast
  qed
  from False obtain g t whole where "(g, t, whole) \<in> ?P" by auto
  with chosen have "\<exists>p td. (p, td) \<in> set (test_paths G) \<and> consider_test ?fl (g_name G # p) (t_name td)" by metis
  then have "set (selected ?fl [] G) \<noteq> {}" unfolding set_selected by auto
  then show ?thesis by auto
qed

lemma dom_permanent: "dom (permanent (fixtures_with_permanent h fs)) = fst ` set fs"
proof -
  have "dom (foldl (\<lambda>m (t, v). m(t \<mapsto> v)) m fs) = dom m \<union> fst ` set fs" for m :: "type_id \<rightharpoonup> nat"
    by (induction fs arbitrary: m) auto
  then show ?thesis by (simp add: fixtures_with_permanent_def)
qed

lemma e2etest_run_well:
  assumes "e2etest_run h c g sched = (Some (w, r), hk)"
    and "healthy_group W (fst ` set (permanent_fixtures c)) (default_timeout c) g"
    and "\<forall>(i, wait) \<in> set (rt_choices sched). wait \<le> W"
  shows "well W (fst ` set (permanent_fixtures c)) w"
proof -
  let ?ctx = "run_ctx (filter_new (filters c) (g_name g) (test_names g)) (default_timeout c) (concurrency c)"
  let ?w = "run_start (fixtures_with_permanent h (permanent_fixtures c)) sched"
  have start: "well W (fst ` set (permanent_fixtures c)) ?w"
    using start_same [of h "permanent_fixtures c" sched h] assms(3)
    by (simp add: well_def same_world_def run_start_def inner_new_def dom_permanent)
  have "run_world ?ctx g ?w = Some w"
    using assms(1) by (auto simp: e2etest_run_def run_def Let_def split: option.splits)
  then obtain b v where v: "select_tests ?ctx (g_name g) (test_names g) True ?w = Some (b, v)"
    "b \<and> v = w \<or> run_group ?ctx [] g v = Some w"
    by (auto simp: run_world_def split: bind_splits if_splits)
  from select_tests_well [OF v(1) start] v(2) assms(2) show ?thesis
    by (auto intro: run_group_well)
qed

lemma no_adverse_counters:
  assumes "\<forall>e \<in> set (events s). \<not> adverse (entry_event e)"
  shows "tests_failed s = 0" "tests_skipped s = 0" "tests_skipped_by_fixture_err s = 0" "\<not> list_ex is_failed (events s)"
proof -
  have none: "entry_event e \<noteq> ev" if "adverse ev" "e \<in> set (events s)" for ev e
    using assms that by auto
  show "tests_failed s = 0" "tests_skipped s = 0" "tests_skipped_by_fixture_err s = 0"
    using none by (auto simp: tests_failed_def tests_skipped_def tests_skipped_by_fixture_err_def
        count_events_def count_below_def filter_empty_conv)
  show "\<not> list_ex is_failed (events s)"
    using assms by (auto simp: list_ex_iff is_failed_def split: event.splits)
qed

end
