(* ===== verification/Scheduling.thy ===== *)
theory Scheduling
  imports Runner_Log
begin

text \<open>
  What the window of concurrent tests guarantees: with a limit of one and no waiting it is the
  sequential loop, and with any limit no more tests than that are active at any moment of the log.
\<close>

section \<open>A window of one\<close>

definition no_waits :: "world \<Rightarrow> bool" where
  "no_waits w \<longleftrightarrow> (\<forall>(c, wait) \<in> set (w_sched w). wait = 0)"

definition unscheduled :: "world \<Rightarrow> world" where
  "unscheduled w = w\<lparr>w_sched := []\<rparr>"

lemma record_w_unscheduled:
  "record_w n ev (unscheduled w) = map_option unscheduled (record_w n ev w)"
  by (cases "record_event n ev (w_stats w)") (simp_all add: record_w_def unscheduled_def)

lemma spawn_unscheduled:
  "spawn_setup f b wait (unscheduled w) = (case spawn_setup f b wait w of (r, w') \<Rightarrow> (r, unscheduled w'))"
  "spawn_teardown b wait (unscheduled w) = (case spawn_teardown b wait w of (r', w') \<Rightarrow> (r', unscheduled w'))"
  by (simp_all add: spawn_setup_def spawn_teardown_def unscheduled_def split: prod.split)

lemma drop_arc_unscheduled: "drop_arc a (unscheduled w) = unscheduled (drop_arc a w)"
  by (simp add: drop_arc_def unscheduled_def)

lemmas unscheduled_simps = record_w_unscheduled spawn_unscheduled drop_arc_unscheduled

lemma test_step_unscheduled:
  "test_step d gn t wait pc (unscheduled w) =
     map_option (\<lambda>(pc, w). (pc, unscheduled w)) (test_step d gn t wait pc w)"
proof (cases pc)
  case (Setup_Ready r)
  then show ?thesis
    by (cases r rule: setup_answer) (auto simp: unscheduled_simps split: bind_splits option.splits)
qed (auto simp: unscheduled_simps Let_def split: bind_splits prod.splits option.splits)

lemma test_step_sched:
  "test_step d gn t wait pc w = Some (pc', w') \<Longrightarrow> w_sched w' = w_sched w \<and> w_admits w' = w_admits w"
proof -
  have rec: "record_w n ev v = Some v' \<Longrightarrow> w_sched v' = w_sched v \<and> w_admits v' = w_admits v" for n ev v v'
    by (auto simp: record_w_def)
  assume "test_step d gn t wait pc w = Some (pc', w')"
  then show ?thesis
  proof (cases pc)
    case (Setup_Ready r)
    with \<open>test_step d gn t wait pc w = Some (pc', w')\<close> show ?thesis
      by (cases r rule: setup_answer) (auto dest!: rec)
  qed (auto dest!: rec simp: spawn_setup_def spawn_teardown_def Let_def drop_arc_def split: prod.splits)
qed

lemma draw_admits: "draw w = (c, w') \<Longrightarrow> w_admits w' = w_admits w"
  by (auto simp: draw_def split: list.splits)

lemma draw_no_waits:
  "draw w = ((c, wait), w1) \<Longrightarrow> no_waits w \<Longrightarrow> wait = 0 \<and> no_waits w1 \<and> unscheduled w1 = unscheduled w"
  by (auto simp: draw_def no_waits_def unscheduled_def split: list.splits)

lemma drive_enough:
  "steps_left pc \<le> n \<Longrightarrow> steps_left pc \<le> m \<Longrightarrow> drive d gn t n pc w = drive d gn t m pc w"
proof (induction "steps_left pc" arbitrary: pc n m w rule: less_induct)
  case less
  show ?case
  proof (cases "pc = Test_Done")
    case False
    then have "0 < steps_left pc" by (cases pc) auto
    with less.prems obtain n' m' where nm: "n = Suc n'" "m = Suc m'" by (metis Suc_le_D Suc_leI)
    show ?thesis
    proof (cases "test_step d gn t 0 pc w")
      case (Some s)
      obtain pc' w' where s: "s = (pc', w')" by fastforce
      have "steps_left pc' < steps_left pc"
        using test_step_decreases [of d gn t 0 pc w pc' w'] Some s False by simp
      with less.hyps [OF this, of n' m' w'] less.prems nm Some s show ?thesis by simp
    qed (simp add: nm)
  qed simp
qed

text \<open>
  The window with a limit of one, started from nothing or from one test, is the sequential loop.
\<close>

lemma window_of_one:
  "no_waits w \<Longrightarrow> length running \<le> 1 \<Longrightarrow> \<forall>(t, pc) \<in> set running. pc \<noteq> Test_Done \<Longrightarrow>
   limit = Some 1 \<Longrightarrow> honours_limit (w_admits w) \<Longrightarrow>
   map_option unscheduled (for_each_concurrent d limit gn waiting running w) =
     (case running of
        [] \<Rightarrow> for_each d gn waiting (unscheduled w)
      | (t, pc) # _ \<Rightarrow>
          do { (_, v) \<leftarrow> drive d gn t (steps_left pc) pc (unscheduled w); for_each d gn waiting v })"
proof (induction d limit gn waiting running w rule: for_each_concurrent.induct)
  case (1 d limit gn waiting running w)
  obtain c wait w1 where dr: "draw w = ((c, wait), w1)" by (metis surj_pair)
  from draw_no_waits [OF dr "1.prems"(1)] have w1: "wait = 0" "no_waits w1" "unscheduled w1 = unscheduled w"
    by auto
  have adm1: "honours_limit (w_admits w1)" using draw_admits [OF dr] "1.prems"(5) by simp
  define i where "i = chosen_move (w_admits w) limit waiting running c"
  note i_def' = i_def [unfolded chosen_move_def]
  show ?case
  proof (cases running)
    case Nil
    show ?thesis
    proof (cases waiting)
      case Nil
      with \<open>running = []\<close> show ?thesis by (simp add: run_simps)
    next
      case (Cons t ts)
      have ni: "\<not> i < length running" using Nil by simp
      have ne: "\<not> (waiting = [] \<and> running = [])" using Cons by simp
      have "for_each_concurrent d limit gn waiting running w =
          for_each_concurrent d limit gn ts [(t, Test_Start)] w1"
        using for_each_concurrent_start [OF ne dr] ni Nil Cons by (simp add: i_def)
      moreover have "map_option unscheduled (for_each_concurrent d limit gn ts [(t, Test_Start)] w1) =
          do { (_, v) \<leftarrow> drive d gn t 6 Test_Start (unscheduled w); for_each d gn ts v }"
        using "1.IH"(2) [OF ne dr [symmetric] refl i_def' ni w1(2)] "1.prems"(4) adm1 Nil Cons w1(3)
        by simp
      moreover have "do { (_, v) \<leftarrow> map_option (\<lambda>w'. (Test_Done, w')) m; for_each d gn ts v } =
          do { v \<leftarrow> m; for_each d gn ts v }" for m
        by (cases m) auto
      ultimately show ?thesis
        using Nil Cons by (simp add: drive_run_test)
    qed
  next
    case (Cons tp rest)
    obtain t pc where tp: "tp = (t, pc)" by (cases tp)
    with Cons "1.prems"(2,3) have running: "running = [(t, pc)]" and nd: "pc \<noteq> Test_Done" by auto
    have ms: "\<not> may_start (w_admits w) limit waiting running"
      using running "1.prems"(4,5) by (auto simp: may_start_def honours_limit_def)
    then have i0: "i = 0" using running by (simp add: i_def chosen_move_def)
    have at: "running ! i = (t, pc)" "i < length running" using i0 running by auto
    have ne: "\<not> (waiting = [] \<and> running = [])" using running by simp
    obtain k where k: "steps_left pc = Suc k" using nd by (cases pc) auto
    have stepu: "test_step d gn t 0 pc (unscheduled w) =
        map_option (\<lambda>(pc, w). (pc, unscheduled w)) (test_step d gn t wait pc w1)"
      using test_step_unscheduled [of d gn t wait pc w1] w1 by simp
    show ?thesis
    proof (cases "test_step d gn t wait pc w1")
      case None
      with for_each_concurrent_panic [OF dr i_def at None] stepu running k show ?thesis
        by simp
    next
      case (Some s)
      obtain pc' w2 where s: "s = (pc', w2)" by fastforce
      with Some have step: "test_step d gn t wait pc w1 = Some (pc', w2)" by simp
      have nw: "no_waits w2"
        using test_step_sched [OF step] w1(2) by (simp add: no_waits_def)
      have adm2: "honours_limit (w_admits w2)" using test_step_sched [OF step] adm1 by simp
      let ?running = "if pc' = Test_Done then [] else [(t, pc')]"
      have same: "for_each_concurrent d limit gn waiting running w =
          for_each_concurrent d limit gn waiting ?running w2"
        using for_each_concurrent_advance [OF dr i_def at step] running i0
        by (simp add: remove_nth_def)
      have IH: "map_option unscheduled (for_each_concurrent d limit gn waiting ?running w2) =
         (case ?running of
            [] \<Rightarrow> for_each d gn waiting (unscheduled w2)
          | (t, pc) # _ \<Rightarrow>
              do { (_, v) \<leftarrow> drive d gn t (steps_left pc) pc (unscheduled w2); for_each d gn waiting v })"
        using "1.IH"(1) [OF ne dr [symmetric] refl i_def' at(2), of "(pc', w2)" pc' w2] nw "1.prems"(4) adm2
          step running i0
        by (simp add: remove_nth_def cong: if_cong)
      have "drive d gn t k pc' v = drive d gn t (steps_left pc') pc' v" for v
        using test_step_decreases [OF step nd] k by (intro drive_enough) auto
      with same IH stepu step running k show ?thesis by simp
    qed
  qed
qed

section \<open>At most \<open>limit\<close> tests at a time\<close>

text \<open>A test is active from the launch of its setup to the end of its teardown.\<close>

definition opened :: "event_entry list \<Rightarrow> nat" where
  "opened es = length (filter (\<lambda>e. entry_event e = SetupLaunched) es)"

definition closed :: "event_entry list \<Rightarrow> nat" where
  "closed es = length (filter (\<lambda>e. entry_event e = TeardownPassed \<or> entry_event e = TeardownFailed) es)"

fun active :: "test_pc \<Rightarrow> nat" where
  "active Test_Start = 0"
| "active Test_Done = 0"
| "active _ = 1"

definition pool_active :: "(test_desc \<times> test_pc) list \<Rightarrow> nat" where
  "pool_active running = (\<Sum>(t, pc)\<leftarrow>running. active pc)"

lemma opened_closed_simps [simp]:
  "opened (xs @ ys) = opened xs + opened ys" "closed (xs @ ys) = closed xs + closed ys"
  "opened [] = 0" "closed [] = 0"
  by (simp_all add: opened_def closed_def)

lemma opened_Cons: "opened (at_path n (ev # evs)) = (if ev = SetupLaunched then 1 else 0) + opened (at_path n evs)"
  by (simp add: opened_def at_path_def)

lemma closed_Cons:
  "closed (at_path n (ev # evs)) =
     (if ev = TeardownPassed \<or> ev = TeardownFailed then 1 else 0) + closed (at_path n evs)"
  by (simp add: closed_def at_path_def)

lemma body_event_neq:
  "body_event d t \<noteq> SetupLaunched" "body_event d t \<noteq> TeardownPassed" "body_event d t \<noteq> TeardownFailed"
  by (cases "single (run_body (t_body t) (body_timeout t d))"; simp add: body_event_def)+

lemmas word_counts = opened_Cons closed_Cons body_event_neq

lemma remaining_counts:
  "ws \<in> remaining d t pc \<Longrightarrow>
     active pc + opened (at_path n ws) = closed (at_path n ws) \<and> active pc + opened (at_path n ws) \<le> 1"
proof -
  have ready: "opened (at_path n ws) = 0 \<and> closed (at_path n ws) = 1"
    if "ws \<in> remaining d t (Setup_Ready r)" for ws r
    using that by (cases r rule: setup_answer) (auto simp: word_counts)
  have pending: "opened (at_path n ws) = 0 \<and> closed (at_path n ws) = 1"
    if "ws \<in> remaining d t Setup_Pending" for ws
    using that ready unfolding remaining.simps(6) by blast
  assume ws: "ws \<in> remaining d t pc"
  show ?thesis
  proof (cases pc)
    case Test_Start
    with ws pending show ?thesis by (auto simp: word_counts simp del: remaining.simps(6))
  next
    case Setup_Pending
    with ws pending show ?thesis by simp
  next
    case (Setup_Ready r)
    with ws ready show ?thesis by simp
  next
    case (Teardown_Ready r)
    with ws show ?thesis by (cases r) (auto simp: word_counts)
  qed (use ws in \<open>auto simp: word_counts\<close>)
qed

lemma remaining_nonempty: "remaining d t pc \<noteq> {}"
proof -
  have ready: "remaining d t (Setup_Ready r) \<noteq> {}" for r
    by (cases r rule: setup_answer) auto
  then have "remaining d t Setup_Pending \<noteq> {}"
    unfolding remaining.simps(6) by blast
  with ready show ?thesis
    by (cases pc) (simp_all del: remaining.simps(5,6))
qed

lemma step_counts:
  assumes "\<forall>us \<in> remaining d t pc'. ws @ us \<in> remaining d t pc" and "pc' \<noteq> Test_Start"
  shows "active pc + opened (at_path n ws) = closed (at_path n ws) + active pc'"
    and "active pc + opened (at_path n ws) \<le> 1"
proof -
  obtain us where us: "us \<in> remaining d t pc'" using remaining_nonempty [of d t pc'] by blast
  with assms(1) have "ws @ us \<in> remaining d t pc" by blast
  from remaining_counts [OF this, of n] remaining_counts [OF us, of n]
  show "active pc + opened (at_path n ws) = closed (at_path n ws) + active pc'"
    and "active pc + opened (at_path n ws) \<le> 1"
    by (auto simp: at_path_append)
qed

lemma prefix_opened_le: "prefix p zs \<Longrightarrow> opened p \<le> opened zs"
  by (auto simp: prefix_def)

lemma test_step_not_start: "test_step d gn t wait pc w = Some (pc', w') \<Longrightarrow> pc' \<noteq> Test_Start"
proof (cases pc)
  case (Setup_Ready r)
  then show "test_step d gn t wait pc w = Some (pc', w') \<Longrightarrow> pc' \<noteq> Test_Start"
    by (cases r rule: setup_answer) auto
qed (auto simp: Let_def split: prod.splits)

lemma pool_active_step:
  assumes "i < length running" and "running ! i = (t, pc)"
  shows "pool_active (if pc' = Test_Done then remove_nth i running else running[i := (t, pc')]) + active pc =
    pool_active running + active pc'"
proof -
  let ?f = "\<lambda>(t :: test_desc, pc). active pc"
  have "remove_nth i (running[i := (t, pc')]) = remove_nth i running"
    by (simp add: remove_nth_def)
  with sum_list_remove_nth [of i running ?f] sum_list_remove_nth [of i "running[i := (t, pc')]" ?f] assms
  show ?thesis by (auto simp: pool_active_def)
qed

lemma pool_active_le: "pool_active running \<le> length running"
proof (induction running)
  case (Cons x running)
  have "active pc \<le> 1" for pc by (cases pc) auto
  from this [of "snd x"] Cons show ?case by (cases x) (simp add: pool_active_def)
qed (simp add: pool_active_def)

lemma pool_active_others: "i < length running \<Longrightarrow> running ! i = (t, pc) \<Longrightarrow>
    pool_active running \<le> active pc + (length running - 1)"
  using pool_active_step [of i running t pc Test_Done] pool_active_le [of "remove_nth i running"]
  by (simp add: remove_nth_def)

definition bounded_by :: "nat \<Rightarrow> nat \<Rightarrow> event_entry list \<Rightarrow> bool" where
  "bounded_by limit n zs \<longleftrightarrow> (\<forall>p. prefix p zs \<longrightarrow> n + opened p \<le> closed p + limit)"

lemma bounded_by_append:
  assumes "n + opened ws \<le> limit" and "m + closed ws = n + opened ws" and "bounded_by limit m zs"
  shows "bounded_by limit n (ws @ zs)"
  unfolding bounded_by_def
proof (intro allI impI)
  fix p assume "prefix p (ws @ zs)"
  then consider "prefix p ws" | p' where "p = ws @ p'" "prefix p' zs"
    by (auto simp: prefix_append)
  then show "n + opened p \<le> closed p + limit"
  proof cases
    case 1
    with prefix_opened_le [OF 1] assms(1) show ?thesis by linarith
  next
    case 2
    with assms(2,3) show ?thesis unfolding bounded_by_def by fastforce
  qed
qed

lemma for_each_concurrent_bounded:
  assumes "extends v es w" and "0 < k" and "length running \<le> k"
    and "\<forall>t \<in> set waiting \<union> fst ` set running. test_path gn t \<in> included (w_stats v)"
    and "honours_limit (w_admits w)" and "limit = Some k"
  shows "\<exists>w' zs. for_each_concurrent d limit gn waiting running w = Some w' \<and>
    extends v (es @ zs) w' \<and> w_admits w' = w_admits w \<and> bounded_by k (pool_active running) zs \<and>
    pool_active running + opened zs = closed zs \<and> (\<forall>e \<in> set zs. entry_name e \<in> included (w_stats v))"
  using assms
proof (induction d limit gn waiting running w arbitrary: es rule: for_each_concurrent.induct)
  case (1 d limit gn waiting running w)
  obtain c wait w1 where dr: "draw w = ((c, wait), w1)" by (metis surj_pair)
  define i where "i = chosen_move (w_admits w) limit waiting running c"
  note i_def' = i_def [unfolded chosen_move_def]
  have v1: "extends v es w1" using draw_fields [OF dr] "1.prems"(1) by simp
  have adm1: "w_admits w1 = w_admits w" "honours_limit (w_admits w1)" using draw_admits [OF dr] "1.prems"(5) by simp_all
  consider (stop) "waiting = [] \<and> running = []"
    | (advance) "\<not> (waiting = [] \<and> running = [])" "i < length running"
    | (start) "\<not> (waiting = [] \<and> running = [])" "\<not> i < length running" by blast
  then show ?case
  proof cases
    case stop
    then have "for_each_concurrent d limit gn waiting running w = Some w" by (simp add: run_simps)
    with stop "1.prems"(1) show ?thesis
      by (intro exI [of _ w] exI [of _ "[]"]) (auto simp: bounded_by_def pool_active_def)
  next
    case advance
    obtain t pc where tp: "running ! i = (t, pc)" by (cases "running ! i")
    have mem: "(t, pc) \<in> set running" using advance(2) tp by (metis nth_mem)
    have n: "test_path gn t \<in> included (w_stats v)" using "1.prems"(4) mem by force
    obtain pc' w2 ws where step: "test_step d gn t wait pc w1 = Some (pc', w2)"
      and ex: "extends v (es @ at_path (test_path gn t) ws) w2"
      and rem: "\<forall>us \<in> remaining d t pc'. ws @ us \<in> remaining d t pc"
      by (rule test_step_extends [OF v1 n, where d = d and wait = wait and pc = pc])
    let ?running = "if pc' = Test_Done then remove_nth i running else running[i := (t, pc')]"
    have same: "for_each_concurrent d limit gn waiting running w =
        for_each_concurrent d limit gn waiting ?running w2"
      by (rule for_each_concurrent_advance [OF dr i_def tp advance(2) step])
    have adm2: "w_admits w2 = w_admits w" "honours_limit (w_admits w2)"
      using test_step_sched [OF step] adm1 by simp_all
    have len: "length ?running \<le> k"
      using "1.prems"(3) advance(2) by (auto simp: remove_nth_def)
    have "set ?running \<subseteq> insert (t, pc') (set running)"
      using set_update_subset_insert [of running i "(t, pc')"]
      by (auto simp: remove_nth_def dest: in_set_takeD in_set_dropD)
    then have names: "\<forall>t \<in> set waiting \<union> fst ` set ?running. test_path gn t \<in> included (w_stats v)"
      using "1.prems"(4) n by fastforce
    obtain w' zs where IH: "for_each_concurrent d limit gn waiting ?running w2 = Some w'"
      "extends v ((es @ at_path (test_path gn t) ws) @ zs) w'" "w_admits w' = w_admits w"
      "bounded_by k (pool_active ?running) zs" "pool_active ?running + opened zs = closed zs"
      "\<forall>e \<in> set zs. entry_name e \<in> included (w_stats v)"
      using "1.IH"(1) [OF advance(1) dr [symmetric] refl i_def' advance(2), of "(pc', w2)" pc' w2,
          unfolded tp fst_conv snd_conv, OF step refl ex "1.prems"(2) len names adm2(2) "1.prems"(6)]
        adm2(1) by auto
    let ?ws = "at_path (test_path gn t) ws"
    note counts = step_counts [OF rem test_step_not_start [OF step], of "test_path gn t"]
    have "bounded_by k (pool_active running) (?ws @ zs)"
    proof (rule bounded_by_append [OF _ _ IH(4)])
      show "pool_active running + opened ?ws \<le> k"
        using pool_active_others [OF advance(2) tp] counts(2) advance(2) "1.prems"(3) by linarith
      show "pool_active ?running + closed ?ws = pool_active running + opened ?ws"
        using pool_active_step [OF advance(2) tp, of pc'] counts(1) by linarith
    qed
    moreover have "pool_active running + opened (?ws @ zs) = closed (?ws @ zs)"
      using IH(5) pool_active_step [OF advance(2) tp, of pc'] counts(1) by simp
    moreover have "\<forall>e \<in> set (?ws @ zs). entry_name e \<in> included (w_stats v)"
      using IH(6) n by (auto simp: at_path_def)
    ultimately show ?thesis
      using same IH(1-3) by (intro exI [of _ w'] exI [of _ "?ws @ zs"]) auto
  next
    case start
    have ms: "may_start (w_admits w) limit waiting running"
      using start chosen_move_start by (simp add: i_def)
    then obtain t ts where wt: "waiting = t # ts" by (cases waiting) (auto simp: may_start_def)
    have same: "for_each_concurrent d limit gn waiting running w =
        for_each_concurrent d limit gn (tl waiting) (running @ [(hd waiting, Test_Start)]) w1"
      using for_each_concurrent_start [OF start(1) dr] start(2) by (simp add: i_def)
    have len: "length (running @ [(hd waiting, Test_Start)]) \<le> k"
      using ms "1.prems"(2,5,6) by (auto simp: may_start_def honours_limit_def Suc_le_eq)
    have names: "\<forall>t \<in> set (tl waiting) \<union> fst ` set (running @ [(hd waiting, Test_Start)]).
        test_path gn t \<in> included (w_stats v)"
      using "1.prems"(4) wt by auto
    from "1.IH"(2) [OF start(1) dr [symmetric] refl i_def' start(2) v1 "1.prems"(2) len names adm1(2) "1.prems"(6)] same adm1(1)
    show ?thesis by (simp add: pool_active_def)
  qed
qed

end
