(* ===== verification/Run_Limit.thy ===== *)
theory Run_Limit
  imports Scheduling Whole_Runs
begin

text \<open>
  The limit of concurrent tests in a whole run.  A test is active from the launch of its setup to the
  end of its teardown.  The entries of a log that belong to tests are those at the path of an included
  test; of these a group adds the tests in its window, one at a time those outside it, and those of its
  subgroups one subgroup after the other.
\<close>

section \<open>Logs within a limit\<close>

definition of_tests :: "string set \<Rightarrow> event_entry list \<Rightarrow> event_entry list" where
  "of_tests inc es = filter (\<lambda>e. entry_name e \<in> inc) es"

definition within :: "string set \<Rightarrow> nat \<Rightarrow> event_entry list \<Rightarrow> bool" where
  "within inc k es \<longleftrightarrow>
     bounded_by k 0 (of_tests inc es) \<and> opened (of_tests inc es) = closed (of_tests inc es)"

lemma of_tests_simps [simp]:
  "of_tests inc [] = []" "of_tests inc (xs @ ys) = of_tests inc xs @ of_tests inc ys"
  "of_tests inc (at_path n evs) = (if n \<in> inc then at_path n evs else [])"
  "(\<forall>e \<in> set es. entry_name e \<in> inc) \<Longrightarrow> of_tests inc es = es"
  by (auto simp: of_tests_def at_path_def filter_empty_conv)

lemma within_Nil [simp]: "within inc k []"
  by (simp add: within_def bounded_by_def)

lemma within_append: "within inc k xs \<Longrightarrow> within inc k ys \<Longrightarrow> within inc k (xs @ ys)"
  unfolding within_def bounded_by_def by (fastforce simp: prefix_append)

lemma within_concat: "\<forall>xs \<in> set xss. within inc k xs \<Longrightarrow> within inc k (concat xss)"
  by (induction xss) (auto intro: within_append)

lemma within_outside [simp]: "n \<notin> inc \<Longrightarrow> within inc k (at_path n evs)"
  by (simp add: within_def bounded_by_def)

lemma within_test_log:
  assumes "test_log d gn t es" and "0 < k"
  shows "within inc k es"
proof (cases "test_path gn t \<in> inc")
  case True
  from assms(1) obtain ws where ws: "ws \<in> remaining d t Test_Start" "es = at_path (test_path gn t) ws"
    unfolding test_log_def remaining_Test_Start by blast
  from remaining_counts [OF ws(1), of "test_path gn t"] ws(2)
  have c: "opened es = closed es" "opened es \<le> 1" by auto
  have "opened p \<le> closed p + k" if "prefix p es" for p
    using prefix_opened_le [OF that] c(2) assms(2) by linarith
  with True ws(2) c(1) show ?thesis by (simp add: within_def bounded_by_def)
next
  case False
  with assms(1) show ?thesis by (auto simp: test_log_def)
qed

section \<open>The paths of groups and of tests\<close>

fun apart :: "string set \<Rightarrow> string list \<Rightarrow> group \<Rightarrow> bool" where
  "apart inc ps (Group n f ts gs) = (join_path (ps @ [n]) \<notin> inc \<and> (\<forall>g \<in> set gs. apart inc (ps @ [n]) g))"

fun group_paths :: "group \<Rightarrow> string list list" where
  "group_paths (Group n f ts gs) = [n] # concat (map (\<lambda>g. map ((#) n) (group_paths g)) gs)"

lemma apart_group_paths: "apart inc ps g \<longleftrightarrow> (\<forall>qs \<in> set (group_paths g). join_path (ps @ qs) \<notin> inc)"
proof (induction g arbitrary: ps)
  case (Group n f ts gs)
  have "apart inc (ps @ [n]) g \<longleftrightarrow> (\<forall>qs \<in> set (group_paths g). join_path (ps @ n # qs) \<notin> inc)" if "g \<in> set gs" for g
    using Group.IH [OF that, of "ps @ [n]"] by simp
  then show ?case by auto
qed

lemma group_paths_head: "qs \<in> set (group_paths g) \<Longrightarrow> \<exists>rs. qs = g_name g # rs"
  by (cases g) auto

lemma group_paths_plain: "well_named g \<Longrightarrow> qs \<in> set (group_paths g) \<Longrightarrow> \<forall>x \<in> set qs. plain x"
  by (induction g arbitrary: qs) fastforce

lemma test_path_no_group:
  "well_named g \<Longrightarrow> (p, t) \<in> set (test_paths g) \<Longrightarrow> g_name g # p @ [t_name t] \<notin> set (group_paths g)"
proof (induction g arbitrary: p)
  case (Group n f ts gs)
  have names: "distinct (map g_name gs @ map t_name ts)" using Group.prems(1) by simp
  show ?case
  proof
    assume "g_name (Group n f ts gs) # p @ [t_name t] \<in> set (group_paths (Group n f ts gs))"
    then obtain g where g: "g \<in> set gs" "p @ [t_name t] \<in> set (group_paths g)" by auto
    from group_paths_head [OF g(2)] obtain rs where h: "p @ [t_name t] = g_name g # rs" by blast
    show False
    proof (cases p)
      case Nil
      with Group.prems(2) have "t \<in> set ts" by auto
      moreover from h Nil have "t_name t = g_name g" by simp
      ultimately show False using names g(1) by (metis (no_types) disjoint_iff distinct_append imageI list.set_map)
    next
      case (Cons x q)
      with h have x: "x = g_name g" by simp
      from Group.prems(2) Cons obtain g' where g': "g' \<in> set gs" "g_name g' = x" "(q, t) \<in> set (test_paths g')" by auto
      have "g' = g" using names g(1) g'(1,2) x by (metis distinct_append distinct_map inj_onD)
      with Group.IH [OF g(1), of q] Group.prems(1) g g' Cons x show False by auto
    qed
  qed
qed

lemma apart_root:
  assumes "well_named g"
  shows "apart (set (selected fl [] g)) [] g"
  unfolding apart_group_paths
proof (intro ballI notI)
  fix qs assume qs: "qs \<in> set (group_paths g)" and "join_path ([] @ qs) \<in> set (selected fl [] g)"
  then obtain p t where pt: "(p, t) \<in> set (test_paths g)" and j: "join_path qs = join_path (g_name g # p @ [t_name t])"
    unfolding set_selected by auto
  have "qs \<noteq> []" using group_paths_head [OF qs] by auto
  with j have "qs = g_name g # p @ [t_name t]"
    using group_paths_plain [OF assms qs] test_paths_plain [OF assms pt] well_named_name [OF assms]
    by (subst (asm) join_path_inject) auto
  with test_path_no_group [OF assms pt] qs show False by simp
qed

section \<open>Whole runs\<close>

text \<open>The runtime admits futures in the same way from the beginning to the end of a run.\<close>

lemma record_w_admits: "record_w n ev w = Some w' \<Longrightarrow> w_admits w' = w_admits w"
  by (auto simp: record_w_def)

lemma task_admits:
  "task_setup n k f b w = Some (r, w') \<Longrightarrow> w_admits w' = w_admits w"
  "task_teardown n b w = Some w' \<Longrightarrow> w_admits w' = w_admits w"
  "task_test n body b w = Some w' \<Longrightarrow> w_admits w' = w_admits w"
  by (auto simp: task_setup_def task_teardown_def task_test_def spawn_setup_def spawn_teardown_def Let_def
      dest!: record_w_admits split: bind_splits prod.splits)

lemma drop_arc_admits [simp]: "w_admits (drop_arc a w) = w_admits w"
  by (simp add: drop_arc_def)

lemma run_test_admits: "run_test d gn t w = Some w' \<Longrightarrow> w_admits w' = w_admits w"
proof -
  assume run: "run_test d gn t w = Some w'"
  then obtain r w1 where w1: "task_setup (test_path gn t) TaskTest (t_fixture t) (setup_timeout (t_fixture t) d) w = Some (r, w1)"
    by (auto simp: run_test_def Let_def split: bind_splits)
  from run w1 task_admits(1) [OF w1] show ?thesis
    by (cases r rule: setup_answer) (auto simp: run_test_def Let_def dest!: task_admits split: bind_splits)
qed

lemma for_each_admits: "for_each d gn ts w = Some w' \<Longrightarrow> w_admits w' = w_admits w"
  by (induction ts arbitrary: w) (auto dest!: run_test_admits split: bind_splits)

lemma list_all2_within:
  "list_all2 (test_log d gn) ts ess \<Longrightarrow> 0 < k \<Longrightarrow> within inc k (concat ess)"
  by (induction rule: list_all2_induct) (auto intro: within_append within_test_log)

lemma run_groups_within:
  assumes "\<And>g es w. g \<in> set gs \<Longrightarrow> extends v es w \<Longrightarrow> group_ready ctx ps v g \<Longrightarrow> honours_limit (w_admits w) \<Longrightarrow>
      \<exists>w' zs. run_group ctx ps g w = Some w' \<and> extends v (es @ zs) w' \<and> within inc k zs \<and> w_admits w' = w_admits w"
    and "\<forall>g \<in> set gs. consider_group (rc_filter ctx) ps (g_name g) \<longrightarrow> group_ready ctx ps v g"
    and "extends v es w" and "honours_limit (w_admits w)"
  shows "\<exists>w' zs. run_groups ctx ps gs w = Some w' \<and> extends v (es @ zs) w' \<and> within inc k zs \<and>
    w_admits w' = w_admits w"
  using assms
proof (induction gs arbitrary: es w)
  case Nil
  then show ?case by (intro exI [of _ w] exI [of _ "[]"]) simp
next
  case (Cons g gs)
  have rest: "\<exists>w' zs. run_groups ctx ps gs u = Some w' \<and> extends v (fs @ zs) w' \<and> within inc k zs \<and>
      w_admits w' = w_admits u" if "extends v fs u" "honours_limit (w_admits u)" for fs u
    by (rule Cons.IH [OF Cons.prems(1) _ that]) (use Cons.prems(2) in auto)
  show ?case
  proof (cases "consider_group (rc_filter ctx) ps (g_name g)")
    case True
    with Cons.prems obtain w1 zs where w1: "run_group ctx ps g w = Some w1" "extends v (es @ zs) w1"
      "within inc k zs" "w_admits w1 = w_admits w" by fastforce
    with rest [OF w1(2)] Cons.prems(4) obtain w' ys where
      "run_groups ctx ps gs w1 = Some w'" "extends v ((es @ zs) @ ys) w'" "within inc k ys" "w_admits w' = w_admits w1"
      by auto
    with True w1 show ?thesis
      by (intro exI [of _ w'] exI [of _ "zs @ ys"]) (auto intro: within_append)
  next
    case False
    with rest [OF Cons.prems(3,4)] show ?thesis by auto
  qed
qed

lemma run_group_within:
  "extends v es w \<Longrightarrow> group_ready ctx ps v g \<Longrightarrow> honours_limit (w_admits w) \<Longrightarrow>
     apart (included (w_stats v)) ps g \<Longrightarrow> 0 < rc_concurrency ctx \<Longrightarrow>
     \<exists>w' zs. run_group ctx ps g w = Some w' \<and> extends v (es @ zs) w' \<and>
       within (included (w_stats v)) (rc_concurrency ctx) zs \<and> w_admits w' = w_admits w"
proof (induction g arbitrary: ctx ps es w)
  case (Group n f ts gs)
  let ?d = "rc_default_timeout ctx" and ?qs = "ps @ [n]" and ?n = "join_path (ps @ [n])"
  let ?ctx = "update_concurrency_enabled (fx_concurrent f) ctx"
  let ?chosen = "chosen_tests ?ctx ?qs ts" and ?inc = "included (w_stats v)" and ?k = "rc_concurrency ctx"
  have out: "?n \<notin> ?inc" and sub: "\<forall>g \<in> set gs. apart ?inc ?qs g" using Group.prems(4) by auto
  have kn: "known ?n v" using group_ready_known [OF Group.prems(2)] by simp
  obtain r w1 where w1: "task_setup ?n TaskGroup f (setup_timeout f ?d) w = Some (r, w1)"
    "extends v (es @ at_path ?n [SetupLaunched, setup_event TaskGroup r]) w1"
    by (rule task_setup_extends [OF Group.prems(1) kn])
  let ?e1 = "at_path ?n [SetupLaunched, setup_event TaskGroup r]"
  have a1: "w_admits w1 = w_admits w" by (rule task_admits(1) [OF w1(1)])
  show ?case
  proof (cases "\<exists>a. r = Inr (Some a)")
    case True
    then obtain a where a: "r = Inr (Some a)" by blast
    have "\<exists>w' zs. run_groups ?ctx ?qs gs w1 = Some w' \<and> extends v ((es @ ?e1) @ zs) w' \<and>
        within ?inc ?k zs \<and> w_admits w' = w_admits w1"
    proof (rule run_groups_within [OF _ _ w1(2)])
      show "\<exists>w' zs. run_group ?ctx ?qs g u = Some w' \<and> extends v (fs @ zs) w' \<and> within ?inc ?k zs \<and> w_admits w' = w_admits u"
        if "g \<in> set gs" "extends v fs u" "group_ready ?ctx ?qs v g" "honours_limit (w_admits u)" for g fs u
        using Group.IH [OF that(1-4)] sub that(1) Group.prems(5) by simp
      show "\<forall>g \<in> set gs. consider_group (rc_filter ?ctx) ?qs (g_name g) \<longrightarrow> group_ready ?ctx ?qs v g"
        using group_ready_parts(1) [OF Group.prems(2)] by auto
    qed (simp add: a1 Group.prems(3))
    then obtain w2 e2 where w2: "run_groups ?ctx ?qs gs w1 = Some w2" "extends v ((es @ ?e1) @ e2) w2"
      "within ?inc ?k e2" "w_admits w2 = w_admits w" using a1 by auto
    have names: "\<forall>t \<in> set ?chosen. test_path ?n t \<in> ?inc" by (rule group_ready_parts(2) [OF Group.prems(2)])
    then have "\<forall>t \<in> set (concurrent_tests ?ctx ?chosen) \<union> fst ` set []. test_path ?n t \<in> ?inc"
      by (auto simp: concurrent_tests_def)
    from for_each_concurrent_bounded [OF w2(2) Group.prems(5) _ this _ refl, of ?d] w2(4) Group.prems(3)
    obtain w3 e3 where w3:
      "for_each_concurrent ?d (Some ?k) ?n (concurrent_tests ?ctx ?chosen) [] w2 = Some w3"
      "extends v (((es @ ?e1) @ e2) @ e3) w3" "w_admits w3 = w_admits w"
      and e3: "bounded_by ?k 0 e3" "opened e3 = closed e3" "\<forall>e \<in> set e3. entry_name e \<in> ?inc"
      by (auto simp: pool_active_def)
    have "\<forall>t \<in> set (sequential_tests ?ctx ?chosen). test_path ?n t \<in> ?inc"
      using names by (auto simp: sequential_tests_def)
    from for_each_extends [OF w3(2) this, of ?d] obtain w4 ss where w4:
      "for_each ?d ?n (sequential_tests ?ctx ?chosen) w3 = Some w4"
      "extends v ((((es @ ?e1) @ e2) @ e3) @ concat ss) w4"
      "list_all2 (test_log ?d ?n) (sequential_tests ?ctx ?chosen) ss" by blast
    from w4(2) have w4': "extends v ((((es @ ?e1) @ e2) @ e3) @ concat ss) (drop_arc a w4)" by simp
    obtain td w5 where w5: "task_teardown ?n (teardown_timeout f ?d) (drop_arc a w4) = Some w5"
      and ex: "extends v (((((es @ ?e1) @ e2) @ e3) @ concat ss) @ at_path ?n [TeardownLaunched, td]) w5"
      by (rule task_teardown_extends [OF w4' kn])
    have "run_group ctx ps (Group n f ts gs) w = Some w5"
      using w1(1) w2(1) w3(1) w4(1) w5 a by (simp add: Let_def)
    moreover have "within ?inc ?k (?e1 @ e2 @ e3 @ concat ss @ at_path ?n [TeardownLaunched, td])"
      using e3 out by (intro within_append within_outside w2(3) list_all2_within [OF w4(3) Group.prems(5)])
        (simp_all add: within_def)
    moreover have "w_admits w5 = w_admits w"
      using task_admits(2) [OF w5] for_each_admits [OF w4(1)] w3(3) by simp
    ultimately show ?thesis using ex by (intro exI [of _ w5]) auto
  next
    case False
    obtain td w2 where w2: "task_teardown ?n (teardown_timeout f ?d) w1 = Some w2"
      and ex: "extends v ((es @ ?e1) @ at_path ?n [TeardownLaunched, td]) w2"
      by (rule task_teardown_extends [OF w1(2) kn])
    have "run_group ctx ps (Group n f ts gs) w = Some w2"
      using w1 w2 False by (cases r rule: setup_answer) (simp_all add: Let_def)
    moreover have "within ?inc ?k (?e1 @ at_path ?n [TeardownLaunched, td])"
      using out by (intro within_append within_outside)
    ultimately show ?thesis using ex task_admits(2) [OF w2] a1 by (intro exI [of _ w2]) auto
  qed
qed

lemma e2etest_run_within:
  assumes "runnable c g" and "honours_limit (rt_admits sched)" and "e2etest_run h c g sched = (Some (w, r), hk)"
  shows "within (included (w_stats w)) (if concurrency c = 0 then 1 else concurrency c) (events (w_stats w))"
proof -
  let ?fl = "filter_new (filters c) (g_name g) (test_names g)"
  let ?ctx = "run_ctx ?fl (default_timeout c) (concurrency c)" and ?sel = "selected ?fl [] g"
  let ?w = "run_start (fixtures_with_permanent h (permanent_fixtures c)) sched"
  let ?v = "?w\<lparr>w_stats := \<lparr>defined = all_names g, included = set ?sel, events = []\<rparr>\<rparr>"
  have named: "well_named g" and con: "consistent ?fl [] g"
    using assms(1) consistent_filter_new by (auto simp: runnable_def)
  have new: "w_stats ?w = inner_new" by (simp add: run_start_def)
  note sel = select_tests_selected [OF named new, of ?ctx, unfolded run_ctx_fields]
  have world: "run_world ?ctx g ?w = Some w"
    using assms(3) by (auto simp: e2etest_run_def run_def Let_def split: option.splits)
  show ?thesis
  proof (cases "?sel = []")
    case True
    with e2etest_run_result(4) [OF assms(1,3)] show ?thesis by simp
  next
    case False
    with con have "group_ready ?ctx [] ?v g" by (simp add: group_ready_def)
    from run_group_within [OF extends_refl [OF sel(2)] this]
    have "\<exists>w' zs. run_group ?ctx [] g ?v = Some w' \<and> extends ?v ([] @ zs) w' \<and>
        within (included (w_stats ?v)) (rc_concurrency ?ctx) zs \<and> w_admits w' = w_admits ?v"
      by this (simp_all add: run_start_def assms(2) apart_root [OF named])
    then obtain w' zs where w': "run_group ?ctx [] g ?v = Some w'" "extends ?v zs w'"
      "within (set ?sel) (if concurrency c = 0 then 1 else concurrency c) zs"
      by (simp only: run_ctx_fields append_Nil) auto
    moreover have "w' = w" using world sel(1) False w'(1) by (simp add: run_world_def)
    ultimately show ?thesis by (simp add: extends_def)
  qed
qed

end
