(* ===== verification/Reports.thy ===== *)
theory Reports
  imports Whole_Runs
begin

text \<open>
  The report of a run test by test.  Exactly one entry of the log settles what becomes of an included
  test, so the lists of names in the report share no name, together they name every included test, and
  the counters are their lengths.
\<close>

section \<open>One entry for each test\<close>

lemma e2etest_run_settles:
  assumes "runnable c g" and "e2etest_run h c g sched = (Some (w, r), hk)" and n: "n \<in> included (w_stats w)"
  shows "length (filter (settles n) (events (w_stats w))) = 1"
proof -
  let ?fl = "filter_new (filters c) (g_name g) (test_names g)"
  have named: "well_named g" and con: "consistent ?fl [] g"
    using assms(1) consistent_filter_new by (auto simp: runnable_def)
  note facts = e2etest_run_result [OF assms(1,2)]
  have sel: "n \<in> set (selected ?fl [] g)" using n facts(3) by simp
  then have "selected ?fl [] g \<noteq> []" by auto
  from group_trace_settles [OF facts(5) [OF this] named, of "included (w_stats w)" n] n con
  have "weight (one_if (settles n)) (events (w_stats w)) = occurs n (selected ?fl [] g)"
    by (simp add: facts(3) agrees_root)
  with sel show ?thesis by (simp add: length_filter_weight occurs_distinct distinct_selected [OF named])
qed

lemma e2etest_run_ends:
  assumes "runnable c g" and "e2etest_run h c g sched = (Some (w, r), hk)"
  shows "times_of n TestLaunched (w_stats w) = times_of n TestPassed (w_stats w) + times_of n TestFailed (w_stats w)"
  using launched_ends_once e2etest_run_result(4,5) [OF assms] by metis

lemma list_all2_member: "list_all2 P xs ys \<Longrightarrow> y \<in> set ys \<Longrightarrow> \<exists>x \<in> set xs. P x y"
  by (induction rule: list_all2_induct) auto

lemma group_trace_test_names:
  "group_trace ctx ps g es \<Longrightarrow> e \<in> set es \<Longrightarrow> entry_event e \<in> {SetupSkipped TaskTest, SetupFailed TaskTest} \<Longrightarrow>
     entry_name e \<in> set (selected (rc_filter ctx) ps g)"
proof (induction rule: group_trace.induct)
  case (not_set_up k td ctx ps n f ts gs)
  then show ?case by (auto simp: at_path_def)
next
  case (set_up ctx' f ctx qs ps n chosen ts gs gss cs es ss td)
  have fl: "rc_filter ctx' = rc_filter ctx" using set_up.hyps(1) by simp
  have tests: "entry_name e \<in> set (selected (rc_filter ctx) ps (Group n f ts gs))"
    if "list_all2 (\<lambda>t es. \<exists>ws \<in> test_words d t. es = at_path (test_path (join_path qs) t) ws) us ess"
      "set us \<subseteq> set chosen" "zs \<in> set ess" "e \<in> set zs" for d us ess zs
  proof -
    from list_all2_member [OF that(1,3)] that(4) obtain t where "t \<in> set us" "entry_name e = test_path (join_path qs) t"
      by (auto simp: at_path_def)
    with that(2) set_up.hyps(2,3) fl show ?thesis by (auto simp: chosen_tests_def test_path_def)
  qed
  have sub: "set (concurrent_tests ctx' chosen) \<subseteq> set chosen" "set (sequential_tests ctx' chosen) \<subseteq> set chosen"
    by (auto simp: concurrent_tests_def sequential_tests_def)
  from set_up.prems set_up.hyps(7) interleave_set [OF set_up.hyps(5)]
  consider (groups) zs where "zs \<in> set gss" "e \<in> set zs" | (window) zs where "zs \<in> set cs" "e \<in> set zs"
    | (others) zs where "zs \<in> set ss" "e \<in> set zs"
    by (auto simp: at_path_def)
  then show ?case
  proof cases
    case groups
    from list_all2_member [OF set_up.IH groups(1)] groups(2) set_up.prems(2)
    obtain g where "g \<in> set gs" "entry_name e \<in> set (selected (rc_filter ctx') qs g)" by auto
    with groups(2) fl set_up.hyps(2) show ?thesis by auto
  next
    case window
    with tests [OF set_up.hyps(4) sub(1)] show ?thesis by blast
  next
    case others
    with tests [OF set_up.hyps(6) sub(2)] show ?thesis by blast
  qed
qed

section \<open>What the report names\<close>

definition tests_failed_names :: "inner \<Rightarrow> string set" where
  "tests_failed_names s = {entry_name e | e. e \<in> set (events s) \<and> entry_event e = TestFailed}"

lemma two_in_filter:
  "x \<in> set xs \<Longrightarrow> y \<in> set xs \<Longrightarrow> P x \<Longrightarrow> P y \<Longrightarrow> x \<noteq> y \<Longrightarrow> 1 < length (filter P xs)"
proof -
  assume "x \<in> set xs" "y \<in> set xs" "P x" "P y" "x \<noteq> y"
  then have "{x, y} \<subseteq> set (filter P xs)" by auto
  from card_mono [OF _ this] have "2 \<le> card (set (filter P xs))" using \<open>x \<noteq> y\<close> by simp
  also have "\<dots> \<le> length (filter P xs)" by (rule card_length)
  finally show ?thesis by simp
qed

lemma times_of_pos: "0 < times_of n ev s \<longleftrightarrow> (\<exists>e \<in> set (events s). entry_name e = n \<and> entry_event e = ev)"
  by (auto simp: times_of_def filter_empty_conv)

lemma distinct_names:
  "(\<And>n. length (filter (\<lambda>e. entry_name e = n \<and> entry_event e = ev) es) \<le> 1) \<Longrightarrow>
     distinct (map entry_name (filter (\<lambda>e. entry_event e = ev) es))"
proof (induction es)
  case (Cons e es)
  have "length (filter (\<lambda>e. entry_name e = n \<and> entry_event e = ev) es) \<le> 1" for n
    using Cons.prems [of n] by (simp split: if_splits)
  with Cons.IH have d: "distinct (map entry_name (filter (\<lambda>e. entry_event e = ev) es))" by blast
  have "entry_name e \<notin> entry_name ` set (filter (\<lambda>e. entry_event e = ev) es)" if "entry_event e = ev"
    using Cons.prems [of "entry_name e"] that by (auto simp: filter_empty_conv)
  with d show ?case by simp
qed simp

lemma length_sort_dedup: "length (sort_dedup xs) = card (set xs)"
  by (simp add: sort_dedup_eq)

lemma settles_simps:
  "entry_event e = TestLaunched \<Longrightarrow> settles n e \<longleftrightarrow> entry_name e = n"
  "entry_event e = SetupSkipped TaskTest \<Longrightarrow> settles n e \<longleftrightarrow> entry_name e = n"
  "entry_event e = SetupFailed TaskTest \<Longrightarrow> settles n e \<longleftrightarrow> entry_name e = n"
  "entry_event e = SetupSkipped TaskGroup \<Longrightarrow> settles n e \<longleftrightarrow> below (entry_name e) n"
  "entry_event e = SetupFailed TaskGroup \<Longrightarrow> settles n e \<longleftrightarrow> below (entry_name e) n"
  by (simp_all add: settles_def)

lemma settles_event: "settles n e \<Longrightarrow> entry_event e \<in>
    {TestLaunched, SetupSkipped TaskTest, SetupFailed TaskTest, SetupSkipped TaskGroup, SetupFailed TaskGroup}"
  by (auto simp: settles_def split: event.splits task.splits)

lemma settled_by:
  "(\<exists>e \<in> A. settles n e \<and> entry_event e \<in> {SetupSkipped TaskTest, SetupSkipped TaskGroup}) \<longleftrightarrow>
     (\<exists>e \<in> A. entry_event e = SetupSkipped TaskTest \<and> entry_name e = n) \<or>
     (\<exists>e \<in> A. entry_event e = SetupSkipped TaskGroup \<and> below (entry_name e) n)"
  "(\<exists>e \<in> A. settles n e \<and> entry_event e \<in> {SetupFailed TaskTest, SetupFailed TaskGroup}) \<longleftrightarrow>
     (\<exists>e \<in> A. entry_event e = SetupFailed TaskTest \<and> entry_name e = n) \<or>
     (\<exists>e \<in> A. entry_event e = SetupFailed TaskGroup \<and> below (entry_name e) n)"
  using settles_simps by blast+

lemma length_names_below: "length (names_below ev s) = count_below ev s"
proof -
  have "length (concat (map f (filter P es))) = (\<Sum>e\<leftarrow>es. if P e then length (f e) else 0)"
    for f :: "event_entry \<Rightarrow> string list" and P es by (induction es) auto
  then show ?thesis by (simp add: names_below_def count_below_sum)
qed

text \<open>
  What a finished run makes true of its statistics: each included test is settled by one event, ends
  once if it is launched, and the counters add up.
\<close>

definition accounted :: "inner \<Rightarrow> bool" where
  "accounted s \<longleftrightarrow> well_recorded s \<and>
     tests_included s = tests_launched s + tests_skipped s + tests_skipped_by_fixture_err s \<and>
     tests_launched s = tests_passed s + tests_failed s \<and>
     (\<forall>n \<in> included s. length (filter (settles n) (events s)) = 1) \<and>
     (\<forall>n. times_of n TestLaunched s = times_of n TestPassed s + times_of n TestFailed s) \<and>
     (\<forall>e \<in> set (events s). entry_event e \<in> {SetupSkipped TaskTest, SetupFailed TaskTest} \<longrightarrow> entry_name e \<in> included s)"

definition settled_as :: "event set \<Rightarrow> string \<Rightarrow> inner \<Rightarrow> bool" where
  "settled_as evs n s \<longleftrightarrow> (\<exists>e \<in> set (events s). settles n e \<and> entry_event e \<in> evs)"

lemma settled_as_disjoint:
  assumes "accounted s" and "n \<in> included s" and "settled_as A n s" and "settled_as B n s"
  shows "A \<inter> B \<noteq> {}"
proof -
  from assms(3,4) obtain e e' where e: "e \<in> set (events s)" "settles n e" "entry_event e \<in> A"
    and e': "e' \<in> set (events s)" "settles n e'" "entry_event e' \<in> B" by (auto simp: settled_as_def)
  have "length (filter (settles n) (events s)) = 1" using assms(1,2) by (simp add: accounted_def)
  then have "e = e'" using two_in_filter [of e "events s" e' "settles n"] e e' by force
  with e(3) e'(3) show ?thesis by blast
qed

lemma settled_as_some:
  assumes "accounted s" and "n \<in> included s"
  shows "settled_as {TestLaunched} n s \<or> settled_as {SetupSkipped TaskTest, SetupSkipped TaskGroup} n s \<or>
    settled_as {SetupFailed TaskTest, SetupFailed TaskGroup} n s"
proof -
  have "length (filter (settles n) (events s)) = 1" using assms by (simp add: accounted_def)
  then have "filter (settles n) (events s) \<noteq> []" by auto
  then obtain e where "e \<in> set (events s)" "settles n e" by (auto simp: filter_empty_conv)
  with settles_event [of n e] show ?thesis by (auto simp: settled_as_def)
qed

lemma skipped_set:
  assumes "accounted s"
  shows "set (tests_skipped_names s) = {n \<in> included s. settled_as {SetupSkipped TaskTest, SetupSkipped TaskGroup} n s}"
    and "set (tests_skipped_by_fixture_err_names s) =
      {n \<in> included s. settled_as {SetupFailed TaskTest, SetupFailed TaskGroup} n s}"
proof -
  have rec: "well_recorded s"
    and own: "\<And>e. e \<in> set (events s) \<Longrightarrow> entry_event e = SetupSkipped TaskTest \<or> entry_event e = SetupFailed TaskTest \<Longrightarrow>
      entry_name e \<in> included s"
    using assms unfolding accounted_def by blast+
  note fin = well_recorded_finite [OF rec]
  show "set (tests_skipped_names s) = {n \<in> included s. settled_as {SetupSkipped TaskTest, SetupSkipped TaskGroup} n s}"
    unfolding settled_as_def settled_by using own
    by (auto simp: tests_skipped_names_def set_names_of set_names_below [OF fin])
  show "set (tests_skipped_by_fixture_err_names s) =
      {n \<in> included s. settled_as {SetupFailed TaskTest, SetupFailed TaskGroup} n s}"
    unfolding settled_as_def settled_by using own
    by (auto simp: tests_skipped_by_fixture_err_names_def set_names_of set_names_below [OF fin])
qed

lemma launched_settled: "0 < times_of n TestLaunched s \<longleftrightarrow> settled_as {TestLaunched} n s"
  using settles_simps(1) by (auto simp: times_of_pos settled_as_def)

lemma launched_at_most_once:
  assumes "accounted s"
  shows "times_of n TestLaunched s \<le> 1"
proof (cases "n \<in> included s")
  case True
  have "entry_name e = n \<and> entry_event e = TestLaunched \<longrightarrow> settles n e" for e
    using settles_simps(1) by blast
  then have "times_of n TestLaunched s \<le> length (filter (settles n) (events s))"
    unfolding times_of_def length_filter_weight weight_def
    by (intro sum_list_mono) (simp add: one_if_def)
  with assms True show ?thesis by (simp add: accounted_def)
next
  case False
  have "times_of n TestLaunched s = 0"
  proof (rule ccontr)
    assume "times_of n TestLaunched s \<noteq> 0"
    then obtain e where "e \<in> set (events s)" "entry_name e = n" "entry_event e = TestLaunched"
      by (auto simp: times_of_pos [of n TestLaunched s, simplified])
    with assms False show False by (auto simp: accounted_def well_recorded_def recordable_def)
  qed
  then show ?thesis by simp
qed

lemma launched_set:
  assumes "accounted s"
  shows "set (tests_passed_names s) \<union> tests_failed_names s = {n \<in> included s. settled_as {TestLaunched} n s}"
    and "set (tests_passed_names s) \<inter> tests_failed_names s = {}"
proof -
  have ends: "times_of n TestLaunched s = times_of n TestPassed s + times_of n TestFailed s" for n
    using assms by (simp add: accounted_def)
  have pf: "n \<in> set (tests_passed_names s) \<longleftrightarrow> 0 < times_of n TestPassed s"
    "n \<in> tests_failed_names s \<longleftrightarrow> 0 < times_of n TestFailed s" for n
    by (auto simp: times_of_pos tests_passed_names_def tests_failed_names_def set_names_of)
  have known: "n \<in> included s" if "settled_as {TestLaunched} n s" for n
    using that assms by (auto simp: settled_as_def settles_simps accounted_def well_recorded_def recordable_def)
  show "set (tests_passed_names s) \<union> tests_failed_names s = {n \<in> included s. settled_as {TestLaunched} n s}"
    using ends known by (auto simp: pf simp flip: launched_settled)
  show "set (tests_passed_names s) \<inter> tests_failed_names s = {}"
  proof (rule ccontr)
    assume "set (tests_passed_names s) \<inter> tests_failed_names s \<noteq> {}"
    then obtain n where "0 < times_of n TestPassed s" "0 < times_of n TestFailed s" using pf by blast
    with launched_at_most_once [OF assms, of n] ends [of n] show False by linarith
  qed
qed

lemma report_sets:
  assumes "accounted s"
  shows "included s = set (tests_passed_names s) \<union> tests_failed_names s \<union> set (tests_skipped_names s) \<union>
      set (tests_skipped_by_fixture_err_names s)"
    and "(set (tests_passed_names s) \<union> tests_failed_names s) \<inter>
      (set (tests_skipped_names s) \<union> set (tests_skipped_by_fixture_err_names s)) = {}"
    and "set (tests_skipped_names s) \<inter> set (tests_skipped_by_fixture_err_names s) = {}"
  unfolding launched_set(1) [OF assms] skipped_set [OF assms]
  using settled_as_some [OF assms] settled_as_disjoint [OF assms] by (blast, fastforce, fastforce)

text \<open>As lists and sets the reports are as long as the counters say.\<close>

lemma launched_lengths:
  assumes "accounted s"
  shows "length (tests_passed_names s) = tests_passed s" and "card (tests_failed_names s) = tests_failed s"
proof -
  have upto: "times_of n TestPassed s \<le> 1" "times_of n TestFailed s \<le> 1" for n
    using launched_at_most_once [OF assms, of n] assms unfolding accounted_def
    by (metis add_leE, metis add_leE)
  show "length (tests_passed_names s) = tests_passed s"
    using distinct_card [OF distinct_names [OF upto(1) [unfolded times_of_def]]]
    by (simp add: tests_passed_names_def length_sort_dedup names_of_def tests_passed_def count_events_def)
  show "card (tests_failed_names s) = tests_failed s"
    using distinct_card [OF distinct_names [OF upto(2) [unfolded times_of_def]]]
    by (simp add: tests_failed_names_def tests_failed_def count_events_def setcompr_eq_image conj_commute)
qed

lemma skipped_lengths_le:
  "length (tests_skipped_names s) \<le> tests_skipped s"
  "length (tests_skipped_by_fixture_err_names s) \<le> tests_skipped_by_fixture_err s"
  using card_length [of "names_of (\<lambda>e. entry_event e = SetupSkipped TaskTest) s @ names_below (SetupSkipped TaskGroup) s"]
    card_length [of "names_of (\<lambda>e. entry_event e = SetupFailed TaskTest) s @ names_below (SetupFailed TaskGroup) s"]
  by (simp_all add: tests_skipped_names_def tests_skipped_by_fixture_err_names_def length_sort_dedup
      length_names_below names_of_def counter_defs count_events_def)

lemma skipped_lengths:
  assumes "accounted s"
  shows "length (tests_skipped_names s) = tests_skipped s"
    and "length (tests_skipped_by_fixture_err_names s) = tests_skipped_by_fixture_err s"
proof -
  let ?P = "set (tests_passed_names s)" and ?F = "tests_failed_names s" and ?S = "set (tests_skipped_names s)"
    and ?E = "set (tests_skipped_by_fixture_err_names s)"
  have fin: "finite (included s)" using assms by (simp add: accounted_def well_recorded_finite)
  note all = report_sets(1) [OF assms]
  have fF: "finite ?F" by (rule finite_subset [OF _ fin]) (use all in blast)
  have dup: "distinct (tests_passed_names s)" "distinct (tests_skipped_names s)"
    "distinct (tests_skipped_by_fixture_err_names s)"
    by (simp_all add: tests_passed_names_def tests_skipped_names_def tests_skipped_by_fixture_err_names_def sort_dedup_eq)
  have "card (included s) = card (?P \<union> ?F) + card (?S \<union> ?E)"
    using card_Un_disjoint [of "?P \<union> ?F" "?S \<union> ?E"] report_sets(2) [OF assms] fF all by (simp add: Un_assoc)
  also have "\<dots> = card ?P + card ?F + (card ?S + card ?E)"
    using card_Un_disjoint [OF _ fF launched_set(2) [OF assms]] card_Un_disjoint [OF _ _ report_sets(3) [OF assms]] by simp
  finally have "length (tests_skipped_names s) + length (tests_skipped_by_fixture_err_names s) =
      tests_skipped s + tests_skipped_by_fixture_err s"
    using assms launched_lengths [OF assms] by (simp add: accounted_def tests_included_def distinct_card dup)
  with skipped_lengths_le [of s] show "length (tests_skipped_names s) = tests_skipped s"
    and "length (tests_skipped_by_fixture_err_names s) = tests_skipped_by_fixture_err s" by linarith+
qed

lemma e2etest_run_accounted:
  assumes "runnable c g" and "e2etest_run h c g sched = (Some (w, r), hk)"
  shows "accounted (w_stats w)"
proof -
  note facts = e2etest_run_result [OF assms]
  have own: "entry_name e \<in> included (w_stats w)"
    if "e \<in> set (events (w_stats w))" "entry_event e \<in> {SetupSkipped TaskTest, SetupFailed TaskTest}" for e
  proof -
    have "selected (filter_new (filters c) (g_name g) (test_names g)) [] g \<noteq> []"
      using facts(4) that(1) by auto
    from group_trace_test_names [OF facts(5) [OF this] that] facts(3) show ?thesis by simp
  qed
  show ?thesis
    unfolding accounted_def
    using facts(1) e2etest_run_accounts [OF assms] e2etest_run_settles [OF assms] e2etest_run_ends [OF assms] own
    by blast
qed

end
