(* ===== verification/Samples.thy ===== *)
theory Samples
  imports Runner
begin

text \<open>Concrete fixtures, groups and configurations on which the properties are applied.\<close>

text \<open>\<open>sample_leaf\<close> sets up at once, \<open>sample_user\<close> uses it and allows concurrent tests.\<close>

definition sample_leaf :: fixture where
  "sample_leaf = Fixture 1 None None True (Sleep 1 (Return_Some [])) (Ready_After 1)"

definition sample_user :: fixture where
  "sample_user = Fixture 2 (Some 5) (Some 5) True
     (Call_Setup sample_leaf (Return_Some [1]) Return_None) (Ready_After 2)"

definition sample_broken :: fixture where
  "sample_broken = Fixture 3 None None False (Call_Setup sample_leaf Panic_Now Return_None) (Ready_After 0)"

definition sample_test :: "string \<Rightarrow> fixture \<Rightarrow> fut \<Rightarrow> test_desc" where
  "sample_test n f body = \<lparr>t_name = n, t_timeout = None, t_fixture = f, t_body = body\<rparr>"

definition sample_group :: group where
  "sample_group = Group ''r'' sample_leaf
     [sample_test ''a'' sample_user (Ready_After 1), sample_test ''b'' sample_user (Panics_After 1)]
     [Group ''g'' sample_leaf [sample_test ''c'' (skip_fixture 9) (Ready_After 0)] [],
      Group ''h'' sample_broken [sample_test ''d'' sample_leaf (Ready_After 0)] []]"

definition sample_config :: config where
  "sample_config = config_with_concurrency 2 config_default"

definition sample_sched :: runtime where
  "sample_sched = eager [(1, 0), (1, 0), (1, 2), (0, 1), (1, 0), (2, 3)]"

end
