(* ===== verification/Integration_Tests.thy ===== *)
theory Integration_Tests
  imports Registry Hash_Order
begin

text \<open>
  The integration tests of the framework, \<open>crates/e2etest/tests/integration/\<close>, and the example of the
  documentation of \<open>crates/e2etest/src/lib.rs\<close>: their fixtures, their declarations through the model of
  the macros, and what they assert of the run, evaluated on the model.

  Paths are resolved as the compiler does for these files: \<open>super\<close> goes up, any other segment goes
  down, and a fixture is known by its last segment as the files import them.  The conversions of
  names are the identity.  Each test is evaluated for one order of the hash map and holds for every
  other by \<open>Hash_Order\<close>; where no test runs concurrently the schedule is arbitrary too.  A test whose body
  counts up a shared counter counts
  when it has passed, as the bodies wait first and count then; what the bodies of \<open>concurrency.rs\<close> push
  while they run is \<open>pushes\<close>.
\<close>

section \<open>Declaring\<close>

definition test_syn :: "duration syn" where
  "test_syn = \<lparr>parse_path = (\<lambda>ts. None), parse_fields = (\<lambda>ts. None), parse_expr = (\<lambda>ts. None),
     case_constant = (\<lambda>s. s), case_pascal = (\<lambda>s. s), case_snake = (\<lambda>s. s), to_lowercase = (\<lambda>s. s)\<rparr>"

definition path_of :: "string list \<Rightarrow> syn_path" where
  "path_of names = map (\<lambda>s. Seg s No_Args) names"

definition declare_group :: "module_path \<Rightarrow> string \<Rightarrow> string list \<Rightarrow> string list option \<Rightarrow> duration decl list" where
  "declare_group m name fixtures parent =
     (case generate_group test_syn \<lparr>gp_name = name, gp_fixtures = fixtures, gp_parent = map_option path_of parent\<rparr> of
        Inr g \<Rightarrow> [Group_Decl (m, g)] | Inl e \<Rightarrow> [])"

definition arc_arg :: "string list \<Rightarrow> fn_arg" where
  "arc_arg names = Typed (Ty_Path [Seg ''Arc'' (Angle [Arg_Type (Ty_Path (path_of names))])])"

definition declare_test ::
    "module_path \<Rightarrow> string list \<Rightarrow> duration option \<Rightarrow> string \<Rightarrow> string list list \<Rightarrow> fut \<Rightarrow> duration decl list" where
  "declare_test m parent timeout name fixtures body =
     (case generate_test test_syn \<lparr>tp_group = path_of parent, tp_timeout = timeout\<rparr>
         \<lparr>fn_ident = name, fn_async = True, fn_returns_unit = True, fn_inputs = map arc_arg fixtures, fn_block = ()\<rparr> of
        Inr t \<Rightarrow> [Test_Decl m t body] | Inl e \<Rightarrow> [])"

fun resolve_path :: "module_path \<Rightarrow> syn_path \<Rightarrow> static_path" where
  "resolve_path m [] = m"
| "resolve_path m (s # ss) = (if seg_ident s = ''super'' then resolve_path (butlast m) ss else resolve_path (m @ [seg_ident s]) ss)"

fun index_of :: "'a \<Rightarrow> 'a list \<Rightarrow> nat" where
  "index_of x [] = 0"
| "index_of x (y # ys) = (if x = y then 0 else Suc (index_of x ys))"

definition no_fixture :: fixture where
  "no_fixture = Fixture 0 None None False Panic_Now (Ready_After 0)"

fun generated_type :: "duration decl \<Rightarrow> static_path" where
  "generated_type (Group_Decl (m, g)) = m @ [gi_fixture_type g]"
| "generated_type (Test_Decl m t body) = m @ [ti_fixture_type t]"

text \<open>User types have numbers below 100.\<close>

definition test_linking :: "(string \<times> fixture) list \<Rightarrow> duration decl list \<Rightarrow> duration linking" where
  "test_linking fxs ds = \<lparr>resolve = resolve_path,
     fixture_named = (\<lambda>m p. case map_of fxs (seg_ident (last p)) of Some f \<Rightarrow> f | None \<Rightarrow> no_fixture),
     type_number = (\<lambda>p. 100 + index_of p (map generated_type ds)), duration_of = (\<lambda>d. d)\<rparr>"

text \<open>The group that the call of its function returns, and the run of \<open>e2etest::run\<close> with it.\<close>

definition run_declared ::
    "(string \<times> fixture) list \<Rightarrow> duration decl list \<Rightarrow> config \<Rightarrow> (type_id \<Rightarrow> nat) \<Rightarrow> runtime \<Rightarrow> world option" where
  "run_declared fxs ds c h sched =
     (case group_decls ds of [] \<Rightarrow> None | root # _ \<Rightarrow>
       Option.bind (link_group (test_linking fxs ds) ds (length ds) root)
         (\<lambda>tree. map_option fst (fst (e2etest_run h c tree sched))))"

definition counted :: "type_id list \<Rightarrow> world \<Rightarrow> nat" where
  "counted ts w =
     length (filter (\<lambda>c. (case c of Built t \<Rightarrow> t | Torn t \<Rightarrow> t) \<in> set ts) (calls (w_fx w))) + tests_passed (w_stats w)"

definition check :: "world option \<Rightarrow> (world \<Rightarrow> bool) \<Rightarrow> bool" where
  "check r P = (case r of Some w \<Rightarrow> P w | None \<Rightarrow> False)"

text \<open>A test that passes for one order of the hash map passes for every order.\<close>

definition orderly :: "(string \<times> fixture) list \<Rightarrow> duration decl list \<Rightarrow> bool" where
  "orderly fxs ds = (case link_group (test_linking fxs ds) ds (length ds) (hd (group_decls ds)) of
      Some tree \<Rightarrow> acyclic_group tree \<and> prompt_group tree | None \<Rightarrow> False)"

lemma run_declared_same:
  assumes "orderly fxs ds"
  shows "rel_option same_world (run_declared fxs ds c h sched) (run_declared fxs ds c h' sched)"
proof (cases "group_decls ds")
  case (Cons root rest)
  with assms obtain tree where tree: "link_group (test_linking fxs ds) ds (length ds) root = Some tree"
    "acyclic_group tree" "prompt_group tree" by (auto simp: orderly_def split: option.splits)
  from e2etest_run_same [OF this(2,3), of h c sched h'] have
    "rel_option (rel_prod same_world (=)) (fst (e2etest_run h c tree sched)) (fst (e2etest_run h' c tree sched))" ..
  then have "rel_option same_world (map_option fst (fst (e2etest_run h c tree sched)))
      (map_option fst (fst (e2etest_run h' c tree sched)))"
    by (auto simp: option.rel_map elim!: option.rel_mono_strong)
  with tree Cons show ?thesis by (simp add: run_declared_def)
qed (simp add: run_declared_def)

lemma counted_same: "same_world w w' \<Longrightarrow> counted ts w' = counted ts w"
proof -
  assume w: "same_world w w'"
  then have "mset (calls (w_fx w)) = mset (calls (w_fx w'))" by (simp add: same_world_def alike_def same_fx_def)
  then have "size (filter_mset P (mset (calls (w_fx w)))) = size (filter_mset P (mset (calls (w_fx w'))))" for P by simp
  with w show ?thesis by (simp add: counted_def same_world_def flip: mset_filter size_mset)
qed

lemma same_stats: "same_world w w' \<Longrightarrow> w_stats w' = w_stats w"
  by (simp add: same_world_def)

lemma passes_for_every_order:
  assumes "check (run_declared fxs ds c (\<lambda>t. t) sched) P" and "orderly fxs ds"
    and "\<And>w w'. same_world w w' \<Longrightarrow> P w' = P w"
  shows "check (run_declared fxs ds c h sched) P"
  using run_declared_same [OF assms(2), of c "\<lambda>t. t" sched h] assms(1,3)
  by (cases "run_declared fxs ds c h sched") (auto simp: check_def option_rel_Some1 split: option.splits)

text \<open>Type 1 is the permanent counter (or log); a fixture that asks for it and panics without it.\<close>

definition counter_fixture :: "type_id \<Rightarrow> bool \<Rightarrow> fixture" where
  "counter_fixture t conc = Fixture t default_timeout_setup default_timeout_teardown conc
     (Call_Get 1 (Return_Some []) Panic_Now) (Ready_After 0)"

definition counter_config :: config where
  "counter_config = config_with_default_timeout (from_secs 1)
     (config_with_permanent_fixture (1, 0) config_default)"

section \<open>\<open>empty.rs\<close>\<close>

definition empty_decls :: "duration decl list" where
  "empty_decls = declare_group [] ''empty_root'' [] None"

definition empty_test :: "(type_id \<Rightarrow> nat) \<Rightarrow> runtime \<Rightarrow> bool" where
  "empty_test h sched = check (run_declared [] empty_decls config_default h sched)
     (\<lambda>w. \<not> is_success (w_stats w) \<and> tests_defined (w_stats w) = 0)"

lemma empty_test_passes: "empty_test h sched"
  by code_simp

section \<open>\<open>skip.rs\<close>\<close>

definition skip_fixtures :: "(string \<times> fixture) list" where
  "skip_fixtures = [(''Fixture'', counter_fixture 2 default_can_run_concurrently), (''Skip'', skip_fixture 3)]"

definition skip_decls :: "duration decl list" where
  "skip_decls =
     declare_group [] ''skip_root'' [] None @
     declare_group [] ''skip_group'' [''Skip''] (Some [''skip_root'']) @
     declare_test [] [''skip_root''] None ''first'' [[''Fixture'']] (Ready_After 0) @
     declare_test [] [''skip_root''] None ''second'' [[''Fixture'']] (Ready_After 0) @
     declare_test [] [''skip_root''] None ''skipped'' [[''Fixture''], [''Skip'']] (Ready_After 0) @
     declare_test [] [''skip_group''] None ''in_skipped_group'' [[''Fixture'']] (Ready_After 0)"

definition skip_test :: "(type_id \<Rightarrow> nat) \<Rightarrow> runtime \<Rightarrow> bool" where
  "skip_test h sched = check (run_declared skip_fixtures skip_decls counter_config h sched)
     (\<lambda>w. counted [] w = 2 \<and> is_success (w_stats w) \<and> tests_defined (w_stats w) = 4 \<and>
       tests_included (w_stats w) = 4 \<and> tests_launched (w_stats w) = 2 \<and> tests_passed (w_stats w) = 2 \<and>
       tests_failed (w_stats w) = 0 \<and> tests_skipped (w_stats w) = 2)"

lemma skip_test_passes: "skip_test h sched"
proof -
  have "skip_test (\<lambda>t. t) sched" by code_simp
  moreover have "orderly skip_fixtures skip_decls" by code_simp
  ultimately show ?thesis unfolding skip_test_def
    by (rule passes_for_every_order) (simp add: counted_same same_stats)
qed

section \<open>\<open>timeout.rs\<close>\<close>

definition timeout_fixtures :: "(string \<times> fixture) list" where
  "timeout_fixtures = [(''Fixture'', counter_fixture 2 default_can_run_concurrently)]"

definition timeout_decls :: "duration decl list" where
  "timeout_decls =
     declare_group [] ''timeout_root'' [] None @
     declare_test [] [''timeout_root''] None ''first'' [[''Fixture'']] (Ready_After 0) @
     declare_test [] [''timeout_root''] (Some (from_millis 1000)) ''second'' [[''Fixture'']] (Ready_After (from_millis 100)) @
     declare_test [] [''timeout_root''] (Some (from_millis 10)) ''timeouted'' [[''Fixture'']] (Ready_After (from_millis 100))"

definition timeout_test :: "(type_id \<Rightarrow> nat) \<Rightarrow> runtime \<Rightarrow> bool" where
  "timeout_test h sched = check
     (run_declared timeout_fixtures timeout_decls
       (config_with_default_timeout (from_secs 10) (config_with_permanent_fixture (1, 0) config_default)) h sched)
     (\<lambda>w. counted [] w = 2 \<and> \<not> is_success (w_stats w) \<and> tests_defined (w_stats w) = 3 \<and>
       tests_launched (w_stats w) = 3 \<and> tests_passed (w_stats w) = 2 \<and> tests_failed (w_stats w) = 1 \<and>
       failed_names (w_stats w) = [''timeout_root::timeouted''])"

lemma timeout_test_passes: "timeout_test h sched"
proof -
  have "timeout_test (\<lambda>t. t) sched" by code_simp
  moreover have "orderly timeout_fixtures timeout_decls" by code_simp
  ultimately show ?thesis unfolding timeout_test_def
    by (rule passes_for_every_order) (simp add: counted_same same_stats)
qed

section \<open>\<open>filter.rs\<close>\<close>

definition filter_fixtures :: "(string \<times> fixture) list" where
  "filter_fixtures = [(''FixtureCount'', counter_fixture 2 default_can_run_concurrently)]"

definition filter_decls :: "duration decl list" where
  "filter_decls =
     declare_group [] ''filter_root'' [] None @
     declare_group [] ''filter_group1'' [] (Some [''filter_root'']) @
     declare_group [] ''filter_group1_1'' [] (Some [''filter_group1'']) @
     declare_group [] ''filter_group1_2'' [] (Some [''filter_group1'']) @
     declare_group [] ''filter_group2'' [] (Some [''filter_root'']) @
     declare_group [] ''filter_group2_1'' [] (Some [''filter_group2'']) @
     declare_group [] ''filter_group2_2'' [] (Some [''filter_group2'']) @
     concat (map (\<lambda>(g, t). declare_test [] [g] None t [[''FixtureCount'']] (Ready_After 0))
       [(''filter_group1'', ''filter_test1_1''), (''filter_group1'', ''filter_test1_2''),
        (''filter_group1_1'', ''filter_test1_1_1''), (''filter_group1_1'', ''filter_test1_1_2''),
        (''filter_group1_2'', ''filter_test1_2_1''), (''filter_group1_2'', ''filter_test1_2_2''),
        (''filter_group2'', ''filter_test2_1''), (''filter_group2'', ''filter_test2_2''),
        (''filter_group2_1'', ''filter_test2_1_1''), (''filter_group2_1'', ''filter_test2_1_2''),
        (''filter_group2_2'', ''filter_test2_2_1''), (''filter_group2_2'', ''filter_test2_2_2'')])"

definition filter_run :: "string \<Rightarrow> nat \<Rightarrow> (type_id \<Rightarrow> nat) \<Rightarrow> runtime \<Rightarrow> bool" where
  "filter_run flt n h sched = check
     (run_declared filter_fixtures filter_decls
       (config_with_default_timeout (from_secs 1) (config_with_filter flt (config_with_permanent_fixture (1, 0) config_default)))
       h sched)
     (\<lambda>w. counted [] w = n \<and> is_success (w_stats w) \<and> tests_defined (w_stats w) = 12 \<and>
       tests_included (w_stats w) = n \<and> tests_launched (w_stats w) = n \<and> tests_passed (w_stats w) = n)"

definition filter_by_group :: "(type_id \<Rightarrow> nat) \<Rightarrow> runtime \<Rightarrow> bool" where
  "filter_by_group h sched = filter_run ''group1::'' 6 h sched"

definition filter_by_test :: "(type_id \<Rightarrow> nat) \<Rightarrow> runtime \<Rightarrow> bool" where
  "filter_by_test h sched = filter_run ''::test2_2'' 3 h sched"

lemma filter_orderly: "orderly filter_fixtures filter_decls"
  by code_simp

lemma filter_by_group_passes: "filter_by_group h sched"
proof -
  have "filter_by_group (\<lambda>t. t) sched" by code_simp
  then show ?thesis unfolding filter_by_group_def filter_run_def using filter_orderly
    by (rule passes_for_every_order) (simp add: counted_same same_stats)
qed

lemma filter_by_test_passes: "filter_by_test h sched"
proof -
  have "filter_by_test (\<lambda>t. t) sched" by code_simp
  then show ?thesis unfolding filter_by_test_def filter_run_def using filter_orderly
    by (rule passes_for_every_order) (simp add: counted_same same_stats)
qed

section \<open>\<open>hierarchy.rs\<close>\<close>

text \<open>These fixtures count in their setup and in their teardown.\<close>

definition hierarchy_fixtures :: "(string \<times> fixture) list" where
  "hierarchy_fixtures =
     [(''FixtureRoot'', counter_fixture 2 default_can_run_concurrently),
      (''FixtureGroup'', counter_fixture 3 default_can_run_concurrently),
      (''FixtureTest'', counter_fixture 4 default_can_run_concurrently),
      (''FixtureDeep'', counter_fixture 5 default_can_run_concurrently)]"

definition hierarchy1_decls :: "duration decl list" where
  "hierarchy1_decls =
     declare_group [] ''hierarchy_root1'' [''FixtureRoot''] None @
     declare_group [] ''hierarchy_group'' [''FixtureGroup''] (Some [''hierarchy_root1'']) @
     declare_test [] [''hierarchy_group''] None ''first1'' [[''FixtureTest'']] (Ready_After 0)"

definition run_root1 :: "(type_id \<Rightarrow> nat) \<Rightarrow> runtime \<Rightarrow> bool" where
  "run_root1 h sched = check (run_declared hierarchy_fixtures hierarchy1_decls counter_config h sched)
     (\<lambda>w. counted [2, 3, 4, 5] w = 7 \<and> is_success (w_stats w) \<and> tests_defined (w_stats w) = 1 \<and>
       tests_launched (w_stats w) = 1 \<and> tests_passed (w_stats w) = 1 \<and> tests_failed (w_stats w) = 0)"

lemma run_root1_passes: "run_root1 h sched"
proof -
  have "run_root1 (\<lambda>t. t) sched" by code_simp
  moreover have "orderly hierarchy_fixtures hierarchy1_decls" by code_simp
  ultimately show ?thesis unfolding run_root1_def
    by (rule passes_for_every_order) (simp add: counted_same same_stats)
qed

definition hierarchy2_decls :: "duration decl list" where
  "hierarchy2_decls =
     declare_group [''root''] ''hierarchy_root2'' [''FixtureRoot''] None @
     declare_group [''first''] ''hierarchy_first'' [''FixtureGroup''] (Some [''super'', ''root'', ''hierarchy_root2'']) @
     declare_test [''first''] [''hierarchy_first''] None ''first1'' [[''FixtureTest''], [''deep'', ''FixtureDeep'']] (Ready_After 0) @
     declare_test [''first''] [''hierarchy_first''] None ''first2'' [[''FixtureTest''], [''deep'', ''FixtureDeep'']] (Ready_After 0) @
     declare_group [''first'', ''deep''] ''hierarchy_deep'' [''FixtureGroup''] (Some [''super'', ''hierarchy_first'']) @
     declare_test [''first'', ''deep''] [''hierarchy_deep''] None ''deep1'' [[''FixtureTest''], [''FixtureDeep'']] (Ready_After 0) @
     declare_test [''first'', ''deep''] [''hierarchy_deep''] None ''deep2'' [[''FixtureTest''], [''FixtureDeep'']] (Ready_After 0) @
     declare_group [''second''] ''hierarchy_second'' [''FixtureGroup''] (Some [''super'', ''root'', ''hierarchy_root2'']) @
     declare_test [''second''] [''hierarchy_second''] None ''second1'' [[''FixtureTest'']] (Ready_After 0) @
     declare_test [''second''] [''hierarchy_second''] None ''second2'' [[''FixtureTest'']] (Ready_After 0)"

definition names_hierarchy_root2 :: bool where
  "names_hierarchy_root2 =
     (case link_group (test_linking hierarchy_fixtures hierarchy2_decls) hierarchy2_decls (length hierarchy2_decls)
         (hd (group_decls hierarchy2_decls)) of
        None \<Rightarrow> False
      | Some tree \<Rightarrow> set (test_names tree) =
          set [''hierarchy_first::first1'', ''hierarchy_first::first2'', ''hierarchy_first::hierarchy_deep::deep1'',
            ''hierarchy_first::hierarchy_deep::deep2'', ''hierarchy_second::second1'', ''hierarchy_second::second2''])"

lemma names_hierarchy_root2_passes: names_hierarchy_root2
  by code_simp

definition run_hierarchy_root2 :: "(type_id \<Rightarrow> nat) \<Rightarrow> runtime \<Rightarrow> bool" where
  "run_hierarchy_root2 h sched = check (run_declared hierarchy_fixtures hierarchy2_decls counter_config h sched)
     (\<lambda>w. counted [2, 3, 4, 5] w = 32 \<and> is_success (w_stats w) \<and> tests_defined (w_stats w) = 6 \<and>
       tests_launched (w_stats w) = 6 \<and> tests_passed (w_stats w) = 6 \<and> tests_failed (w_stats w) = 0)"

lemma run_hierarchy_root2_passes: "run_hierarchy_root2 h sched"
proof -
  have "run_hierarchy_root2 (\<lambda>t. t) sched" by code_simp
  moreover have "orderly hierarchy_fixtures hierarchy2_decls" by code_simp
  ultimately show ?thesis unfolding run_hierarchy_root2_def
    by (rule passes_for_every_order) (simp add: counted_same same_stats)
qed

section \<open>\<open>concurrency.rs\<close>\<close>

text \<open>
  The body of each test sleeps and pushes its name to the shared log, \<open>REPEATS\<close> times.  To the runner
  it is one future; what the bodies push is read off the log of events of the run: a body pushes
  between the launch of its test and the event that ends it.  Which of the sleeps of the running
  bodies ends next is left open: \<open>wakes\<close> lists, for the time before each event of the run, the
  bodies that wake up, in their order.
\<close>

definition TIMEOUT :: duration where
  "TIMEOUT = from_millis 1"

definition REPEATS :: nat where
  "REPEATS = 10"

definition concurrency_fixtures :: "(string \<times> fixture) list" where
  "concurrency_fixtures = [(''Concurrently'', counter_fixture 2 True),
     (''NotConcurrently'', counter_fixture 3 default_can_run_concurrently)]"

definition concurrency_body :: fut where
  "concurrency_body = Ready_After (REPEATS * TIMEOUT)"

definition concurrency_decls :: "duration decl list" where
  "concurrency_decls =
     declare_group [] ''concurrency_root'' [] None @
     declare_group [] ''concurrency_group1'' [] (Some [''concurrency_root'']) @
     declare_group [] ''concurrency_group2'' [''NotConcurrently''] (Some [''concurrency_root'']) @
     declare_test [] [''concurrency_group1''] None ''test1'' [[''Concurrently'']] concurrency_body @
     declare_test [] [''concurrency_group1''] None ''test2'' [[''NotConcurrently'']] concurrency_body @
     declare_test [] [''concurrency_group1''] None ''test3'' [[''Concurrently'']] concurrency_body @
     declare_test [] [''concurrency_group2''] None ''test4'' [[''Concurrently'']] concurrency_body @
     declare_test [] [''concurrency_group2''] None ''test5'' [[''Concurrently'']] concurrency_body"

text \<open>What the body of a test pushes, and the bodies that run, each with the pushes it has left.\<close>

definition pushed_name :: "string \<Rightarrow> string option" where
  "pushed_name = map_of
     [(''concurrency_root::concurrency_group1::test1'', ''test1''),
      (''concurrency_root::concurrency_group1::test2'', ''test2''),
      (''concurrency_root::concurrency_group1::test3'', ''test3''),
      (''concurrency_root::concurrency_group2::test4'', ''test4''),
      (''concurrency_root::concurrency_group2::test5'', ''test5'')]"

type_synonym bodies = "(string \<times> nat) list"

text \<open>The sleep of the body at this position ends and the body pushes; \<^term>\<open>None\<close> if it sleeps no more.\<close>

fun wake_up :: "nat \<Rightarrow> bodies \<times> string list \<Rightarrow> (bodies \<times> string list) option" where
  "wake_up i (running, log) =
     (if i < length running
      then (case running ! i of
              (name, Suc n) \<Rightarrow>
                map_option (\<lambda>text. (running[i := (name, n)], log @ [text])) (pushed_name name)
            | _ \<Rightarrow> None)
      else None)"

fun wake_each :: "nat list \<Rightarrow> bodies \<times> string list \<Rightarrow> (bodies \<times> string list) option" where
  "wake_each [] s = Some s"
| "wake_each (i # is) s = Option.bind (wake_up i s) (wake_each is)"

text \<open>A body that passes has pushed all it had to push; one that fails is given up.\<close>

definition bodies_after :: "event_entry \<Rightarrow> bodies \<Rightarrow> bodies option" where
  "bodies_after e running =
     (let others = filter (\<lambda>b. fst b \<noteq> entry_name e) running in
      case entry_event e of
        TestLaunched \<Rightarrow> Some (running @ [(entry_name e, REPEATS)])
      | TestPassed \<Rightarrow> if (entry_name e, 0) \<in> set running then Some others else None
      | TestFailed \<Rightarrow> Some others
      | _ \<Rightarrow> Some running)"

fun pushes :: "nat list list \<Rightarrow> event_entry list \<Rightarrow> bodies \<times> string list \<Rightarrow> string list option" where
  "pushes wakes [] s = Some (snd s)"
| "pushes wakes (e # es) s =
     Option.bind (wake_each (case wakes of [] \<Rightarrow> [] | w # _ \<Rightarrow> w) s) (\<lambda>(running, log).
     Option.bind (bodies_after e running) (\<lambda>running. pushes (tl wakes) es (running, log)))"

definition concurrency_asserts :: "string list \<Rightarrow> bool" where
  "concurrency_asserts log \<longleftrightarrow> 50 \<le> length log \<and>
     take 10 log \<noteq> replicate 10 ''test1'' \<and> take 10 log \<noteq> replicate 10 ''test3'' \<and>
     take 10 (drop 10 log) \<noteq> replicate 10 ''test1'' \<and> take 10 (drop 10 log) \<noteq> replicate 10 ''test3'' \<and>
     ''test1'' \<in> set (take 20 log) \<and> ''test3'' \<in> set (take 20 log) \<and>
     take 10 (drop 20 log) = replicate 10 ''test2'' \<and> take 10 (drop 30 log) = replicate 10 ''test4'' \<and>
     take 10 (drop 40 log) = replicate 10 ''test5''"

definition concurrency_test :: "(type_id \<Rightarrow> nat) \<Rightarrow> runtime \<Rightarrow> nat list list \<Rightarrow> bool" where
  "concurrency_test h sched wakes = check
     (run_declared concurrency_fixtures concurrency_decls (config_with_concurrency 10 counter_config) h sched)
     (\<lambda>w. (case pushes wakes (events (w_stats w)) ([], []) of None \<Rightarrow> False | Some log \<Rightarrow> concurrency_asserts log) \<and>
       is_success (w_stats w) \<and> tests_defined (w_stats w) = 5 \<and> tests_included (w_stats w) = 5 \<and>
       tests_launched (w_stats w) = 5 \<and> tests_passed (w_stats w) = 5)"

definition concurrency_sched :: "runtime" where
  "concurrency_sched = eager [(0, 0), (1, 0), (1, 0), (0, 2), (1, 3), (0, 0), (1, 0)]"

text \<open>
  The bodies of \<open>test1\<close> and \<open>test3\<close>, both launched before event 10, wake up in turn; the others run
  alone and end with the events 19, 29 and 35.
\<close>

definition concurrency_wakes :: "nat list list" where
  "concurrency_wakes = map (\<lambda>k. if k = 10 then concat (replicate REPEATS [0, 1])
     else if k \<in> {19, 29, 35} then replicate REPEATS 0 else []) [0..<36]"

lemma concurrency_test_passes: "concurrency_test h concurrency_sched concurrency_wakes"
proof -
  have "concurrency_test (\<lambda>t. t) concurrency_sched concurrency_wakes" by code_simp
  moreover have "orderly concurrency_fixtures concurrency_decls" by code_simp
  ultimately show ?thesis unfolding concurrency_test_def
    by (rule passes_for_every_order) (simp add: same_stats)
qed

section \<open>The example of the documentation\<close>

text \<open>Type 1 is \<open>FixtureCfg\<close>; a fixture whose setup is another one with \<open>?\<close>.\<close>

definition fixture_one :: fixture where
  "fixture_one = Fixture 2 None None False (Call_Get 1 (Return_Some []) Panic_Now) (Ready_After 0)"

definition fixture_two :: fixture where
  "fixture_two = Fixture 3 None None False (Call_Setup fixture_one (Return_Some []) Return_None) (Ready_After 0)"

definition fixture_three :: fixture where
  "fixture_three = Fixture 4 None None False (Call_Setup fixture_two (Return_Some []) Return_None) (Ready_After 0)"

definition doc_fixtures :: "(string \<times> fixture) list" where
  "doc_fixtures = [(''FixtureOne'', fixture_one), (''FixtureTwo'', fixture_two), (''FixtureThree'', fixture_three),
     (''Skip'', skip_fixture 5)]"

definition doc_decls :: "duration decl list" where
  "doc_decls =
     declare_group [''sample''] ''root'' [''FixtureOne''] None @
     declare_group [''sample''] ''group'' [''FixtureTwo''] (Some [''root'']) @
     declare_test [''sample''] [''group''] (Some (from_secs 5)) ''dns_ip_100'' [[''FixtureOne''], [''FixtureTwo'']] (Ready_After 0) @
     declare_test [''sample''] [''group''] None ''dns_ip_200'' [[''FixtureOne''], [''e2etest'', ''Skip'']] (Panics_After 0) @
     declare_test [''sample''] [''group''] None ''number_and_octet'' [[''FixtureTwo''], [''FixtureThree'']] (Ready_After 0)"

definition doc_example :: "(type_id \<Rightarrow> nat) \<Rightarrow> runtime \<Rightarrow> bool" where
  "doc_example h sched = check
     (run_declared doc_fixtures doc_decls
       (config_with_default_timeout (from_secs 10) (config_with_permanent_fixture (1, 0) config_default)) h sched)
     (\<lambda>w. is_success (w_stats w) \<and> tests_defined (w_stats w) = 3 \<and> tests_included (w_stats w) = 3 \<and>
       tests_launched (w_stats w) = 2 \<and> tests_passed (w_stats w) = 2 \<and> tests_skipped (w_stats w) = 1)"

lemma doc_example_passes: "doc_example h sched"
proof -
  have "doc_example (\<lambda>t. t) sched" by code_simp
  moreover have "orderly doc_fixtures doc_decls" by code_simp
  ultimately show ?thesis unfolding doc_example_def
    by (rule passes_for_every_order) (simp add: counted_same same_stats)
qed

lemmas integration_tests_pass = empty_test_passes skip_test_passes timeout_test_passes filter_by_group_passes
  filter_by_test_passes run_root1_passes names_hierarchy_root2_passes run_hierarchy_root2_passes
  concurrency_test_passes doc_example_passes

end
