(* ===== verification/Unit_Tests.thy ===== *)
theory Unit_Tests
  imports Runner
begin

text \<open>
  The unit tests of the framework: the \<open>tests\<close> modules of \<open>crates/e2etest/src/filter.rs\<close>,
  \<open>statistics.rs\<close> and \<open>group.rs\<close>.  Each test is a definition that says whether all its assertions
  hold of the model, and a lemma that it passes.  An index into a map without the key is a failed test.
\<close>

section \<open>\<open>filter.rs\<close>\<close>

definition ready_fixture :: "type_id \<Rightarrow> fixture" where
  "ready_fixture t = Fixture t default_timeout_setup default_timeout_teardown default_can_run_concurrently
     (Return_Some []) (Ready_After 0)"

definition test_impl :: "string \<Rightarrow> test_desc" where
  "test_impl name = \<lparr>t_name = name, t_timeout = None, t_fixture = ready_fixture 2, t_body = Ready_After 0\<rparr>"

definition make_dummy_group :: "string \<Rightarrow> string list \<Rightarrow> group" where
  "make_dummy_group group_name names = Group group_name (ready_fixture 1) (map test_impl names) []"

definition make_test_cases :: group where
  "make_test_cases = Group ''root'' (ready_fixture 1) []
     [make_dummy_group ''crud'' [''simple_create'', ''drop_index''],
      make_dummy_group ''full_scan'' [''scan_index'', ''scan_all''],
      make_dummy_group ''other'' [''misc'', ''simple_misc'']]"

definition make_overlapping_test_cases :: group where
  "make_overlapping_test_cases = Group ''root'' (ready_fixture 1) []
     [make_dummy_group ''crud'' [''simple_create'', ''simple_create_extra''],
      make_dummy_group ''crud_extra'' [''simple_create'', ''simple_create_additional'']]"

definition filter_of :: "string list \<Rightarrow> group \<Rightarrow> test_filter" where
  "filter_of fs g = filter_new fs (g_name g) (test_names g)"

text \<open>\<open>result.tests[group]\<close> is empty, contains a test, does not contain it.\<close>

definition whole_group :: "test_filter \<Rightarrow> string \<Rightarrow> bool" where
  "whole_group r g = (case map_of (f_tests r) g of Some ts \<Rightarrow> ts = {} | None \<Rightarrow> False)"

definition has_test :: "test_filter \<Rightarrow> string \<Rightarrow> string \<Rightarrow> bool" where
  "has_test r g t = (case map_of (f_tests r) g of Some ts \<Rightarrow> t \<in> ts | None \<Rightarrow> False)"

definition lacks_test :: "test_filter \<Rightarrow> string \<Rightarrow> string \<Rightarrow> bool" where
  "lacks_test r g t = (case map_of (f_tests r) g of Some ts \<Rightarrow> t \<notin> ts | None \<Rightarrow> False)"

definition sizes :: "test_filter \<Rightarrow> nat \<Rightarrow> bool" where
  "sizes r n \<longleftrightarrow> card (f_groups r) = n \<and> length (f_tests r) = n"

definition test_no_filters_runs_all :: bool where
  "test_no_filters_runs_all = (let result = filter_of [] make_test_cases in
     f_groups result = {} \<and> f_tests result = [])"

definition test_empty_filters_runs_all :: bool where
  "test_empty_filters_runs_all = (let result = filter_of [''::''] make_test_cases in sizes result 3 \<and>
     ''root::crud'' \<in> f_groups result \<and> whole_group result ''root::crud'' \<and>
     ''root::full_scan'' \<in> f_groups result \<and> whole_group result ''root::full_scan'' \<and>
     ''root::other'' \<in> f_groups result \<and> whole_group result ''root::other'')"

definition test_group_partial_match :: bool where
  "test_group_partial_match = (let result = filter_of [''crud''] make_test_cases in
     ''root::crud'' \<in> f_groups result \<and> whole_group result ''root::crud'' \<and> sizes result 1)"

definition test_test_case_partial_match :: bool where
  "test_test_case_partial_match = (let result = filter_of [''simple''] make_test_cases in
     ''root::crud'' \<in> f_groups result \<and> has_test result ''root::crud'' ''simple_create'' \<and>
     ''root::other'' \<in> f_groups result \<and> has_test result ''root::other'' ''simple_misc'' \<and> sizes result 2)"

definition test_group_and_test_case_syntax :: bool where
  "test_group_and_test_case_syntax = (let result = filter_of [''crud::simple''] make_test_cases in
     ''root::crud'' \<in> f_groups result \<and> has_test result ''root::crud'' ''simple_create'' \<and> sizes result 1)"

definition test_group_and_empty_test_case_syntax :: bool where
  "test_group_and_empty_test_case_syntax = (let result = filter_of [''crud::''] make_test_cases in
     ''root::crud'' \<in> f_groups result \<and> whole_group result ''root::crud'' \<and> sizes result 1)"

definition test_empty_group_and_test_case_syntax :: bool where
  "test_empty_group_and_test_case_syntax = (let result = filter_of [''::simple''] make_test_cases in
     ''root::crud'' \<in> f_groups result \<and> has_test result ''root::crud'' ''simple_create'' \<and>
     ''root::other'' \<in> f_groups result \<and> has_test result ''root::other'' ''simple_misc'' \<and> sizes result 2)"

text \<open>A name between double quotes.\<close>

definition dq :: "string \<Rightarrow> string" where
  "dq s = CHR 0x22 # s @ [CHR 0x22]"

definition test_exact_group_match_syntax :: bool where
  "test_exact_group_match_syntax = (let result = filter_of [dq ''crud'' @ ''::''] make_overlapping_test_cases in
     ''root::crud'' \<in> f_groups result \<and> whole_group result ''root::crud'' \<and> sizes result 1)"

definition test_exact_test_case_match_syntax :: bool where
  "test_exact_test_case_match_syntax = (let result = filter_of [''::'' @ dq ''simple_create''] make_overlapping_test_cases in
     ''root::crud'' \<in> f_groups result \<and> has_test result ''root::crud'' ''simple_create'' \<and>
     lacks_test result ''root::crud'' ''simple_create_extra'' \<and>
     ''root::crud_extra'' \<in> f_groups result \<and> has_test result ''root::crud_extra'' ''simple_create'' \<and>
     lacks_test result ''root::crud_extra'' ''simple_create_additional'' \<and> sizes result 2)"

definition test_exact_group_and_test_case_syntax :: bool where
  "test_exact_group_and_test_case_syntax = (let result = filter_of [dq ''crud'' @ ''::'' @ dq ''simple_create''] make_overlapping_test_cases in
     ''root::crud'' \<in> f_groups result \<and> has_test result ''root::crud'' ''simple_create'' \<and>
     lacks_test result ''root::crud'' ''simple_create_extra'' \<and> sizes result 1)"

lemma filter_tests_pass:
  test_no_filters_runs_all
  test_empty_filters_runs_all
  test_group_partial_match
  test_test_case_partial_match
  test_group_and_test_case_syntax
  test_group_and_empty_test_case_syntax
  test_empty_group_and_test_case_syntax
  test_exact_group_match_syntax
  test_exact_test_case_match_syntax
  test_exact_group_and_test_case_syntax
  by code_simp+

section \<open>\<open>statistics.rs\<close>\<close>

text \<open>A sequence of calls of \<open>record\<close>, \<^term>\<open>None\<close> when one of them panics.\<close>

fun record_all :: "(string \<times> event) list \<Rightarrow> inner mutex \<Rightarrow> inner mutex option" where
  "record_all [] m = Some m"
| "record_all ((name, ev) # es) m =
     (case statistics_record name ev m of (Some (), m') \<Rightarrow> record_all es m' | (None, m') \<Rightarrow> None)"

definition recorded :: "(string \<times> event) list \<Rightarrow> (inner \<Rightarrow> bool) \<Rightarrow> bool" where
  "recorded es P = (case record_all es statistics_new of Some (Free s) \<Rightarrow> P s | _ \<Rightarrow> False)"

definition failing :: bool where
  "failing \<longleftrightarrow>
     (let foo = [(''foo'', TestDefined), (''foo'', TestIncluded)] in
      recorded foo is_success \<and>
      recorded (foo @ [(''foo'', TestFailed)]) (\<lambda>s. \<not> is_success s) \<and>
      recorded (foo @ [(''foo'', SetupFailed TaskTest)]) (\<lambda>s. \<not> is_success s) \<and>
      recorded (foo @ [(''foo'', SetupFailed TaskGroup)]) (\<lambda>s. \<not> is_success s) \<and>
      recorded (foo @ [(''foo'', TeardownFailed)]) (\<lambda>s. \<not> is_success s))"

definition calculations_events :: "(string \<times> event) list" where
  "calculations_events =
     [(''root1::branch1::test1'', TestDefined), (''root1::branch1::test2'', TestDefined),
      (''root1::branch1::test3'', TestDefined), (''root1::branch2::test1'', TestDefined),
      (''root1::branch2::test2'', TestDefined), (''root1::branch2::test3'', TestDefined),
      (''root1::test1'', TestDefined), (''root1::test2'', TestDefined),
      (''root1::test3'', TestDefined), (''root2::branch1::test1'', TestDefined),
      (''root2::branch1::test2'', TestDefined), (''root2::branch1::test3'', TestDefined),
      (''root2::branch2::test1'', TestDefined), (''root2::branch2::test2'', TestDefined),
      (''root2::branch2::test3'', TestDefined), (''root2::test1'', TestDefined),
      (''root2::test2'', TestDefined), (''root2::test3'', TestDefined),
      (''root1::branch1::test1'', TestIncluded), (''root1::branch1::test2'', TestIncluded),
      (''root1::branch2::test3'', TestIncluded), (''root1::test1'', TestIncluded),
      (''root1::test2'', TestIncluded), (''root2::branch1::test2'', TestIncluded),
      (''root2::branch1::test3'', TestIncluded), (''root2::branch2::test2'', TestIncluded),
      (''root2::test3'', TestIncluded), (''root1'', SetupLaunched),
      (''root1'', SetupPassed), (''root1::branch1'', SetupLaunched),
      (''root1::branch1'', SetupPassed), (''root1::branch1::test1'', SetupLaunched),
      (''root1::branch1::test1'', SetupPassed), (''root1::branch1::test1'', TestLaunched),
      (''root1::branch1::test1'', TestPassed), (''root1::branch1::test1'', TeardownLaunched),
      (''root1::branch1::test1'', TeardownPassed), (''root1::branch1::test2'', SetupLaunched),
      (''root1::branch1::test2'', SetupSkipped TaskTest), (''root1::branch1::test2'', TeardownLaunched),
      (''root1::branch1::test2'', TeardownPassed), (''root1::branch1'', TeardownLaunched),
      (''root1::branch1'', TeardownPassed), (''root1::branch2'', SetupLaunched),
      (''root1::branch2'', SetupSkipped TaskGroup), (''root1::branch2'', TeardownLaunched),
      (''root1::branch2'', TeardownPassed), (''root1::test1'', SetupLaunched),
      (''root1::test1'', SetupFailed TaskTest), (''root1::test1'', TeardownLaunched),
      (''root1::test1'', TeardownPassed), (''root1::test2'', SetupLaunched),
      (''root1::test2'', SetupPassed), (''root1::test2'', TestLaunched),
      (''root1::test2'', TestPassed), (''root1::test2'', TeardownLaunched),
      (''root1::test2'', TeardownPassed), (''root1'', TeardownLaunched),
      (''root1'', TeardownFailed), (''root2'', SetupLaunched),
      (''root2'', SetupPassed), (''root2::branch1'', SetupLaunched),
      (''root2::branch1'', SetupSkipped TaskGroup), (''root2::branch1'', TeardownLaunched),
      (''root2::branch1'', TeardownPassed), (''root2::branch2'', SetupLaunched),
      (''root2::branch2'', SetupFailed TaskGroup), (''root2::branch2'', TeardownLaunched),
      (''root2::branch2'', TeardownPassed), (''root2::test3'', SetupLaunched),
      (''root2::test3'', SetupPassed), (''root2::test3'', TestLaunched),
      (''root2::test3'', TestFailed), (''root2::test3'', TeardownLaunched),
      (''root2::test3'', TeardownPassed), (''root2'', TeardownLaunched),
      (''root2'', TeardownPassed)]"

definition calculations_counters :: "inner \<Rightarrow> bool" where
  "calculations_counters s \<longleftrightarrow>
     tests_defined s = 18 \<and> tests_included s = 9 \<and> tests_launched s = 3 \<and> tests_skipped s = 4 \<and>
     tests_skipped_by_fixture_err s = 2 \<and> tests_passed s = 2 \<and> tests_failed s = 1 \<and>
     setups_launched s = 11 \<and> setups_passed s = 6 \<and> setups_skipped s = 3 \<and> setups_failed s = 2 \<and>
     teardowns_launched s = 11 \<and> teardowns_passed s = 10 \<and> teardowns_failed s = 1"

definition calculations_names :: "inner \<Rightarrow> bool" where
  "calculations_names s \<longleftrightarrow>
     tests_passed_names s = [''root1::branch1::test1'', ''root1::test2''] \<and>
     tests_skipped_names s = [''root1::branch1::test2'', ''root1::branch2::test3'', ''root2::branch1::test2'',
       ''root2::branch1::test3''] \<and>
     tests_skipped_by_fixture_err_names s = [''root1::test1'', ''root2::branch2::test2''] \<and>
     failed_names s = [''root1'', ''root1::test1'', ''root2::branch2'', ''root2::test3'']"

definition calculations :: bool where
  "calculations = recorded calculations_events (\<lambda>s. calculations_counters s \<and> calculations_names s)"

lemma statistics_tests_pass: failing calculations
  by code_simp+

section \<open>\<open>group.rs\<close>\<close>

definition cleanup_fixture :: fixture where
  "cleanup_fixture = Fixture 1 default_timeout_setup default_timeout_teardown default_can_run_concurrently
     (Return_Some []) (Panics_After 0)"

definition boom_test :: "string \<Rightarrow> test_desc" where
  "boom_test name = \<lparr>t_name = name, t_timeout = None, t_fixture = ready_fixture 2,
     t_body = (if name = ''boom'' then Panics_After 0 else Ready_After 0)\<rparr>"

definition collects_failed_test_names :: "(type_id \<Rightarrow> nat) \<Rightarrow> runtime \<Rightarrow> bool" where
  "collects_failed_test_names h sched =
     (let g = Group ''crud'' cleanup_fixture [boom_test ''ok'', boom_test ''boom''] [];
          ctx = with_default_timeout (from_secs 1) (with_filter (filter_of [] g) run_context_new);
          start = run_start (fixtures_new h) sched in
      case do { w \<leftarrow> record_w ''crud::ok'' TestDefined start;
                w \<leftarrow> record_w ''crud::boom'' TestDefined w;
                w \<leftarrow> record_w ''crud::ok'' TestIncluded w;
                w \<leftarrow> record_w ''crud::boom'' TestIncluded w;
                run_group ctx [] g w } of
        None \<Rightarrow> False
      | Some w \<Rightarrow> (let s = w_stats w in
          \<not> is_success s \<and> tests_included s = 2 \<and> tests_launched s = 2 \<and> tests_passed s = 1 \<and> tests_failed s = 1 \<and>
          tests_skipped_by_fixture_err s = 0 \<and> teardowns_failed s = 1 \<and> failed_names s = [''crud'', ''crud::boom'']))"

lemma group_tests_pass: "collects_failed_test_names (\<lambda>t. t) sched"
  by code_simp

end
