(* ===== verification/Actors.thy ===== *)
theory Actors
  imports Prelude
begin

text \<open>
  The actors of the fixture crates.  Each crate has the same shape: an \<open>mpsc\<close> channel of capacity
  10, a task \<open>while let Some(msg) = rx.recv().await { process(msg, ..).await }\<close>, and requests that
  carry the sender of a \<open>oneshot\<close> channel for the answer.  A \<open>oneshot\<close> sender is an identifier; the
  state of its channel says whether the requester still waits.  \<open>process\<close> returns \<^term>\<open>None\<close> when
  it panics, which ends the task: the mailbox is dropped and all that still wait see the sender
  gone.  What is said here of the channels is what \<open>tokio\<close> documents of them; the code of the crates
  are the arms of \<open>process\<close>, the loop \<open>drain\<close> and the requests \<open>ask\<close> and \<open>tell\<close>.
\<close>

section \<open>Channels\<close>

type_synonym reply_id = nat

datatype 'r oneshot = Awaited | Answered 'r | Receiver_Gone | Sender_Gone

type_synonym 'r channels = "reply_id \<Rightarrow> 'r oneshot"

text \<open>\<open>tx.send(r)\<close>: an error when the receiver is gone.\<close>

definition oneshot_send :: "reply_id \<Rightarrow> 'r \<Rightarrow> 'r channels \<Rightarrow> 'r channels option" where
  "oneshot_send i r ch = (case ch i of Receiver_Gone \<Rightarrow> None | _ \<Rightarrow> Some (ch(i := Answered r)))"

text \<open>\<open>rx.await.expect(..)\<close> of a requester: the answer, or a panic when the sender is gone.\<close>

definition oneshot_expect :: "reply_id \<Rightarrow> 'r channels \<Rightarrow> 'r option" where
  "oneshot_expect i ch = (case ch i of Answered r \<Rightarrow> Some r | _ \<Rightarrow> None)"

text \<open>The last step of an arm that answers: \<open>tx.send(r).expect(..)\<close>.\<close>

definition send_reply :: "reply_id \<Rightarrow> 'r \<Rightarrow> 's \<Rightarrow> 'r channels \<Rightarrow> ('s \<times> 'r channels) option" where
  "send_reply tx r s ch = map_option (\<lambda>ch'. (s, ch')) (oneshot_send tx r ch)"

lemma oneshot_send_Awaited [simp]: "ch i = Awaited \<Longrightarrow> oneshot_send i r ch = Some (ch(i := Answered r))"
  by (simp add: oneshot_send_def)

lemma oneshot_send_Gone [simp]: "ch i = Receiver_Gone \<Longrightarrow> oneshot_send i r ch = None"
  by (simp add: oneshot_send_def)

section \<open>The loop of an actor\<close>

type_synonym ('m, 's, 'r) process = "'m \<Rightarrow> 's \<Rightarrow> 'r channels \<Rightarrow> ('s \<times> 'r channels) option"

text \<open>The loop over messages that arrive in a given order, until all senders are dropped.\<close>

fun drain :: "('m, 's, 'r) process \<Rightarrow> 'm list \<Rightarrow> 's \<Rightarrow> 'r channels \<Rightarrow> ('s \<times> 'r channels) option" where
  "drain process [] s ch = Some (s, ch)"
| "drain process (m # ms) s ch =
     (case process m s ch of None \<Rightarrow> None | Some (s', ch') \<Rightarrow> drain process ms s' ch')"

text \<open>
  A method of the extension trait of an actor, run by a client that is alone: it makes a channel,
  sends the request, which the idle actor handles, and awaits the answer.  \<^term>\<open>None\<close> is the
  panic of one of its two \<open>expect\<close>s.  \<open>tell\<close> is a method that awaits no answer.
\<close>

definition ask :: "('m, 's, 'r) process \<Rightarrow> (reply_id \<Rightarrow> 'm) \<Rightarrow> 's \<Rightarrow> ('r \<times> 's) option" where
  "ask process msg s =
     (case process (msg 0) s (\<lambda>_. Awaited) of
        None \<Rightarrow> None
      | Some (s', ch) \<Rightarrow> (case oneshot_expect 0 ch of None \<Rightarrow> None | Some r \<Rightarrow> Some (r, s')))"

definition tell :: "('m, 's, 'r) process \<Rightarrow> 'm \<Rightarrow> 's \<Rightarrow> 's option" where
  "tell process msg s =
     (case process msg s (\<lambda>_. Awaited) of None \<Rightarrow> None | Some (s', ch) \<Rightarrow> Some s')"

definition MAILBOX :: nat where
  "MAILBOX = 10"

record ('m, 's, 'r) system =
  task_state :: "'s option"
  mailbox :: "'m list"
  channels :: "'r channels"
  sent :: "'m list"
  handled :: "'m list"

text \<open>
  The steps of an actor and its clients.  \<open>sent\<close> and \<open>handled\<close> are histories.  A client of a dead
  task panics, which is no step here.
\<close>

inductive actor_step :: "('m, 's, 'r) process \<Rightarrow> ('m, 's, 'r) system \<Rightarrow> ('m, 's, 'r) system \<Rightarrow> bool"
  for process where
  send: "task_state x = Some s \<Longrightarrow> length (mailbox x) < MAILBOX \<Longrightarrow>
     actor_step process x (x\<lparr>mailbox := mailbox x @ [m], sent := sent x @ [m]\<rparr>)"
| cancel: "channels x i = Awaited \<Longrightarrow>
     actor_step process x (x\<lparr>channels := (channels x)(i := Receiver_Gone)\<rparr>)"
| handle: "task_state x = Some s \<Longrightarrow> mailbox x = m # ms \<Longrightarrow> process m s (channels x) = Some (s', ch) \<Longrightarrow>
     actor_step process x
       (x\<lparr>task_state := Some s', mailbox := ms, channels := ch, handled := handled x @ [m]\<rparr>)"
| crash: "task_state x = Some s \<Longrightarrow> mailbox x = m # ms \<Longrightarrow> process m s (channels x) = None \<Longrightarrow>
     actor_step process x
       (x\<lparr>task_state := None, mailbox := [],
          channels := (\<lambda>i. if channels x i = Awaited then Sender_Gone else channels x i)\<rparr>)"

inductive_cases actor_stepE: "actor_step process x y"

definition actor_init :: "'s \<Rightarrow> ('m, 's, 'r) system" where
  "actor_init s = \<lparr>task_state = Some s, mailbox = [], channels = (\<lambda>_. Awaited), sent = [], handled = []\<rparr>"

inductive actor_reachable :: "('m, 's, 'r) process \<Rightarrow> 's \<Rightarrow> ('m, 's, 'r) system \<Rightarrow> bool"
  for process s0 where
  init: "actor_reachable process s0 (actor_init s0)"
| step: "actor_reachable process s0 x \<Longrightarrow> actor_step process x y \<Longrightarrow> actor_reachable process s0 y"

section \<open>The contract of an actor\<close>

text \<open>
  \<open>reply_to\<close> is the channel a request carries, \<open>answer\<close> and \<open>next\<close> are what the request returns and
  does to the state, \<open>valid\<close> when it does not fail for reasons of its own.
\<close>

locale actor =
  fixes process :: "'m \<Rightarrow> 's \<Rightarrow> 'r channels \<Rightarrow> ('s \<times> 'r channels) option"
    and reply_to :: "'m \<Rightarrow> reply_id option"
    and answer :: "'m \<Rightarrow> 's \<Rightarrow> 'r"
    and next_state :: "'m \<Rightarrow> 's \<Rightarrow> 's"
    and valid :: "'m \<Rightarrow> 's \<Rightarrow> bool"
  assumes answered: "valid m s \<Longrightarrow> (\<And>i. reply_to m = Some i \<Longrightarrow> ch i = Awaited) \<Longrightarrow>
      process m s ch = Some (next_state m s,
        case reply_to m of None \<Rightarrow> ch | Some i \<Rightarrow> ch(i := Answered (answer m s)))"
    and handled_state: "process m s ch = Some (s', ch') \<Longrightarrow> s' = next_state m s \<and> valid m s"
begin

fun states_after :: "'m list \<Rightarrow> 's \<Rightarrow> 's" where
  "states_after [] s = s"
| "states_after (m # ms) s = states_after ms (next_state m s)"

fun all_valid :: "'m list \<Rightarrow> 's \<Rightarrow> bool" where
  "all_valid [] s = True"
| "all_valid (m # ms) s = (valid m s \<and> all_valid ms (next_state m s))"

lemma states_after_append [simp]: "states_after (xs @ ys) s = states_after ys (states_after xs s)"
  by (induction xs arbitrary: s) auto

text \<open>Requests that are waited for are all answered, each with the state the earlier ones left.\<close>

lemma drain_answers:
  assumes "all_valid ms s" and "distinct (List.map_filter reply_to ms)"
    and "\<forall>i \<in> set (List.map_filter reply_to ms). ch i = Awaited"
  shows "\<exists>ch'. drain process ms s ch = Some (states_after ms s, ch') \<and>
    (\<forall>xs m ys i. ms = xs @ m # ys \<longrightarrow> reply_to m = Some i \<longrightarrow> ch' i = Answered (answer m (states_after xs s))) \<and>
    (\<forall>i. i \<notin> set (List.map_filter reply_to ms) \<longrightarrow> ch' i = ch i)"
  using assms
proof (induction ms arbitrary: s ch)
  case (Cons m ms)
  let ?ch = "case reply_to m of None \<Rightarrow> ch | Some i \<Rightarrow> ch(i := Answered (answer m s))"
  have p: "process m s ch = Some (next_state m s, ?ch)"
    using Cons.prems by (intro answered) (auto simp: List.map_filter_simps split: option.splits)
  have "\<forall>i \<in> set (List.map_filter reply_to ms). ?ch i = Awaited"
    and d: "distinct (List.map_filter reply_to ms)"
    using Cons.prems by (auto simp: List.map_filter_simps split: option.splits)
  with Cons.IH [of "next_state m s" ?ch] Cons.prems(1) obtain ch' where
    ch': "drain process ms (next_state m s) ?ch = Some (states_after ms (next_state m s), ch')"
      "\<forall>xs m' ys i. ms = xs @ m' # ys \<longrightarrow> reply_to m' = Some i \<longrightarrow>
         ch' i = Answered (answer m' (states_after xs (next_state m s)))"
      "\<forall>i. i \<notin> set (List.map_filter reply_to ms) \<longrightarrow> ch' i = ?ch i"
    by auto
  have "ch' i = Answered (answer m' (states_after xs s))"
    if "m # ms = xs @ m' # ys" "reply_to m' = Some i" for xs m' ys i
  proof (cases xs)
    case Nil
    with that have m: "m' = m" "ms = ys" by auto
    with that Cons.prems(2) have "i \<notin> set (List.map_filter reply_to ms)"
      by (simp add: List.map_filter_simps)
    with ch'(3) that m Nil show ?thesis by simp
  next
    case (Cons x zs)
    with that have "x = m" "ms = zs @ m' # ys" by auto
    with ch'(2) that(2) Cons show ?thesis by simp
  qed
  moreover have "ch' i = ch i" if "i \<notin> set (List.map_filter reply_to (m # ms))" for i
    using ch'(3) that by (auto simp: List.map_filter_simps split: option.splits)
  ultimately show ?case
    using p ch'(1) by (intro exI [of _ ch']) auto
qed simp

text \<open>While the task lives, messages are handled in the order they were sent, none lost or repeated.\<close>

lemma reachable_in_order:
  assumes "actor_reachable process s0 x"
  shows "(\<forall>s. task_state x = Some s \<longrightarrow> sent x = handled x @ mailbox x) \<and>
    (\<forall>s. task_state x = Some s \<longrightarrow> s = states_after (handled x) s0) \<and>
    length (mailbox x) \<le> MAILBOX \<and> (\<exists>rest. sent x = handled x @ rest) \<and> all_valid (handled x) s0"
  using assms
proof (induction rule: actor_reachable.induct)
  case init
  then show ?case by (simp add: actor_init_def)
next
  case (step x y)
  have valid_snoc: "all_valid (ms @ [m]) s \<longleftrightarrow> all_valid ms s \<and> valid m (states_after ms s)" for ms m s
    by (induction ms arbitrary: s) auto
  from step.hyps(2) step.IH show ?case
  proof cases
    case (handle s m ms s' ch)
    with handled_state [OF handle(4)] step.IH show ?thesis
      by (auto simp: valid_snoc)
  qed auto
qed

end

text \<open>An actor that panics when the requester of an answer is gone.\<close>

locale strict_actor = actor +
  assumes gone: "reply_to m = Some i \<Longrightarrow> ch i = Receiver_Gone \<Longrightarrow> process m s ch = None"
begin

lemma all_valid_snoc: "all_valid (ms @ [m]) s \<longleftrightarrow> all_valid ms s \<and> valid m (states_after ms s)"
  by (induction ms arbitrary: s) auto

text \<open>
  The channels of a reachable system, when no two requests carry the same one: every handled request
  is answered from the state that the messages before it left, and no other channel holds an answer.
\<close>

lemma reachable_channels:
  assumes "actor_reachable process s0 x" and "distinct (List.map_filter reply_to (sent x))"
  shows "(\<forall>i. i \<notin> set (List.map_filter reply_to (handled x)) \<longrightarrow>
      channels x i \<in> {Awaited, Receiver_Gone} \<or> (task_state x = None \<and> channels x i = Sender_Gone)) \<and>
    (\<forall>xs m ys i. handled x = xs @ m # ys \<longrightarrow> reply_to m = Some i \<longrightarrow>
      channels x i = Answered (answer m (states_after xs s0)))"
  using assms
proof (induction rule: actor_reachable.induct)
  case init
  then show ?case by (simp add: actor_init_def)
next
  case (step x y)
  note order = reachable_in_order [OF step.hyps(1)]
  from step.hyps(2) show ?case
  proof cases
    case (send s m)
    with step.prems have "distinct (List.map_filter reply_to (sent x))"
      by (simp add: List.map_filter_def)
    with step.IH send show ?thesis by simp
  next
    case (cancel i)
    with step.prems have IH: "(\<forall>i. i \<notin> set (List.map_filter reply_to (handled x)) \<longrightarrow>
        channels x i \<in> {Awaited, Receiver_Gone} \<or> (task_state x = None \<and> channels x i = Sender_Gone))"
      "\<forall>xs m ys i. handled x = xs @ m # ys \<longrightarrow> reply_to m = Some i \<longrightarrow>
        channels x i = Answered (answer m (states_after xs s0))" using step.IH by auto
    have "j \<noteq> i" if "handled x = xs @ m # ys" "reply_to m = Some j" for xs m ys j
      using IH(2) that cancel(2) by force
    with IH cancel(1) show ?thesis by auto
  next
    case (handle s m ms s' ch)
    with step.prems have d: "distinct (List.map_filter reply_to (sent x))" by simp
    from step.IH [OF d] have IH: "\<forall>i. i \<notin> set (List.map_filter reply_to (handled x)) \<longrightarrow>
        channels x i \<in> {Awaited, Receiver_Gone}"
      "\<forall>xs m ys i. handled x = xs @ m # ys \<longrightarrow> reply_to m = Some i \<longrightarrow>
        channels x i = Answered (answer m (states_after xs s0))" using handle(2) by auto
    have s: "s = states_after (handled x) s0" and sent: "sent x = handled x @ m # ms"
      using order handle(2,3) by auto
    have fresh: "i \<notin> set (List.map_filter reply_to (handled x))" if "reply_to m = Some i" for i
      using d that by (auto simp: sent List.map_filter_def)
    have "channels x i = Awaited" if r: "reply_to m = Some i" for i
      using IH(1) fresh [OF r] gone [OF r] handle(4) by fastforce
    with handle(4) answered [of m s "channels x"] handled_state [OF handle(4)]
    have ch: "ch = (case reply_to m of None \<Rightarrow> channels x | Some i \<Rightarrow> (channels x)(i := Answered (answer m s)))"
      by auto
    have "channels y i \<in> {Awaited, Receiver_Gone}" if "i \<notin> set (List.map_filter reply_to (handled y))" for i
      using that IH(1) handle(1) ch by (auto simp: List.map_filter_def split: option.splits)
    moreover have "channels y i = Answered (answer m' (states_after xs s0))"
      if h: "handled y = xs @ m' # ys" and r: "reply_to m' = Some i" for xs m' ys i
    proof (cases ys rule: rev_cases)
      case Nil
      with h r ch s handle(1) show ?thesis by simp
    next
      case (snoc zs z)
      with h handle(1) have hx: "handled x = xs @ m' # zs" by simp
      then have "i \<in> set (List.map_filter reply_to (handled x))" using r by (simp add: List.map_filter_def)
      with fresh have "reply_to m \<noteq> Some i" by blast
      with IH(2) hx r ch handle(1) show ?thesis by (auto split: option.splits)
    qed
    ultimately show ?thesis by blast
  next
    case (crash s m ms)
    with step.prems have "distinct (List.map_filter reply_to (sent x))" by simp
    from step.IH [OF this] crash show ?thesis by fastforce
  qed
qed

text \<open>A request that was cancelled while it waited in the mailbox ends the task.\<close>

lemma cancelled_request_crashes:
  assumes "task_state x = Some s" and "mailbox x = m # ms" and "reply_to m = Some i"
    and "channels x i = Receiver_Gone" and "j \<noteq> i" and "channels x j = Awaited"
    and "actor_step process x y" and "mailbox y = ms \<or> task_state y = None" and "ms \<noteq> []"
  shows "task_state y = None \<and> oneshot_expect j (channels y) = None"
proof -
  have none: "process m s (channels x) = None" using gone assms(3,4) by blast
  from assms(7) show ?thesis
    using assms none by cases (auto simp: oneshot_expect_def)
qed

end

section \<open>Actors whose handlers need no log\<close>

text \<open>A handler returns the new state and the answer, or panics; the answer is sent with \<open>expect\<close>.\<close>

definition reply_process ::
    "('m \<Rightarrow> 's \<Rightarrow> ('s \<times> 'r) option) \<Rightarrow> ('m \<Rightarrow> reply_id option) \<Rightarrow> ('m, 's, 'r) process" where
  "reply_process handle reply_to m s ch =
     (case handle m s of
        None \<Rightarrow> None
      | Some (s', r) \<Rightarrow>
          (case reply_to m of
             None \<Rightarrow> Some (s', ch)
           | Some i \<Rightarrow> map_option (\<lambda>ch'. (s', ch')) (oneshot_send i r ch)))"

definition reply_answer :: "('m \<Rightarrow> 's \<Rightarrow> ('s \<times> 'r) option) \<Rightarrow> 'm \<Rightarrow> 's \<Rightarrow> 'r" where
  "reply_answer handle m s = snd (the (handle m s))"

definition reply_next :: "('m \<Rightarrow> 's \<Rightarrow> ('s \<times> 'r) option) \<Rightarrow> 'm \<Rightarrow> 's \<Rightarrow> 's" where
  "reply_next handle m s = (case handle m s of Some (s', r) \<Rightarrow> s' | None \<Rightarrow> s)"

definition reply_valid :: "('m \<Rightarrow> 's \<Rightarrow> ('s \<times> 'r) option) \<Rightarrow> 'm \<Rightarrow> 's \<Rightarrow> bool" where
  "reply_valid handle m s = (handle m s \<noteq> None)"

lemma reply_strict_actor:
  fixes handle :: "'m \<Rightarrow> 's \<Rightarrow> ('s \<times> 'r) option"
  shows "strict_actor (reply_process handle reply_to) reply_to (reply_answer handle) (reply_next handle) (reply_valid handle)"
proof
  fix m s and ch :: "'r channels"
  assume "reply_valid handle m s" and aw: "\<And>i. reply_to m = Some i \<Longrightarrow> ch i = Awaited"
  then show "reply_process handle reply_to m s ch = Some (reply_next handle m s,
      case reply_to m of None \<Rightarrow> ch | Some i \<Rightarrow> ch(i := Answered (reply_answer handle m s)))"
    by (auto simp: reply_valid_def reply_process_def reply_next_def reply_answer_def split: option.splits)
next
  fix m s s' and ch ch' :: "'r channels"
  assume "reply_process handle reply_to m s ch = Some (s', ch')"
  then show "s' = reply_next handle m s \<and> reply_valid handle m s"
    by (auto simp: reply_process_def reply_next_def reply_valid_def split: option.splits)
next
  fix m i s and ch :: "'r channels"
  assume "reply_to m = Some i" and "ch i = Receiver_Gone"
  then show "reply_process handle reply_to m s ch = None"
    by (auto simp: reply_process_def split: option.splits)
qed

lemma ask_reply:
  "reply_to (msg 0) = Some 0 \<Longrightarrow> ask (reply_process handle reply_to) msg s =
     map_option (\<lambda>(s', r). (r, s')) (handle (msg 0) s)"
  by (auto simp: ask_def reply_process_def oneshot_expect_def split: option.splits)

lemma tell_reply:
  "reply_to msg = None \<Longrightarrow> tell (reply_process handle reply_to) msg s = map_option fst (handle msg s)"
  by (auto simp: tell_def reply_process_def split: option.splits)

text \<open>An invariant of the handlers holds after any sequence of messages.\<close>

lemma reply_drain_invariant:
  assumes "\<And>m s s' r. I s \<Longrightarrow> handle m s = Some (s', r) \<Longrightarrow> I s'"
  shows "I s \<Longrightarrow> drain (reply_process handle reply_to) ms s ch = Some (s', ch') \<Longrightarrow> I s'"
proof (induction ms arbitrary: s ch)
  case (Cons m ms)
  from Cons.prems(2) obtain s1 ch1 where p: "reply_process handle reply_to m s ch = Some (s1, ch1)"
    and d: "drain (reply_process handle reply_to) ms s1 ch1 = Some (s', ch')" by (auto split: option.splits)
  from p obtain r where "handle m s = Some (s1, r)" by (auto simp: reply_process_def split: option.splits)
  from Cons.IH [OF assms [OF Cons.prems(1) this] d] show ?case .
qed simp

end
