(* ===== verification/Effects.thy ===== *)
theory Effects
  imports Prelude "HOL-Library.Word"
begin

text \<open>
  The operating system as the fixture crates use it.  An operation is a function from the log of the
  effects so far, each with the answer it got, to an outcome with the longer log: \<open>Returned\<close>,
  \<open>Panicked\<close> (an \<open>expect\<close> or \<open>assert!\<close> that failed) or \<open>Still_Waiting\<close> (a polling loop that has
  not ended within its fuel).  What the system answers is a parameter \<open>os\<close>, a function of the log
  and the effect; \<open>tokio\<close>, \<open>tempfile\<close>, \<open>sysinfo\<close> and \<open>reqwest\<close> are only seen through it.
\<close>

section \<open>Addresses, paths and numbers\<close>

type_synonym path = string

datatype ipv4 = Ipv4 "8 word" "8 word" "8 word" "8 word"

fun octets :: "ipv4 \<Rightarrow> 8 word list" where
  "octets (Ipv4 a b c d) = [a, b, c, d]"

fun is_loopback :: "ipv4 \<Rightarrow> bool" where
  "is_loopback (Ipv4 a b c d) = (a = 127)"

text \<open>\<open>to_string\<close> of integers, addresses and booleans.\<close>

definition digit_char :: "nat \<Rightarrow> char" where
  "digit_char n = char_of (48 + n)"

fun show_nat :: "nat \<Rightarrow> string" where
  "show_nat n = (if n < 10 then [digit_char n] else show_nat (n div 10) @ [digit_char (n mod 10)])"

declare show_nat.simps [simp del]

fun show_ipv4 :: "ipv4 \<Rightarrow> string" where
  "show_ipv4 (Ipv4 a b c d) =
     show_nat (unat a) @ ''.'' @ show_nat (unat b) @ ''.'' @ show_nat (unat c) @ ''.'' @ show_nat (unat d)"

type_synonym socket_addr = "ipv4 \<times> 16 word"

definition show_addr :: "socket_addr \<Rightarrow> string" where
  "show_addr a = show_ipv4 (fst a) @ '':'' @ show_nat (unat (snd a))"

definition show_bool :: "bool \<Rightarrow> string" where
  "show_bool b = (if b then ''true'' else ''false'')"

text \<open>\<open>Path::join\<close> of a relative name.\<close>

definition path_join :: "path \<Rightarrow> string \<Rightarrow> path" where
  "path_join p name = (if p = [] then name else if last p = CHR ''/'' then p @ name else p @ ''/'' @ name)"

definition join_with :: "string \<Rightarrow> string list \<Rightarrow> string" where
  "join_with sep xs = (case xs of [] \<Rightarrow> [] | y # ys \<Rightarrow> y @ concat (map (\<lambda>x. sep @ x) ys))"

section \<open>Effects and outcomes\<close>

record command =
  cmd_program :: path
  cmd_args :: "string list"
  cmd_envs :: "(string \<times> string) list"
  cmd_silent :: bool
  cmd_user :: "(nat \<times> nat) option"

definition command_new :: "path \<Rightarrow> command" where
  "command_new p = \<lparr>cmd_program = p, cmd_args = [], cmd_envs = [], cmd_silent = False, cmd_user = None\<rparr>"

definition cmd_arg :: "string \<Rightarrow> command \<Rightarrow> command" where
  "cmd_arg a c = c\<lparr>cmd_args := cmd_args c @ [a]\<rparr>"

definition cmd_env :: "string \<Rightarrow> string \<Rightarrow> command \<Rightarrow> command" where
  "cmd_env k v c = c\<lparr>cmd_envs := cmd_envs c @ [(k, v)]\<rparr>"

text \<open>What the process sees: the last value set for a key.\<close>

definition env_lookup :: "command \<Rightarrow> string \<Rightarrow> string option" where
  "env_lookup c k = map_of (rev (cmd_envs c)) k"

datatype effect =
    Metadata path
  | Create_Dir_All path
  | Write_File path string
  | Flush_File path
  | Temp_File
  | Set_Mode path nat
  | Read_File path
  | Remove_File path
  | Create_New path
  | Temp_Dir_In path
  | Temp_Dir
  | Remove_Dir path
  | Chown path nat nat
  | List_Users
  | Spawn command
  | Run_Output command
  | Start_Kill nat
  | Await_Exit nat
  | Tcp_Connect socket_addr nat
  | Http_Get string
  | Sleep_Millis nat

datatype response =
    Failed
  | Success
  | Process_Id nat
  | Dir_Path path
  | File_Metadata bool nat
  | Users_Found "(string \<times> nat \<times> nat) list"
  | Exited bool string
  | Body string

type_synonym effect_log = "(effect \<times> response) list"

type_synonym os = "effect_log \<Rightarrow> effect \<Rightarrow> response"

datatype 'a outcome = Returned 'a effect_log | Panicked effect_log | Still_Waiting effect_log

type_synonym 'a io = "effect_log \<Rightarrow> 'a outcome"

definition io_return :: "'a \<Rightarrow> 'a io" where
  "io_return x l = Returned x l"

definition io_panic :: "'a io" where
  "io_panic l = Panicked l"

definition io_wait :: "'a io" where
  "io_wait l = Still_Waiting l"

definition io_bind :: "'a io \<Rightarrow> ('a \<Rightarrow> 'b io) \<Rightarrow> 'b io" where
  "io_bind m f l = (case m l of
      Returned x l' \<Rightarrow> f x l'
    | Panicked l' \<Rightarrow> Panicked l'
    | Still_Waiting l' \<Rightarrow> Still_Waiting l')"

definition perform :: "os \<Rightarrow> effect \<Rightarrow> response io" where
  "perform os e l = Returned (os l e) (l @ [(e, os l e)])"

text \<open>\<open>assert!\<close>, and \<open>.expect(..)\<close> on the kinds of answers.\<close>

definition io_assert :: "bool \<Rightarrow> unit io" where
  "io_assert b = (if b then io_return () else io_panic)"

definition expect_success :: "os \<Rightarrow> effect \<Rightarrow> unit io" where
  "expect_success os e = io_bind (perform os e) (\<lambda>r. io_assert (r = Success))"

definition expect_pid :: "os \<Rightarrow> effect \<Rightarrow> nat io" where
  "expect_pid os e = io_bind (perform os e) (\<lambda>r. case r of Process_Id p \<Rightarrow> io_return p | _ \<Rightarrow> io_panic)"

definition expect_dir :: "os \<Rightarrow> effect \<Rightarrow> path io" where
  "expect_dir os e = io_bind (perform os e) (\<lambda>r. case r of Dir_Path p \<Rightarrow> io_return p | _ \<Rightarrow> io_panic)"

definition expect_output :: "os \<Rightarrow> effect \<Rightarrow> (bool \<times> string) io" where
  "expect_output os e = io_bind (perform os e) (\<lambda>r. case r of Exited ok out \<Rightarrow> io_return (ok, out) | _ \<Rightarrow> io_panic)"

text \<open>A \<open>for\<close> loop that updates a state, and one over an option.\<close>

fun io_for :: "('a \<Rightarrow> 's \<Rightarrow> 's io) \<Rightarrow> 'a list \<Rightarrow> 's \<Rightarrow> 's io" where
  "io_for f [] s = io_return s"
| "io_for f (x # xs) s = io_bind (f x s) (\<lambda>s'. io_for f xs s')"

section \<open>Reasoning about outcomes\<close>

named_theorems io_simps \<open>outcomes of operations\<close>

lemma io_return_iff [io_simps]: "io_return x l = Returned y l' \<longleftrightarrow> y = x \<and> l' = l"
  by (auto simp: io_return_def)

lemma io_panic_iff [io_simps]: "io_panic l = Returned y l' \<longleftrightarrow> False"
  by (simp add: io_panic_def)

lemma io_wait_iff [io_simps]: "io_wait l = Returned y l' \<longleftrightarrow> False"
  by (simp add: io_wait_def)

lemma io_bind_iff [io_simps]:
  "io_bind m f l = Returned y l' \<longleftrightarrow> (\<exists>x l1. m l = Returned x l1 \<and> f x l1 = Returned y l')"
  by (auto simp: io_bind_def split: outcome.splits)

lemma perform_iff [io_simps]: "perform os e l = Returned r l' \<longleftrightarrow> r = os l e \<and> l' = l @ [(e, os l e)]"
  by (auto simp: perform_def)

lemma io_assert_iff [io_simps]: "io_assert b l = Returned u l' \<longleftrightarrow> b \<and> l' = l"
  by (auto simp: io_assert_def io_return_def io_panic_def)

lemma expect_success_iff [io_simps]:
  "expect_success os e l = Returned u l' \<longleftrightarrow> os l e = Success \<and> l' = l @ [(e, Success)]"
  by (auto simp: expect_success_def io_simps)

lemma expect_pid_iff [io_simps]:
  "expect_pid os e l = Returned p l' \<longleftrightarrow> os l e = Process_Id p \<and> l' = l @ [(e, Process_Id p)]"
  by (auto simp: expect_pid_def io_simps split: response.splits)

lemma expect_dir_iff [io_simps]:
  "expect_dir os e l = Returned p l' \<longleftrightarrow> os l e = Dir_Path p \<and> l' = l @ [(e, Dir_Path p)]"
  by (auto simp: expect_dir_def io_simps split: response.splits)

lemma expect_output_iff [io_simps]:
  "expect_output os e l = Returned r l' \<longleftrightarrow>
     os l e = Exited (fst r) (snd r) \<and> l' = l @ [(e, Exited (fst r) (snd r))]"
  by (cases r) (auto simp: expect_output_def io_simps split: response.splits)

lemma io_bind_return [simp]: "io_bind (io_return x) f = f x"
  by (simp add: io_bind_def io_return_def fun_eq_iff)

lemma io_bind_Returned: "m l = Returned x l' \<Longrightarrow> io_bind m f l = f x l'"
  by (simp add: io_bind_def)

text \<open>Invariants of \<open>for\<close> loops.\<close>

lemma io_for_append [io_simps]:
  "io_for f (xs @ ys) s l = Returned s' l' \<longleftrightarrow>
     (\<exists>s1 l1. io_for f xs s l = Returned s1 l1 \<and> io_for f ys s1 l1 = Returned s' l')"
  by (induction xs arbitrary: s l) (auto simp: io_simps)

lemma io_for_invariant:
  assumes "io_for f xs s l = Returned s' l'" and "P [] s l"
    and "\<And>ys y zs s l s' l'. xs = ys @ y # zs \<Longrightarrow> P ys s l \<Longrightarrow> f y s l = Returned s' l' \<Longrightarrow>
      P (ys @ [y]) s' l'"
  shows "P xs s' l'"
proof -
  have "io_for f zs s l = Returned s' l' \<Longrightarrow> xs = ys @ zs \<Longrightarrow> P ys s l \<Longrightarrow> P xs s' l'" for ys zs s l
  proof (induction zs arbitrary: ys s l)
    case (Cons z zs)
    then obtain s1 l1 where "f z s l = Returned s1 l1" "io_for f zs s1 l1 = Returned s' l'"
      by (auto simp: io_simps)
    with Cons.IH [of s1 l1 "ys @ [z]"] Cons.prems assms(3) show ?case by simp
  qed (simp add: io_simps)
  from this [of xs s l "[]"] assms(1,2) show ?thesis by simp
qed

section \<open>Operations that only append to the log\<close>

text \<open>
  An operation relates the log before and after by \<open>R\<close> when it returns.  For a preorder the
  operations with this property are closed under the combinators.
\<close>

definition io_rel :: "(effect_log \<Rightarrow> effect_log \<Rightarrow> bool) \<Rightarrow> 'a io \<Rightarrow> bool" where
  "io_rel R m \<longleftrightarrow> (\<forall>l x l'. m l = Returned x l' \<longrightarrow> R l l')"

lemma io_relD: "io_rel R m \<Longrightarrow> m l = Returned x l' \<Longrightarrow> R l l'"
  by (simp add: io_rel_def)

abbreviation log_grows :: "'a io \<Rightarrow> bool" where
  "log_grows \<equiv> io_rel prefix"

named_theorems io_rel_intros \<open>operations closed under the combinators\<close>

lemma io_rel_return [io_rel_intros]: "reflp R \<Longrightarrow> io_rel R (io_return x)"
  by (auto simp: io_rel_def io_return_iff dest: reflpD)

lemma io_rel_panic [io_rel_intros]: "io_rel R io_panic"
  by (auto simp: io_rel_def io_panic_iff)

lemma io_rel_wait [io_rel_intros]: "io_rel R io_wait"
  by (auto simp: io_rel_def io_wait_iff)

lemma io_rel_assert [io_rel_intros]: "reflp R \<Longrightarrow> io_rel R (io_assert b)"
  by (auto simp: io_rel_def io_assert_iff dest: reflpD)

lemma io_rel_bind [io_rel_intros]:
  "transp R \<Longrightarrow> io_rel R m \<Longrightarrow> (\<And>x. io_rel R (f x)) \<Longrightarrow> io_rel R (io_bind m f)"
  unfolding io_rel_def io_bind_iff by (meson transpD)

lemma io_rel_for [io_rel_intros]:
  "reflp R \<Longrightarrow> transp R \<Longrightarrow> (\<And>x s. io_rel R (f x s)) \<Longrightarrow> io_rel R (io_for f xs s)"
  by (induction xs arbitrary: s) (auto intro: io_rel_return io_rel_bind)

lemma io_rel_if [io_rel_intros]:
  "(b \<Longrightarrow> io_rel R m) \<Longrightarrow> (\<not> b \<Longrightarrow> io_rel R n) \<Longrightarrow> io_rel R (if b then m else n)"
  by simp

lemma io_rel_option [io_rel_intros]:
  "io_rel R m \<Longrightarrow> (\<And>x. io_rel R (f x)) \<Longrightarrow> io_rel R (case v of None \<Rightarrow> m | Some x \<Rightarrow> f x)"
  by (cases v) auto

lemma io_rel_list [io_rel_intros]:
  "io_rel R m \<Longrightarrow> (\<And>x xs. io_rel R (f x xs)) \<Longrightarrow> io_rel R (case v of [] \<Rightarrow> m | x # xs \<Rightarrow> f x xs)"
  by (cases v) auto

lemma io_rel_prod [io_rel_intros]:
  "(\<And>x y. io_rel R (f x y)) \<Longrightarrow> io_rel R (case v of (x, y) \<Rightarrow> f x y)"
  by (cases v) auto

lemma prefix_preorder [io_rel_intros]: "reflp prefix" "transp prefix"
  by (auto intro: reflpI transpI prefix_order.trans)

lemma grows_perform [io_rel_intros]: "log_grows (perform os e)"
  by (auto simp: io_rel_def perform_iff)

lemma grows_expect [io_rel_intros]: "log_grows (expect_success os e)" "log_grows (expect_pid os e)"
  "log_grows (expect_dir os e)" "log_grows (expect_output os e)"
  by (auto simp: io_rel_def expect_success_iff expect_pid_iff expect_dir_iff expect_output_iff)

text \<open>How often an effect was asked for.\<close>

definition asked :: "effect \<Rightarrow> effect_log \<Rightarrow> nat" where
  "asked e l = length (filter (\<lambda>x. fst x = e) l)"

lemma asked_append [simp]: "asked e (l @ m) = asked e l + asked e m"
  by (simp add: asked_def)

lemma asked_Nil [simp]: "asked e [] = 0"
  by (simp add: asked_def)

lemma asked_Cons [simp]: "asked e (x # l) = (if fst x = e then Suc (asked e l) else asked e l)"
  by (simp add: asked_def)

section \<open>Processes\<close>

text \<open>The processes that were awaited, and those that were spawned and not awaited.\<close>

definition exited :: "effect_log \<Rightarrow> nat set" where
  "exited l = {p. (Await_Exit p, Success) \<in> set l}"

definition alive :: "effect_log \<Rightarrow> nat set" where
  "alive l = {p. \<exists>c. (Spawn c, Process_Id p) \<in> set l} - exited l"

text \<open>The system does not hand out the identifier of a process twice.\<close>

definition fresh_pids :: "os \<Rightarrow> bool" where
  "fresh_pids os \<longleftrightarrow> (\<forall>l c p. os l (Spawn c) = Process_Id p \<longrightarrow>
     (\<forall>c'. (Spawn c', Process_Id p) \<notin> set l) \<and> p \<notin> exited l)"

text \<open>Removing a killed child, shared by the clusters: \<open>start_kill\<close> and \<open>wait\<close>.\<close>

definition kill_child :: "os \<Rightarrow> nat \<Rightarrow> unit io" where
  "kill_child os p = io_bind (expect_success os (Start_Kill p)) (\<lambda>_. expect_success os (Await_Exit p))"

lemma kill_child_iff [io_simps]:
  "kill_child os p l = Returned u l' \<longleftrightarrow>
     os l (Start_Kill p) = Success \<and> os (l @ [(Start_Kill p, Success)]) (Await_Exit p) = Success \<and>
     l' = l @ [(Start_Kill p, Success), (Await_Exit p, Success)]"
  by (auto simp: kill_child_def io_simps)

lemma grows_kill_child [io_rel_intros]: "log_grows (kill_child os p)"
  by (auto simp: io_rel_def kill_child_iff)

lemma alive_append_other [simp]:
  "(\<And>c. e \<noteq> Spawn c) \<Longrightarrow> (\<And>p. e \<noteq> Await_Exit p) \<Longrightarrow> alive (l @ [(e, r)]) = alive l"
  by (auto simp: alive_def exited_def)

lemma alive_quiet:
  "\<forall>x \<in> set m. (\<forall>c. fst x \<noteq> Spawn c) \<and> (\<forall>p. fst x \<noteq> Await_Exit p) \<Longrightarrow> alive (l @ m) = alive l"
  by (fastforce simp: alive_def exited_def)

lemma alive_spawn:
  "os l (Spawn c) = Process_Id p \<Longrightarrow> fresh_pids os \<Longrightarrow> alive (l @ [(Spawn c, Process_Id p)]) = insert p (alive l)"
  by (auto simp: alive_def exited_def fresh_pids_def)

lemma alive_kill_child: "kill_child os p l = Returned u l' \<Longrightarrow> alive l' = alive l - {p}"
  by (auto simp: io_simps alive_def exited_def)

text \<open>
  The temporary directories that were made and that the code has not removed since.  A \<open>TempDir\<close> that
  is dropped ignores the error of its removal: \<open>kept_dirs\<close> are the directories whose removal was not
  tried, \<open>left_dirs\<close> those that exist, also because the system refused to remove them.
\<close>

definition made_dir :: "response \<Rightarrow> path set" where
  "made_dir r = (case r of Dir_Path p \<Rightarrow> {p} | _ \<Rightarrow> {})"

definition dir_step :: "effect \<times> response \<Rightarrow> path set \<Rightarrow> path set" where
  "dir_step x D = (case fst x of
      Temp_Dir_In d \<Rightarrow> D \<union> made_dir (snd x)
    | Temp_Dir \<Rightarrow> D \<union> made_dir (snd x)
    | Remove_Dir p \<Rightarrow> D - {p}
    | _ \<Rightarrow> D)"

lemma dir_step_simps [simp]:
  "dir_step (Temp_Dir_In d, Dir_Path p) D = insert p D" "dir_step (Temp_Dir, Dir_Path p) D = insert p D"
  "dir_step (Remove_Dir p, r) D = D - {p}" "dir_step (Chown p u g, r) D = D" "dir_step (List_Users, r) D = D"
  "dir_step (Create_Dir_All p, r) D = D" "dir_step (Write_File p c, r) D = D" "dir_step (Spawn cmd, r) D = D"
  "dir_step (Start_Kill q, r) D = D" "dir_step (Await_Exit q, r) D = D"
  by (simp_all add: dir_step_def made_dir_def)

definition kept_dirs :: "effect_log \<Rightarrow> path set" where
  "kept_dirs l = fold dir_step l {}"

lemma kept_dirs_append [simp]: "kept_dirs (l @ m) = fold dir_step m (kept_dirs l)"
  by (simp add: kept_dirs_def)

definition left_step :: "effect \<times> response \<Rightarrow> path set \<Rightarrow> path set" where
  "left_step x D = (case fst x of
      Remove_Dir p \<Rightarrow> if snd x = Failed then D else D - {p}
    | _ \<Rightarrow> dir_step x D)"

definition left_dirs :: "effect_log \<Rightarrow> path set" where
  "left_dirs l = fold left_step l {}"

definition refused_dirs :: "effect_log \<Rightarrow> path set" where
  "refused_dirs l = {p. (Remove_Dir p, Failed) \<in> set l}"

lemma left_dirs_kept: "left_dirs l \<subseteq> kept_dirs l \<union> refused_dirs l"
proof (induction l rule: rev_induct)
  case (snoc x l)
  obtain e r where x: "x = (e, r)" by (cases x)
  have "left_step x D \<subseteq> dir_step x K \<union> refused_dirs (l @ [x])" if "D \<subseteq> K \<union> refused_dirs l" for D K
    using that by (cases e) (auto simp: x left_step_def dir_step_def refused_dirs_def)
  with snoc show ?case by (simp add: left_dirs_def)
qed (simp add: left_dirs_def)

lemma left_dirs_none: "kept_dirs l = {} \<Longrightarrow> left_dirs l \<subseteq> refused_dirs l"
  using left_dirs_kept [of l] by simp

section \<open>Operations that leave processes and directories alone\<close>

definition same_owned :: "effect_log \<Rightarrow> effect_log \<Rightarrow> bool" where
  "same_owned l l' \<longleftrightarrow> alive l' = alive l \<and> kept_dirs l' = kept_dirs l"

abbreviation quiet :: "'a io \<Rightarrow> bool" where
  "quiet \<equiv> io_rel same_owned"

lemma same_owned_preorder [io_rel_intros]: "reflp same_owned" "transp same_owned"
  by (auto simp: same_owned_def intro: reflpI transpI)

definition quiet_effect :: "effect \<Rightarrow> bool" where
  "quiet_effect e = (case e of
      Temp_Dir_In d \<Rightarrow> False | Temp_Dir \<Rightarrow> False | Remove_Dir p \<Rightarrow> False
    | Spawn c \<Rightarrow> False | Await_Exit p \<Rightarrow> False | _ \<Rightarrow> True)"

lemma quiet_effect_same: "quiet_effect e \<Longrightarrow> same_owned l (l @ [(e, r)])"
  by (cases e) (auto simp: quiet_effect_def same_owned_def dir_step_def)

lemma quiet_perform [io_rel_intros]: "quiet_effect e \<Longrightarrow> quiet (perform os e)"
  by (auto simp: io_rel_def perform_iff quiet_effect_same)

lemma quiet_expect [io_rel_intros]:
  "quiet_effect e \<Longrightarrow> quiet (expect_success os e)" "quiet_effect e \<Longrightarrow> quiet (expect_output os e)"
  by (auto simp: io_rel_def expect_success_iff expect_output_iff quiet_effect_same)

section \<open>Polling\<close>

text \<open>The log after a question and a pause.\<close>

definition retried :: "os \<Rightarrow> effect \<Rightarrow> effect_log \<Rightarrow> effect_log" where
  "retried os e l =
     (let l1 = l @ [(e, os l e)] in l1 @ [(Sleep_Millis 100, os l1 (Sleep_Millis 100))])"

lemma alive_retried [simp]:
  "(\<And>c. e \<noteq> Spawn c) \<Longrightarrow> (\<And>p. e \<noteq> Await_Exit p) \<Longrightarrow> alive (retried os e l) = alive l"
  by (auto simp: retried_def Let_def alive_def exited_def)

lemma prefix_retried [simp]: "prefix l (retried os e l)"
  by (simp add: retried_def Let_def)

lemma asked_retried [simp]:
  "asked e (retried os e' l) = (if e = e' then Suc (asked e l) else asked e l) + (if e = Sleep_Millis 100 then 1 else 0)"
  by (simp add: retried_def Let_def)

lemma kept_retried [simp]:
  "(\<And>D r. dir_step (e, r) D = D) \<Longrightarrow> kept_dirs (retried os e l) = kept_dirs l"
  by (simp add: retried_def Let_def dir_step_def)

end
