(* ===== verification/Cluster_Actors.thy ===== *)
theory Cluster_Actors
  imports Actors Effects Rust_Strings
begin

unbundle bit_operations_syntax

text \<open>
  What the actors of the clusters share: a message is handled by an operation with effects, and the
  answer is sent afterwards, which panics when the requester is gone.  The state of such an actor is
  its own state with the log of the effects.  A handler that panics or waits for ever does not
  return to the loop.  \<open>io_process\<close> is the shape that the arms of both actors have; each actor has
  its arms written out and is shown to have it.
\<close>

text \<open>An operation of an arm that is awaited, and what the arm does with its result.\<close>

definition awaiting :: "'a io \<Rightarrow> effect_log \<Rightarrow> ('a \<Rightarrow> effect_log \<Rightarrow> 'b option) \<Rightarrow> 'b option" where
  "awaiting m l k = (case m l of Returned x l' \<Rightarrow> k x l' | _ \<Rightarrow> None)"

definition io_process ::
    "('m \<Rightarrow> 's \<Rightarrow> ('s \<times> 'r) io) \<Rightarrow> ('m \<Rightarrow> reply_id option) \<Rightarrow> ('m, 's \<times> effect_log, 'r) process" where
  "io_process handle reply_to m s ch =
     (case handle m (fst s) (snd s) of
        Returned (s', r) l' \<Rightarrow>
          (case reply_to m of
             None \<Rightarrow> Some ((s', l'), ch)
           | Some i \<Rightarrow> map_option (\<lambda>ch'. ((s', l'), ch')) (oneshot_send i r ch))
      | _ \<Rightarrow> None)"

definition io_valid :: "('m \<Rightarrow> 's \<Rightarrow> ('s \<times> 'r) io) \<Rightarrow> 'm \<Rightarrow> 's \<times> effect_log \<Rightarrow> bool" where
  "io_valid handle m s = (case handle m (fst s) (snd s) of Returned _ _ \<Rightarrow> True | _ \<Rightarrow> False)"

definition io_next :: "('m \<Rightarrow> 's \<Rightarrow> ('s \<times> 'r) io) \<Rightarrow> 'm \<Rightarrow> 's \<times> effect_log \<Rightarrow> 's \<times> effect_log" where
  "io_next handle m s = (case handle m (fst s) (snd s) of Returned (s', r) l' \<Rightarrow> (s', l') | _ \<Rightarrow> s)"

definition io_answer :: "('m \<Rightarrow> 's \<Rightarrow> ('s \<times> 'r) io) \<Rightarrow> 'm \<Rightarrow> 's \<times> effect_log \<Rightarrow> 'r" where
  "io_answer handle m s = (case handle m (fst s) (snd s) of Returned (s', r) l' \<Rightarrow> r | _ \<Rightarrow> undefined)"

lemma io_strict_actor:
  fixes handle :: "'m \<Rightarrow> 's \<Rightarrow> ('s \<times> 'r) io"
  shows "strict_actor (io_process handle reply_to) reply_to (io_answer handle) (io_next handle) (io_valid handle)"
proof
  fix m s and ch :: "'r channels"
  assume "io_valid handle m s" and aw: "\<And>i. reply_to m = Some i \<Longrightarrow> ch i = Awaited"
  then obtain s' r l' where "handle m (fst s) (snd s) = Returned (s', r) l'"
    by (auto simp: io_valid_def split: outcome.splits)
  with aw show "io_process handle reply_to m s ch = Some (io_next handle m s,
      case reply_to m of None \<Rightarrow> ch | Some i \<Rightarrow> ch(i := Answered (io_answer handle m s)))"
    by (auto simp: io_process_def io_next_def io_answer_def split: option.splits)
next
  fix m s s' and ch ch' :: "'r channels"
  assume "io_process handle reply_to m s ch = Some (s', ch')"
  then show "s' = io_next handle m s \<and> io_valid handle m s"
    by (auto simp: io_process_def io_next_def io_valid_def split: outcome.splits option.splits)
next
  fix m i s and ch :: "'r channels"
  assume "reply_to m = Some i" and "ch i = Receiver_Gone"
  then show "io_process handle reply_to m s ch = None"
    by (auto simp: io_process_def split: outcome.splits)
qed

lemma ask_io:
  "reply_to (msg 0) = Some 0 \<Longrightarrow> ask (io_process handle reply_to) msg (s, l) = Some (r, s', l') \<longleftrightarrow>
     handle (msg 0) s l = Returned (s', r) l'"
  by (auto simp: ask_def io_process_def oneshot_expect_def split: outcome.splits option.splits)

lemma tell_io:
  "reply_to msg = None \<Longrightarrow> tell (io_process handle reply_to) msg (s, l) = Some (s', l') \<longleftrightarrow>
     (\<exists>r. handle msg s l = Returned (s', r) l')"
  by (auto simp: tell_def io_process_def split: outcome.splits option.splits)

text \<open>All messages handled one after the other, with the answers.\<close>

fun served :: "('m \<Rightarrow> 's \<Rightarrow> ('s \<times> 'r) io) \<Rightarrow> 'm list \<Rightarrow> 's \<Rightarrow> ('s \<times> 'r list) io" where
  "served handle [] s = io_return (s, [])"
| "served handle (m # ms) s =
     io_bind (handle m s) (\<lambda>(s', r). io_bind (served handle ms s') (\<lambda>(s'', rs). io_return (s'', r # rs)))"

lemma served_split:
  "served handle (xs @ m # ys) s l = Returned (s', rs) l' \<Longrightarrow>
     \<exists>s1 rs1 l1 s2 r l2. served handle xs s l = Returned (s1, rs1) l1 \<and> handle m s1 l1 = Returned (s2, r) l2 \<and>
       rs ! length xs = r"
proof (induction xs arbitrary: s l rs)
  case (Cons x xs)
  from Cons.prems obtain s1 r l1 rs1 where x: "handle x s l = Returned (s1, r) l1"
    and rest: "served handle (xs @ m # ys) s1 l1 = Returned (s', rs1) l'" and rs: "rs = r # rs1"
    by (auto simp: io_bind_iff io_return_iff case_prod_unfold)
  from Cons.IH [OF rest] x rs show ?case by (fastforce simp: io_bind_iff io_return_iff)
qed (auto simp: io_bind_iff io_return_iff case_prod_unfold)

lemma served_preserves:
  assumes "\<And>m s l s' r l'. handle m s l = Returned (s', r) l' \<Longrightarrow> P s \<Longrightarrow> P s'"
  shows "served handle ms s l = Returned (s', rs) l' \<Longrightarrow> P s \<Longrightarrow> P s'"
proof (induction ms arbitrary: s l rs)
  case (Cons m ms)
  from Cons.prems(1) obtain s1 r l1 rs1 where "handle m s l = Returned (s1, r) l1"
    and "served handle ms s1 l1 = Returned (s', rs1) l'"
    by (auto simp: io_bind_iff io_return_iff case_prod_unfold)
  with Cons.IH assms Cons.prems(2) show ?case by blast
qed (simp add: io_return_iff)

text \<open>A sequence of messages each of which may be sent in the state it finds.\<close>

fun allowed_run :: "('m \<Rightarrow> 's \<Rightarrow> ('s \<times> 'r) io) \<Rightarrow> ('m \<Rightarrow> 's \<Rightarrow> bool) \<Rightarrow> 'm list \<Rightarrow> 's \<Rightarrow> effect_log \<Rightarrow> bool" where
  "allowed_run handle ok [] s l = True"
| "allowed_run handle ok (m # ms) s l = (ok m s \<and>
     (case handle m s l of Returned (s', r) l' \<Rightarrow> allowed_run handle ok ms s' l' | _ \<Rightarrow> True))"

text \<open>The contract of a cluster: a handler never changes what the log already holds.\<close>

locale io_actor =
  fixes handle :: "'m \<Rightarrow> 's \<Rightarrow> ('s \<times> 'r) io" and reply_to :: "'m \<Rightarrow> reply_id option"
  assumes handle_grows: "log_grows (handle m s)"

sublocale io_actor \<subseteq> strict_actor "io_process handle reply_to" reply_to "io_answer handle"
  "io_next handle" "io_valid handle"
  by (rule io_strict_actor)

context io_actor
begin

lemma process_grows: "io_process handle reply_to m s ch = Some (s', ch') \<Longrightarrow> prefix (snd s) (snd s')"
  using io_relD [OF handle_grows]
  by (fastforce simp: io_process_def split: outcome.splits option.splits)

text \<open>An invariant that the handlers keep holds when the mailbox has been worked off.\<close>

lemma drain_invariant:
  assumes "\<And>m s l s' r l'. ok m s \<Longrightarrow> I s l \<Longrightarrow> handle m s l = Returned (s', r) l' \<Longrightarrow> I s' l'"
  shows "allowed_run handle ok ms s l \<Longrightarrow> I s l \<Longrightarrow>
    drain (io_process handle reply_to) ms (s, l) ch = Some ((s', l'), ch') \<Longrightarrow> I s' l'"
proof (induction ms arbitrary: s l ch)
  case (Cons m ms)
  from Cons.prems(3) obtain s1 l1 ch1 where p: "io_process handle reply_to m (s, l) ch = Some ((s1, l1), ch1)"
    and d: "drain (io_process handle reply_to) ms (s1, l1) ch1 = Some ((s', l'), ch')"
    by (auto split: option.splits)
  from p obtain r where h: "handle m s l = Returned (s1, r) l1"
    by (auto simp: io_process_def split: outcome.splits option.splits)
  from Cons.prems(1) h have "ok m s" "allowed_run handle ok ms s1 l1" by auto
  with Cons.IH [OF _ _ d] assms [OF _ Cons.prems(2) h] show ?case by blast
qed simp

lemma served_states:
  "served handle ms s l = Returned (s', rs) l' \<Longrightarrow>
     all_valid ms (s, l) \<and> states_after ms (s, l) = (s', l') \<and> length rs = length ms \<and>
     (\<forall>xs m ys. ms = xs @ m # ys \<longrightarrow> io_answer handle m (states_after xs (s, l)) = rs ! length xs)"
proof (induction ms arbitrary: s l rs)
  case Nil
  then show ?case by (simp add: io_return_iff)
next
  case (Cons m ms)
  from Cons.prems obtain s1 r l1 rs1 where h: "handle m s l = Returned (s1, r) l1"
    and sv: "served handle ms s1 l1 = Returned (s', rs1) l'" and rs: "rs = r # rs1"
    by (auto simp: io_bind_iff io_return_iff case_prod_unfold)
  from Cons.IH [OF sv] have IH: "all_valid ms (s1, l1)" "states_after ms (s1, l1) = (s', l')" "length rs1 = length ms"
    "\<forall>xs m ys. ms = xs @ m # ys \<longrightarrow> io_answer handle m (states_after xs (s1, l1)) = rs1 ! length xs" by auto
  from h have n: "io_next handle m (s, l) = (s1, l1)" "io_valid handle m (s, l)" "io_answer handle m (s, l) = r"
    by (simp_all add: io_next_def io_valid_def io_answer_def)
  have "io_answer handle m' (states_after xs (s, l)) = rs ! length xs" if "m # ms = xs @ m' # ys" for xs m' ys
    using that IH(4) n rs by (cases xs) auto
  with IH n rs show ?case by simp
qed

text \<open>Requests that are waited for are answered, each with what its handler returned in its turn.\<close>

lemma served_answers:
  assumes "served handle ms s l = Returned (s', rs) l'" and "distinct (List.map_filter reply_to ms)"
    and "\<forall>i \<in> set (List.map_filter reply_to ms). ch i = Awaited"
  shows "\<exists>ch'. drain (io_process handle reply_to) ms (s, l) ch = Some ((s', l'), ch') \<and> prefix l l' \<and>
    (\<forall>k < length ms. \<forall>i. reply_to (ms ! k) = Some i \<longrightarrow> oneshot_expect i ch' = Some (rs ! k))"
proof -
  note st = served_states [OF assms(1)]
  obtain ch' where d: "drain (io_process handle reply_to) ms (s, l) ch = Some ((s', l'), ch')"
    and ans: "\<forall>xs m ys i. ms = xs @ m # ys \<longrightarrow> reply_to m = Some i \<longrightarrow>
      ch' i = Answered (io_answer handle m (states_after xs (s, l)))"
    using drain_answers [of ms "(s, l)" ch] st assms(2,3) by auto
  have "oneshot_expect i ch' = Some (rs ! k)" if "k < length ms" "reply_to (ms ! k) = Some i" for k i
  proof -
    have "ms = take k ms @ ms ! k # drop (Suc k) ms" using that(1) by (simp add: id_take_nth_drop)
    with ans st that show ?thesis by (fastforce simp: oneshot_expect_def min_def)
  qed
  moreover have "log_grows (served handle ms s)" for ms s
    by (induction ms arbitrary: s) (auto intro!: io_rel_intros handle_grows)
  ultimately show ?thesis using d io_relD [where R = prefix and m = "served handle ms s", OF _ assms(1)] by blast
qed

lemma served_valid:
  "all_valid ms (s, l) \<Longrightarrow> \<exists>rs. served handle ms s l =
     Returned (fst (states_after ms (s, l)), rs) (snd (states_after ms (s, l)))"
proof (induction ms arbitrary: s l)
  case Nil
  then show ?case by (simp add: io_return_def)
next
  case (Cons m ms)
  from Cons.prems have "io_valid handle m (s, l)" by simp
  then obtain s' r l' where h: "handle m s l = Returned (s', r) l'"
    by (auto simp: io_valid_def split: outcome.splits)
  then have n: "io_next handle m (s, l) = (s', l')" by (simp add: io_next_def)
  with Cons obtain rs where "served handle ms s' l' =
      Returned (fst (states_after ms (s', l')), rs) (snd (states_after ms (s', l')))" by auto
  with h n show ?case by (auto simp: io_bind_iff io_return_iff)
qed

text \<open>
  Whatever clients send and give up, the actor is a sequential object: the messages handled so far,
  run one after the other, give its state and the log, and every answer is the one of its turn.
\<close>

lemma linearizable:
  assumes "actor_reachable (io_process handle reply_to) (s0, l0) x"
    and "distinct (List.map_filter reply_to (sent x))"
  shows "\<exists>st rs l. served handle (handled x) s0 l0 = Returned (st, rs) l \<and>
    (\<forall>s. task_state x = Some s \<longrightarrow> s = (st, l)) \<and>
    (\<forall>k < length (handled x). \<forall>i. reply_to (handled x ! k) = Some i \<longrightarrow>
       oneshot_expect i (channels x) = Some (rs ! k)) \<and>
    (\<forall>i r. oneshot_expect i (channels x) = Some r \<longrightarrow>
       (\<exists>k < length (handled x). reply_to (handled x ! k) = Some i \<and> r = rs ! k))"
proof -
  note order = reachable_in_order [OF assms(1)] and chans = reachable_channels [OF assms]
  obtain st l where sl: "states_after (handled x) (s0, l0) = (st, l)" by fastforce
  with served_valid [of "handled x" s0 l0] order obtain rs where
    sv: "served handle (handled x) s0 l0 = Returned (st, rs) l" by auto
  have ans: "channels x i = Answered (rs ! k)"
    if k: "k < length (handled x)" and r: "reply_to (handled x ! k) = Some i" for k i
  proof -
    have split: "handled x = take k (handled x) @ handled x ! k # drop (Suc k) (handled x)"
      using k by (rule id_take_nth_drop)
    with chans r have "channels x i = Answered (io_answer handle (handled x ! k) (states_after (take k (handled x)) (s0, l0)))"
      by blast
    moreover have "io_answer handle (handled x ! k) (states_after (take k (handled x)) (s0, l0)) = rs ! k"
      using served_states [OF sv] split k by (metis length_take min.absorb4)
    ultimately show ?thesis by simp
  qed
  have "\<exists>k < length (handled x). reply_to (handled x ! k) = Some i \<and> r = rs ! k"
    if e: "oneshot_expect i (channels x) = Some r" for i r
  proof -
    have "i \<in> set (List.map_filter reply_to (handled x))"
    proof (rule ccontr)
      assume "i \<notin> set (List.map_filter reply_to (handled x))"
      with chans have "channels x i \<in> {Awaited, Receiver_Gone, Sender_Gone}" by blast
      with e show False by (auto simp: oneshot_expect_def)
    qed
    then obtain k where k: "k < length (handled x)" "reply_to (handled x ! k) = Some i"
      by (force simp: List.map_filter_def in_set_conv_nth)
    with ans [OF k] e show ?thesis by (auto simp: oneshot_expect_def)
  qed
  with sv sl order ans show ?thesis
    by (intro exI [of _ st] exI [of _ rs] exI [of _ l]) (auto simp: oneshot_expect_def)
qed
end

section \<open>What the nodes of a cluster own\<close>

definition owned :: "('n \<Rightarrow> 'a option) \<Rightarrow> 'n list \<Rightarrow> 'a set" where
  "owned f ns = {x. \<exists>n \<in> set ns. f n = Some x}"

lemma owned_simps [simp]:
  "owned f [] = {}" "owned f (n # ns) = {x. f n = Some x} \<union> owned f ns"
  "owned f (ms @ ns) = owned f ms \<union> owned f ns"
  by (auto simp: owned_def)

lemma owned_update:
  assumes "i < length ns"
  shows "owned f ns - {x. f (ns ! i) = Some x} \<union> {x. f n = Some x} \<subseteq> owned f (ns[i := n])"
proof -
  have "n \<in> set (ns[i := n])" using assms by (rule set_update_memI)
  moreover have "m \<in> set (ns[i := n])" if "m \<in> set ns" "m \<noteq> ns ! i" for m
    using that assms by (metis in_set_conv_nth length_list_update nth_list_update_neq)
  ultimately show ?thesis unfolding owned_def by fastforce
qed

section \<open>Small helpers of the clusters\<close>

text \<open>\<open>str::lines\<close> and \<open>str::trim\<close> on bytes.\<close>

fun split_lines :: "string \<Rightarrow> string \<Rightarrow> string list" where
  "split_lines acc [] = (if acc = [] then [] else [acc])"
| "split_lines acc (c # cs) =
     (if c = CHR 0x0A then (if acc \<noteq> [] \<and> last acc = CHR 0x0D then butlast acc else acc) # split_lines [] cs
      else split_lines (acc @ [c]) cs)"

definition lines :: "string \<Rightarrow> string list" where
  "lines s = split_lines [] s"

definition is_space :: "char \<Rightarrow> bool" where
  "is_space c \<longleftrightarrow> c \<in> {CHR '' '', CHR 0x09, CHR 0x0A, CHR 0x0B, CHR 0x0C, CHR 0x0D}"

definition trim :: "string \<Rightarrow> string" where
  "trim s = rev (dropWhile is_space (rev (dropWhile is_space s)))"

text \<open>The position of the first element with a property.\<close>

fun position :: "('a \<Rightarrow> bool) \<Rightarrow> 'a list \<Rightarrow> nat option" where
  "position P [] = None"
| "position P (x # xs) = (if P x then Some 0 else map_option Suc (position P xs))"

lemma position_Some:
  "position P xs = Some i \<Longrightarrow> i < length xs \<and> P (xs ! i) \<and> (\<forall>j < i. \<not> P (xs ! j))"
proof (induction xs arbitrary: i)
  case (Cons x xs)
  then show ?case by (cases i) (auto simp: less_Suc_eq_0_disj split: if_splits)
qed simp

lemma position_None: "position P xs = None \<longleftrightarrow> (\<forall>x \<in> set xs. \<not> P x)"
  by (induction xs) (auto split: if_splits)

lemma position_map_cong:
  "map f xs = map f ys \<Longrightarrow> position (\<lambda>x. P (f x)) xs = position (\<lambda>x. P (f x)) ys"
proof (induction xs arbitrary: ys)
  case (Cons x xs)
  then show ?case by (cases ys) auto
qed simp

text \<open>\<open>is_file() && (mode & 0o111 != 0)\<close> and \<open>is_file()\<close> of the metadata of a path.\<close>

definition MODE_EXECUTABLE :: "32 word" where
  "MODE_EXECUTABLE = 73"

definition executable_exists :: "os \<Rightarrow> path \<Rightarrow> bool io" where
  "executable_exists os p = io_bind (perform os (Metadata p)) (\<lambda>r. io_return
     (case r of File_Metadata is_file mode \<Rightarrow> is_file \<and> (of_nat mode :: 32 word) AND MODE_EXECUTABLE \<noteq> 0 | _ \<Rightarrow> False))"

definition file_exists :: "os \<Rightarrow> path \<Rightarrow> bool io" where
  "file_exists os p = io_bind (perform os (Metadata p)) (\<lambda>r. io_return
     (case r of File_Metadata is_file mode \<Rightarrow> is_file | _ \<Rightarrow> False))"

text \<open>\<open>State::new\<close> of a cluster asks the executable for its version.\<close>

definition ask_version :: "os \<Rightarrow> path \<Rightarrow> string io" where
  "ask_version os p =
     io_bind (expect_output os (Run_Output (cmd_arg ''--version'' (command_new p))))
       (\<lambda>r. io_return (trim (snd r)))"

section \<open>Answers\<close>

datatype reply = Reply_Text string | Reply_Unit | Reply_Bool bool

definition then_unit :: "'s io \<Rightarrow> ('s \<times> reply) io" where
  "then_unit m = io_bind m (\<lambda>st. io_return (st, Reply_Unit))"

fun as_text :: "reply \<times> 's \<Rightarrow> (string \<times> 's) option" where
  "as_text (Reply_Text t, s) = Some (t, s)"
| "as_text _ = None"

fun as_unit :: "reply \<times> 's \<Rightarrow> 's option" where
  "as_unit (Reply_Unit, s) = Some s"
| "as_unit _ = None"

fun as_bool :: "reply \<times> 's \<Rightarrow> (bool \<times> 's) option" where
  "as_bool (Reply_Bool b, s) = Some (b, s)"
| "as_bool _ = None"

end
