(* ===== verification/Scylla_Cluster.thy ===== *)
theory Scylla_Cluster
  imports Cluster_Actors
begin

text \<open>
  The ScyllaDB cluster fixture, \<open>crates/e2etest-scylla-cluster/src/lib.rs\<close>: the command line and
  the files of a node, starting, stopping, pausing and resuming nodes, waiting for them, and the
  actor around these operations.  Lines for the tracing log are left out.
\<close>

section \<open>Data\<close>

definition DEFAULT_SCYLLA_CQL_PORT :: "16 word" where
  "DEFAULT_SCYLLA_CQL_PORT = 9042"

definition DEFAULT_SCYLLA_ARGS :: "string list" where
  "DEFAULT_SCYLLA_ARGS =
     [''--overprovisioned'', ''--developer-mode=true'', ''--smp=2'', ''--memory=1G'',
      ''--unsafe-bypass-fsync=on'', ''--kernel-page-cache=on'', ''--reactor-backend=io_uring'',
      ''--rf-rack-valid-keyspaces=true'', ''--collectd=0'', ''--max-networking-io-control-blocks=1000'',
      ''--commitlog-use-o-dsync=0'', ''--flush-schema-tables-after-modification=false'',
      ''--auto-snapshot=0'', ''--logger-log-level=compaction=warn'',
      ''--logger-log-level=migration_manager=warn'', ''--shutdown-announce-in-ms=0'',
      ''--tablets-mode-for-new-keyspaces=enabled'', ''--alternator-ttl-period-in-seconds=0.5'']"

text \<open>The global behind a lock: reading and replacing it.\<close>

record scylla_globals =
  g_default_args :: "string list"

definition scylla_globals_init :: scylla_globals where
  "scylla_globals_init = \<lparr>g_default_args = DEFAULT_SCYLLA_ARGS\<rparr>"

definition default_scylla_args :: "scylla_globals \<Rightarrow> string list" where
  "default_scylla_args g = g_default_args g"

definition set_default_scylla_args :: "string list \<Rightarrow> scylla_globals \<Rightarrow> scylla_globals" where
  "set_default_scylla_args args g = g\<lparr>g_default_args := args\<rparr>"

record scylla_node_config =
  nc_db_ip :: ipv4
  nc_primary_vs_uris :: "string list"
  nc_secondary_vs_uris :: "string list"
  nc_args :: "string list"
  nc_cert_path :: "path option"
  nc_key_path :: "path option"
  nc_extra_config :: "string option"

record scylla_node =
  sn_db_ip :: ipv4
  sn_child :: "nat option"
  sn_workdir :: "path option"

record scylla =
  sc_path :: path
  sc_default_conf :: path
  sc_tempdir :: path
  sc_nodes :: "scylla_node list"
  sc_version :: string
  sc_verbose :: bool

section \<open>The command of a node\<close>

definition NL :: string where
  "NL = [CHR 0x0A]"

definition tls_options :: "path \<Rightarrow> path \<Rightarrow> string" where
  "tls_options cert key =
     ''client_encryption_options:'' @ NL @ ''  enabled: true'' @ NL @ ''  certificate: '' @ cert @ NL @
     ''  keyfile: '' @ key"

definition node_conf :: "scylla_node_config \<Rightarrow> string option" where
  "node_conf cfg =
     (let has_tls = nc_cert_path cfg \<noteq> None \<and> nc_key_path cfg \<noteq> None;
          has_extra = nc_extra_config cfg \<noteq> None in
      if has_tls \<or> has_extra then
        (let config = (case (nc_cert_path cfg, nc_key_path cfg) of
               (Some cert, Some key) \<Rightarrow> tls_options cert key | _ \<Rightarrow> []) in
         Some (case nc_extra_config cfg of
             Some extra \<Rightarrow> (if config \<noteq> [] then config @ NL else config) @ extra
           | None \<Rightarrow> config))
      else None)"

definition rackdc_properties :: "string \<Rightarrow> string" where
  "rackdc_properties rack = ''dc=datacenter1'' @ NL @ ''rack='' @ rack @ NL @ ''prefer_local=true'' @ NL"

definition vs_args :: "scylla_node_config \<Rightarrow> string list" where
  "vs_args cfg =
     (if nc_primary_vs_uris cfg \<noteq> []
      then [''--vector-store-primary-uri'', join_with '','' (nc_primary_vs_uris cfg)] else []) @
     (if nc_secondary_vs_uris cfg \<noteq> []
      then [''--vector-store-secondary-uri'', join_with '','' (nc_secondary_vs_uris cfg)] else [])"

definition scylla_args :: "scylla_node_config \<Rightarrow> string \<Rightarrow> path \<Rightarrow> path \<Rightarrow> string list" where
  "scylla_args cfg seeds conf path =
     (if seeds \<noteq> [] then [''--seed-provider-parameters'', ''seeds='' @ seeds] else []) @
     vs_args cfg @
     [''--options-file'', conf, ''--workdir'', path,
      ''--listen-address'', show_ipv4 (nc_db_ip cfg), ''--rpc-address'', show_ipv4 (nc_db_ip cfg),
      ''--api-address'', show_ipv4 (nc_db_ip cfg), ''--log-to-stdout'', ''true'',
      ''--logger-ostream-type'', ''stdout'', ''--endpoint-snitch'', ''GossipingPropertyFileSnitch''] @
     nc_args cfg"

definition scylla_command ::
    "scylla \<Rightarrow> scylla_node_config \<Rightarrow> string \<Rightarrow> path \<Rightarrow> path \<Rightarrow> (nat \<times> nat) option \<Rightarrow> command" where
  "scylla_command st cfg seeds conf path user =
     \<lparr>cmd_program = sc_path st, cmd_args = scylla_args cfg seeds conf path,
      cmd_envs = [(''SCYLLA_CONF'', path_join path ''conf'')], cmd_silent = \<not> sc_verbose st, cmd_user = user\<rparr>"

text \<open>The user \<open>scylla\<close> of the system, when there is one.\<close>

definition get_scylla_user :: "os \<Rightarrow> (nat \<times> nat) option io" where
  "get_scylla_user os = io_bind (perform os List_Users) (\<lambda>r. io_return
     (case r of
        Users_Found us \<Rightarrow> map_option snd (find (\<lambda>(name, _). name = ''scylla'') us)
      | _ \<Rightarrow> None))"

definition node_conf_path :: "scylla \<Rightarrow> scylla_node_config \<Rightarrow> path \<Rightarrow> path" where
  "node_conf_path st cfg path =
     (case node_conf cfg of Some _ \<Rightarrow> path_join path ''scylla.conf'' | None \<Rightarrow> sc_default_conf st)"

definition write_conf :: "os \<Rightarrow> scylla_node_config \<Rightarrow> path \<Rightarrow> unit io" where
  "write_conf os cfg path =
     (case node_conf cfg of
        Some config \<Rightarrow> expect_success os (Write_File (path_join path ''scylla.conf'') config)
      | None \<Rightarrow> io_return ())"

definition scylla_run_node ::
    "os \<Rightarrow> scylla_node_config \<Rightarrow> string \<Rightarrow> path \<Rightarrow> string \<Rightarrow> scylla \<Rightarrow> nat io" where
  "scylla_run_node os cfg seeds path rack st =
     io_bind (write_conf os cfg path) (\<lambda>_.
     io_bind (expect_success os (Create_Dir_All (path_join path ''conf''))) (\<lambda>_.
     io_bind (expect_success os (Write_File
       (path_join (path_join path ''conf'') ''cassandra-rackdc.properties'') (rackdc_properties rack))) (\<lambda>_.
     io_bind (get_scylla_user os) (\<lambda>user.
     expect_pid os (Spawn (scylla_command st cfg seeds (node_conf_path st cfg path) path user))))))"

definition rack_name :: "nat \<Rightarrow> string" where
  "rack_name i = ''rack'' @ show_nat (i + 1)"

section \<open>Starting and stopping\<close>

definition scylla_start_one ::
    "os \<Rightarrow> string \<Rightarrow> nat \<times> scylla_node_config \<Rightarrow> scylla \<Rightarrow> scylla io" where
  "scylla_start_one os seeds icfg st =
     (case icfg of (i, cfg) \<Rightarrow>
        io_bind (expect_dir os (Temp_Dir_In (sc_tempdir st))) (\<lambda>workdir.
        io_bind (get_scylla_user os) (\<lambda>user.
        io_bind (case user of Some (uid, gid) \<Rightarrow> expect_success os (Chown workdir uid gid) | None \<Rightarrow> io_return ()) (\<lambda>_.
        io_bind (scylla_run_node os cfg seeds workdir (rack_name i) st) (\<lambda>child.
        io_return (st\<lparr>sc_nodes := sc_nodes st @
          [\<lparr>sn_db_ip = nc_db_ip cfg, sn_child = Some child, sn_workdir = Some workdir\<rparr>]\<rparr>))))))"

definition scylla_start :: "os \<Rightarrow> scylla_node_config list \<Rightarrow> scylla \<Rightarrow> scylla io" where
  "scylla_start os cfgs st =
     (case cfgs of
        [] \<Rightarrow> io_return st
      | first # _ \<Rightarrow> io_for (scylla_start_one os (show_ipv4 (nc_db_ip first))) (enumerate 0 cfgs) st)"

definition kill_node :: "os \<Rightarrow> scylla_node \<Rightarrow> scylla_node io" where
  "kill_node os node =
     (case sn_child node of
        Some child \<Rightarrow> io_bind (kill_child os child) (\<lambda>_. io_return (node\<lparr>sn_child := None\<rparr>))
      | None \<Rightarrow> io_return node)"

text \<open>\<open>node.workdir = None\<close> drops the \<open>TempDir\<close>, which removes the directory.\<close>

definition drop_workdir :: "os \<Rightarrow> scylla_node \<Rightarrow> scylla_node io" where
  "drop_workdir os node =
     (case sn_workdir node of
        Some p \<Rightarrow> io_bind (perform os (Remove_Dir p)) (\<lambda>_. io_return (node\<lparr>sn_workdir := None\<rparr>))
      | None \<Rightarrow> io_return node)"

definition scylla_stop :: "os \<Rightarrow> scylla \<Rightarrow> scylla io" where
  "scylla_stop os st =
     io_bind (io_for (\<lambda>node done_nodes.
         io_bind (kill_node os node) (\<lambda>node. io_bind (drop_workdir os node) (\<lambda>node. io_return (done_nodes @ [node]))))
       (sc_nodes st) []) (\<lambda>_. io_return (st\<lparr>sc_nodes := []\<rparr>))"

text \<open>
  What a panic leaves to the destructors: the state is dropped, a dropped \<open>Child\<close> is not killed, a
  dropped \<open>TempDir\<close> removes its directory.
\<close>

definition drop_state :: "os \<Rightarrow> scylla \<Rightarrow> unit io" where
  "drop_state os st = io_for (\<lambda>node u. io_bind (drop_workdir os node) (\<lambda>_. io_return ())) (sc_nodes st) ()"

definition scylla_down :: "os \<Rightarrow> scylla \<Rightarrow> scylla io" where
  "scylla_down os st =
     io_bind (io_for (\<lambda>node done_nodes. io_bind (kill_node os node) (\<lambda>node. io_return (done_nodes @ [node])))
       (sc_nodes st) []) (\<lambda>nodes. io_return (st\<lparr>sc_nodes := nodes\<rparr>))"

definition scylla_down_node :: "os \<Rightarrow> ipv4 \<Rightarrow> scylla \<Rightarrow> scylla io" where
  "scylla_down_node os ip st =
     (case position (\<lambda>n. sn_db_ip n = ip) (sc_nodes st) of
        Some i \<Rightarrow> io_bind (kill_node os (sc_nodes st ! i)) (\<lambda>node. io_return (st\<lparr>sc_nodes := (sc_nodes st)[i := node]\<rparr>))
      | None \<Rightarrow> io_return st)"

section \<open>Resuming\<close>

definition set_child :: "nat \<Rightarrow> nat \<Rightarrow> scylla \<Rightarrow> scylla" where
  "set_child i child st =
     st\<lparr>sc_nodes := (sc_nodes st)[i := (sc_nodes st ! i)\<lparr>sn_child := Some child\<rparr>]\<rparr>"

text \<open>The paths are collected before the loop, and \<open>node_configs[i]\<close> panics out of range.\<close>

definition scylla_up :: "os \<Rightarrow> scylla_node_config list \<Rightarrow> scylla \<Rightarrow> scylla io" where
  "scylla_up os cfgs st =
     (case sc_nodes st of
        [] \<Rightarrow> io_return st
      | first # _ \<Rightarrow>
          (if list_ex (\<lambda>n. sn_workdir n = None) (sc_nodes st) then io_panic
           else io_for (\<lambda>(i, path) st.
               io_bind (io_assert (i < length cfgs)) (\<lambda>_.
               io_bind (scylla_run_node os (cfgs ! i) (show_ipv4 (sn_db_ip first)) path (rack_name i) st) (\<lambda>child.
               io_return (set_child i child st))))
             (enumerate 0 (map (\<lambda>n. the (sn_workdir n)) (sc_nodes st))) st))"

definition scylla_up_node :: "os \<Rightarrow> scylla_node_config \<Rightarrow> scylla \<Rightarrow> scylla io" where
  "scylla_up_node os cfg st =
     (case sc_nodes st of
        [] \<Rightarrow> io_return st
      | first # _ \<Rightarrow>
          (case position (\<lambda>n. sn_db_ip n = nc_db_ip cfg) (sc_nodes st) of
             None \<Rightarrow> io_return st
           | Some i \<Rightarrow>
               (case sn_workdir (sc_nodes st ! i) of
                  None \<Rightarrow> io_panic
                | Some path \<Rightarrow>
                    io_bind (scylla_run_node os cfg (show_ipv4 (sn_db_ip first)) path (rack_name i) st) (\<lambda>child.
                    io_return (set_child i child st)))))"

section \<open>Waiting and flushing\<close>

definition nodetool :: "scylla \<Rightarrow> ipv4 \<Rightarrow> string \<Rightarrow> command" where
  "nodetool st ip action =
     cmd_arg action (cmd_arg (show_ipv4 ip) (cmd_arg ''-h'' (cmd_arg ''nodetool'' (command_new (sc_path st)))))"

definition status_up :: "ipv4 \<Rightarrow> string \<Rightarrow> bool" where
  "status_up ip out = list_ex (\<lambda>line. starts_with line (''UN '' @ show_ipv4 ip)) (lines out)"

definition is_cql_port_ready :: "os \<Rightarrow> ipv4 \<Rightarrow> bool io" where
  "is_cql_port_ready os ip =
     io_bind (perform os (Tcp_Connect (ip, DEFAULT_SCYLLA_CQL_PORT) 500)) (\<lambda>r. io_return (r = Success))"

text \<open>The two nested loops; the fuel bounds the number of rounds.\<close>

fun wait_for_port :: "os \<Rightarrow> nat \<Rightarrow> ipv4 \<Rightarrow> bool io" where
  "wait_for_port os 0 ip = io_wait"
| "wait_for_port os (Suc n) ip =
     io_bind (is_cql_port_ready os ip) (\<lambda>ready.
       if ready then io_return True
       else io_bind (perform os (Sleep_Millis 100)) (\<lambda>_. wait_for_port os n ip))"

fun wait_for_node :: "os \<Rightarrow> nat \<Rightarrow> scylla \<Rightarrow> ipv4 \<Rightarrow> bool io" where
  "wait_for_node os 0 st ip = io_wait"
| "wait_for_node os (Suc n) st ip =
     io_bind (expect_output os (Run_Output (nodetool st ip ''status''))) (\<lambda>out.
       if status_up ip (snd out) then wait_for_port os (Suc n) ip
       else io_bind (perform os (Sleep_Millis 100)) (\<lambda>_. wait_for_node os n st ip))"

definition scylla_wait_for_ready :: "os \<Rightarrow> nat \<Rightarrow> scylla \<Rightarrow> bool io" where
  "scylla_wait_for_ready os fuel st =
     (if sc_nodes st = [] then io_return False
      else io_bind (io_for (\<lambda>node _. io_bind (wait_for_node os fuel st (sn_db_ip node)) (\<lambda>_. io_return ()))
          (sc_nodes st) ()) (\<lambda>_. io_return True))"

definition scylla_flush :: "os \<Rightarrow> scylla \<Rightarrow> unit io" where
  "scylla_flush os st =
     io_for (\<lambda>node _. io_bind (expect_output os (Run_Output (nodetool st (sn_db_ip node) ''flush''))) (\<lambda>_. io_return ()))
       (sc_nodes st) ()"

section \<open>The actor\<close>

datatype scylla_msg =
    Scylla_Version reply_id
  | Scylla_Start "scylla_node_config list"
  | Scylla_Wait_For_Ready reply_id
  | Scylla_Stop reply_id
  | Scylla_Up "scylla_node_config list"
  | Scylla_Up_Node scylla_node_config
  | Scylla_Down reply_id
  | Scylla_Down_Node ipv4 reply_id
  | Scylla_Flush reply_id

fun scylla_reply_to :: "scylla_msg \<Rightarrow> reply_id option" where
  "scylla_reply_to (Scylla_Version tx) = Some tx"
| "scylla_reply_to (Scylla_Wait_For_Ready tx) = Some tx"
| "scylla_reply_to (Scylla_Stop tx) = Some tx"
| "scylla_reply_to (Scylla_Down tx) = Some tx"
| "scylla_reply_to (Scylla_Down_Node ip tx) = Some tx"
| "scylla_reply_to (Scylla_Flush tx) = Some tx"
| "scylla_reply_to _ = None"

fun scylla_handle :: "os \<Rightarrow> nat \<Rightarrow> scylla_msg \<Rightarrow> scylla \<Rightarrow> (scylla \<times> reply) io" where
  "scylla_handle os fuel (Scylla_Version tx) st = io_return (st, Reply_Text (sc_version st))"
| "scylla_handle os fuel (Scylla_Start cfgs) st = then_unit (scylla_start os cfgs st)"
| "scylla_handle os fuel (Scylla_Stop tx) st = then_unit (scylla_stop os st)"
| "scylla_handle os fuel (Scylla_Wait_For_Ready tx) st =
     io_bind (scylla_wait_for_ready os fuel st) (\<lambda>b. io_return (st, Reply_Bool b))"
| "scylla_handle os fuel (Scylla_Up cfgs) st = then_unit (scylla_up os cfgs st)"
| "scylla_handle os fuel (Scylla_Up_Node cfg) st = then_unit (scylla_up_node os cfg st)"
| "scylla_handle os fuel (Scylla_Down tx) st = then_unit (scylla_down os st)"
| "scylla_handle os fuel (Scylla_Down_Node ip tx) st = then_unit (scylla_down_node os ip st)"
| "scylla_handle os fuel (Scylla_Flush tx) st =
     io_bind (scylla_flush os st) (\<lambda>_. io_return (st, Reply_Unit))"

text \<open>\<open>process\<close>, arm by arm: the operation, and the answer of the arms that send one.\<close>

fun scylla_process :: "os \<Rightarrow> nat \<Rightarrow> (scylla_msg, scylla \<times> effect_log, reply) process" where
  "scylla_process os fuel (Scylla_Version tx) (st, l) ch = send_reply tx (Reply_Text (sc_version st)) (st, l) ch"
| "scylla_process os fuel (Scylla_Start cfgs) (st, l) ch =
     awaiting (scylla_start os cfgs st) l (\<lambda>st' l'. Some ((st', l'), ch))"
| "scylla_process os fuel (Scylla_Stop tx) (st, l) ch =
     awaiting (scylla_stop os st) l (\<lambda>st' l'. send_reply tx Reply_Unit (st', l') ch)"
| "scylla_process os fuel (Scylla_Wait_For_Ready tx) (st, l) ch =
     awaiting (scylla_wait_for_ready os fuel st) l (\<lambda>b l'. send_reply tx (Reply_Bool b) (st, l') ch)"
| "scylla_process os fuel (Scylla_Up cfgs) (st, l) ch =
     awaiting (scylla_up os cfgs st) l (\<lambda>st' l'. Some ((st', l'), ch))"
| "scylla_process os fuel (Scylla_Up_Node cfg) (st, l) ch =
     awaiting (scylla_up_node os cfg st) l (\<lambda>st' l'. Some ((st', l'), ch))"
| "scylla_process os fuel (Scylla_Down tx) (st, l) ch =
     awaiting (scylla_down os st) l (\<lambda>st' l'. send_reply tx Reply_Unit (st', l') ch)"
| "scylla_process os fuel (Scylla_Down_Node ip tx) (st, l) ch =
     awaiting (scylla_down_node os ip st) l (\<lambda>st' l'. send_reply tx Reply_Unit (st', l') ch)"
| "scylla_process os fuel (Scylla_Flush tx) (st, l) ch =
     awaiting (scylla_flush os st) l (\<lambda>_ l'. send_reply tx Reply_Unit (st, l') ch)"

declare scylla_process.simps [simp del]

definition scylla_state_new :: "os \<Rightarrow> path \<Rightarrow> path \<Rightarrow> path \<Rightarrow> bool \<Rightarrow> scylla io" where
  "scylla_state_new os path default_conf tempdir verbose =
     io_bind (ask_version os path) (\<lambda>version. io_return
       \<lparr>sc_path = path, sc_default_conf = default_conf, sc_tempdir = tempdir, sc_nodes = [],
        sc_version = version, sc_verbose = verbose\<rparr>)"

definition scylla_new :: "os \<Rightarrow> path \<Rightarrow> path \<Rightarrow> path \<Rightarrow> bool \<Rightarrow> scylla io" where
  "scylla_new os path default_conf tempdir verbose =
     io_bind (executable_exists os path) (\<lambda>ok. io_bind (io_assert ok) (\<lambda>_.
     io_bind (file_exists os default_conf) (\<lambda>ok. io_bind (io_assert ok) (\<lambda>_.
     scylla_state_new os path default_conf tempdir verbose))))"

text \<open>The whole task: the loop, then the final \<open>stop\<close> when all senders are gone.\<close>

definition scylla_task ::
    "os \<Rightarrow> nat \<Rightarrow> scylla_msg list \<Rightarrow> scylla \<times> effect_log \<Rightarrow> reply channels \<Rightarrow> (scylla \<times> effect_log) option" where
  "scylla_task os fuel msgs s ch =
     (case drain (scylla_process os fuel) msgs s ch of
        None \<Rightarrow> None
      | Some ((st, l), ch') \<Rightarrow>
          (case scylla_stop os st l of Returned st' l' \<Rightarrow> Some (st', l') | _ \<Rightarrow> None))"

section \<open>The extension trait\<close>

type_synonym scylla_client = "scylla \<times> effect_log"

definition ext_version :: "os \<Rightarrow> nat \<Rightarrow> scylla_client \<Rightarrow> (string \<times> scylla_client) option" where
  "ext_version os fuel s = Option.bind (ask (scylla_process os fuel) Scylla_Version s) as_text"

definition ext_start :: "os \<Rightarrow> nat \<Rightarrow> scylla_node_config list \<Rightarrow> scylla_client \<Rightarrow> scylla_client option" where
  "ext_start os fuel cfgs s = tell (scylla_process os fuel) (Scylla_Start cfgs) s"

definition ext_stop :: "os \<Rightarrow> nat \<Rightarrow> scylla_client \<Rightarrow> scylla_client option" where
  "ext_stop os fuel s = Option.bind (ask (scylla_process os fuel) Scylla_Stop s) as_unit"

definition ext_wait_for_ready :: "os \<Rightarrow> nat \<Rightarrow> scylla_client \<Rightarrow> (bool \<times> scylla_client) option" where
  "ext_wait_for_ready os fuel s = Option.bind (ask (scylla_process os fuel) Scylla_Wait_For_Ready s) as_bool"

definition ext_up :: "os \<Rightarrow> nat \<Rightarrow> scylla_node_config list \<Rightarrow> scylla_client \<Rightarrow> scylla_client option" where
  "ext_up os fuel cfgs s = tell (scylla_process os fuel) (Scylla_Up cfgs) s"

definition ext_up_node :: "os \<Rightarrow> nat \<Rightarrow> scylla_node_config \<Rightarrow> scylla_client \<Rightarrow> scylla_client option" where
  "ext_up_node os fuel cfg s = tell (scylla_process os fuel) (Scylla_Up_Node cfg) s"

definition ext_down :: "os \<Rightarrow> nat \<Rightarrow> scylla_client \<Rightarrow> scylla_client option" where
  "ext_down os fuel s = Option.bind (ask (scylla_process os fuel) Scylla_Down s) as_unit"

definition ext_down_node :: "os \<Rightarrow> nat \<Rightarrow> ipv4 \<Rightarrow> scylla_client \<Rightarrow> scylla_client option" where
  "ext_down_node os fuel ip s = Option.bind (ask (scylla_process os fuel) (Scylla_Down_Node ip) s) as_unit"

definition ext_restart :: "os \<Rightarrow> nat \<Rightarrow> scylla_node_config \<Rightarrow> scylla_client \<Rightarrow> scylla_client option" where
  "ext_restart os fuel cfg s =
     Option.bind (ext_down_node os fuel (nc_db_ip cfg) s) (\<lambda>s.
     Option.bind (ext_up_node os fuel cfg s) (\<lambda>s.
     Option.bind (ext_wait_for_ready os fuel s) (\<lambda>(ready, s). if ready then Some s else None)))"

definition ext_flush :: "os \<Rightarrow> nat \<Rightarrow> scylla_client \<Rightarrow> scylla_client option" where
  "ext_flush os fuel s = Option.bind (ask (scylla_process os fuel) Scylla_Flush s) as_unit"

section \<open>The contract of the actor\<close>

lemma scylla_process_eq: "scylla_process os fuel = io_process (scylla_handle os fuel) scylla_reply_to"
proof (intro ext)
  fix m s ch
  show "scylla_process os fuel m s ch = io_process (scylla_handle os fuel) scylla_reply_to m s ch"
    by (cases m; cases s) (auto simp: scylla_process.simps io_process_def awaiting_def send_reply_def then_unit_def
        io_bind_def io_return_def split: outcome.splits)
qed

lemma grows_helpers [io_rel_intros]: "log_grows (get_scylla_user os)" "log_grows (write_conf os cfg path)"
  "log_grows (kill_node os n)" "log_grows (drop_workdir os n)" "log_grows (is_cql_port_ready os ip)"
  unfolding get_scylla_user_def write_conf_def kill_node_def drop_workdir_def is_cql_port_ready_def
  by (intro io_rel_intros)+

lemma grows_run_node [io_rel_intros]: "log_grows (scylla_run_node os cfg seeds path rack st)"
  unfolding scylla_run_node_def by (intro io_rel_intros)

lemma grows_wait [io_rel_intros]: "log_grows (wait_for_port os n ip)" "log_grows (wait_for_node os n st ip)"
proof -
  show "log_grows (wait_for_port os n ip)" for n
    by (induction n) (auto intro!: io_rel_intros)
  then show "log_grows (wait_for_node os n st ip)"
    by (induction n) (auto intro!: io_rel_intros simp del: wait_for_port.simps)
qed

lemma grows_handle: "log_grows (scylla_handle os fuel m st)"
  by (cases m) (auto intro!: io_rel_intros simp: then_unit_def scylla_start_def scylla_start_one_def
    scylla_stop_def scylla_down_def scylla_down_node_def scylla_up_def scylla_up_node_def
    scylla_wait_for_ready_def scylla_flush_def)

interpretation scylla: io_actor "scylla_handle os fuel" scylla_reply_to for os fuel
  by unfold_locales (rule grows_handle)

end
