(* ===== verification/Scylla_Laws.thy ===== *)
theory Scylla_Laws
  imports Scylla_Cluster
begin

text \<open>
  The laws of the ScyllaDB cluster: which processes run after each operation, who owns them, with
  which arguments they were started, and what \<open>wait_for_ready\<close> has seen when it returns.
\<close>

section \<open>Owned processes\<close>

definition children :: "scylla \<Rightarrow> nat set" where
  "children st = {p. \<exists>n \<in> set (sc_nodes st). sn_child n = Some p}"

text \<open>Every process that runs is the child of a node.\<close>

definition no_orphans :: "scylla \<Rightarrow> effect_log \<Rightarrow> bool" where
  "no_orphans st l \<longleftrightarrow> alive l \<subseteq> children st"

lemma write_conf_alive: "write_conf os cfg p l = Returned u l' \<Longrightarrow> alive l' = alive l"
  by (auto simp: write_conf_def io_simps split: option.splits)

lemma get_scylla_user_alive: "get_scylla_user os l = Returned u l' \<Longrightarrow> alive l' = alive l"
  by (auto simp: get_scylla_user_def io_simps)

lemma run_node_alive:
  assumes "fresh_pids os" and "scylla_run_node os cfg seeds path rack st l = Returned p l'"
  shows "alive l' = insert p (alive l)"
proof -
  from assms(2) obtain l1 l2 l3 user where w: "write_conf os cfg path l = Returned () l1"
    and l2: "l2 = l1 @ [(Create_Dir_All (path_join path ''conf''), Success)]"
    and l3: "l3 = l2 @ [(Write_File (path_join (path_join path ''conf'') ''cassandra-rackdc.properties'')
      (rackdc_properties rack), Success)]"
    and u: "get_scylla_user os l3 = Returned user (l3 @ [(List_Users, os l3 List_Users)])"
    and s: "os (l3 @ [(List_Users, os l3 List_Users)])
      (Spawn (scylla_command st cfg seeds (node_conf_path st cfg path) path user)) = Process_Id p"
    and l': "l' = (l3 @ [(List_Users, os l3 List_Users)]) @
      [(Spawn (scylla_command st cfg seeds (node_conf_path st cfg path) path user), Process_Id p)]"
    by (auto simp: scylla_run_node_def io_simps get_scylla_user_def)
  have "alive (l3 @ [(List_Users, os l3 List_Users)]) = alive l"
    using write_conf_alive [OF w] alive_quiet [of _ l1] l2 l3 by simp
  with alive_spawn [OF s assms(1)] l' show ?thesis by simp
qed

lemma run_node_spawned:
  assumes "scylla_run_node os cfg seeds path rack st l = Returned p l'"
  shows "\<exists>user m. l' = l @ m @ [(Spawn (scylla_command st cfg seeds (node_conf_path st cfg path) path user), Process_Id p)]
    \<and> (Write_File (path_join (path_join path ''conf'') ''cassandra-rackdc.properties'') (rackdc_properties rack), Success) \<in> set m"
  using assms by (auto simp: scylla_run_node_def io_simps get_scylla_user_def write_conf_def split: option.splits)

lemma kill_node_law:
  assumes "kill_node os n l = Returned n' l'"
  shows "n' = n\<lparr>sn_child := None\<rparr> \<and> alive l' = alive l - {p. sn_child n = Some p} \<and> prefix l l'"
proof (cases "sn_child n")
  case None
  with assms show ?thesis by (simp add: kill_node_def io_simps)
next
  case (Some p)
  with assms obtain l1 where k: "kill_child os p l = Returned () l1" "n' = n\<lparr>sn_child := None\<rparr>" "l' = l1"
    by (auto simp: kill_node_def io_bind_iff io_return_iff)
  with alive_kill_child [OF k(1)] Some show ?thesis by (auto simp: io_simps)
qed

section \<open>Start\<close>

lemma start_one_law:
  assumes "fresh_pids os" and "scylla_start_one os seeds (i, cfg) st l = Returned st' l'"
  shows "\<exists>p path user. st' = st\<lparr>sc_nodes := sc_nodes st @
      [\<lparr>sn_db_ip = nc_db_ip cfg, sn_child = Some p, sn_workdir = Some path\<rparr>]\<rparr> \<and>
    alive l' = insert p (alive l) \<and> prefix l l' \<and>
    (Spawn (scylla_command st cfg seeds (node_conf_path st cfg path) path user), Process_Id p) \<in> set l' \<and>
    (Write_File (path_join (path_join path ''conf'') ''cassandra-rackdc.properties'')
      (rackdc_properties (rack_name i)), Success) \<in> set l'"
proof -
  from assms(2) obtain path l1 user l2 v l3 p where
    d: "expect_dir os (Temp_Dir_In (sc_tempdir st)) l = Returned path l1" "get_scylla_user os l1 = Returned user l2"
    and c: "(case user of Some (uid, gid) \<Rightarrow> expect_success os (Chown path uid gid) | None \<Rightarrow> io_return ()) l2 =
      Returned v l3"
    and run: "scylla_run_node os cfg seeds path (rack_name i) st l3 = Returned p l'"
    and st': "st' = st\<lparr>sc_nodes := sc_nodes st @
      [\<lparr>sn_db_ip = nc_db_ip cfg, sn_child = Some p, sn_workdir = Some path\<rparr>]\<rparr>"
    unfolding scylla_start_one_def prod.case io_bind_iff io_return_iff by blast
  have "prefix l l2 \<and> alive l2 = alive l"
    using d by (auto simp: io_simps get_scylla_user_def alive_quiet)
  moreover have "prefix l2 l3 \<and> alive l3 = alive l2"
    using c by (auto simp: io_simps split: option.splits)
  ultimately have l3: "prefix l l3" "alive l3 = alive l" by (auto intro: prefix_order.trans)
  from run_node_spawned [OF run] obtain u m where
    "l' = l3 @ m @ [(Spawn (scylla_command st cfg seeds (node_conf_path st cfg path) path u), Process_Id p)]"
    "(Write_File (path_join (path_join path ''conf'') ''cassandra-rackdc.properties'')
      (rackdc_properties (rack_name i)), Success) \<in> set m" by blast
  with st' run_node_alive [OF assms(1) run] l3 show ?thesis
    by (intro exI [of _ p] exI [of _ path] exI [of _ u]) (auto simp: prefix_def)
qed

text \<open>The process of a node and how it was started; \<open>i\<close> is its place in the list of configurations.\<close>

definition started_as ::
    "scylla \<Rightarrow> string \<Rightarrow> nat \<Rightarrow> scylla_node_config \<Rightarrow> scylla_node \<Rightarrow> effect_log \<Rightarrow> bool" where
  "started_as st seeds i cfg n l \<longleftrightarrow> sn_db_ip n = nc_db_ip cfg \<and>
     (\<exists>p path user. sn_child n = Some p \<and> sn_workdir n = Some path \<and>
        (Spawn (scylla_command st cfg seeds (node_conf_path st cfg path) path user), Process_Id p) \<in> set l \<and>
        (Write_File (path_join (path_join path ''conf'') ''cassandra-rackdc.properties'')
           (rackdc_properties (rack_name i)), Success) \<in> set l)"

lemma command_same_program [simp]:
  "scylla_command (st\<lparr>sc_nodes := ns\<rparr>) = scylla_command st"
  "node_conf_path (st\<lparr>sc_nodes := ns\<rparr>) = node_conf_path st"
  by (simp_all add: scylla_command_def node_conf_path_def fun_eq_iff split: option.split)

lemma started_as_mono: "started_as st seeds i cfg n l \<Longrightarrow> prefix l l' \<Longrightarrow> started_as st seeds i cfg n l'"
  by (auto simp: started_as_def prefix_def)

lemma children_append: "children (st\<lparr>sc_nodes := ns @ [n]\<rparr>) =
    children (st\<lparr>sc_nodes := ns\<rparr>) \<union> {p. sn_child n = Some p}"
  by (auto simp: children_def)

lemma enumerate_split: "enumerate 0 cfgs = ys @ (i, cfg) # zs \<Longrightarrow> i = length ys \<and> cfg = cfgs ! i \<and> i < length cfgs"
proof -
  assume eq: "enumerate 0 cfgs = ys @ (i, cfg) # zs"
  then have len: "length ys < length cfgs" by (metis add_Suc_right length_append length_Cons length_enumerate less_add_Suc1)
  from eq have "enumerate 0 cfgs ! length ys = (i, cfg)" by simp
  with len show ?thesis by (auto simp: nth_enumerate_eq)
qed

lemma start_law:
  assumes "fresh_pids os" and "scylla_start os cfgs st l = Returned st' l'" and "no_orphans st l"
  shows "no_orphans st' l' \<and> (\<exists>news. st' = st\<lparr>sc_nodes := sc_nodes st @ news\<rparr> \<and> length news = length cfgs \<and>
    (\<forall>i < length cfgs. started_as st (show_ipv4 (nc_db_ip (hd cfgs))) i (cfgs ! i) (news ! i) l'))"
proof (cases cfgs)
  case Nil
  with assms(2,3) show ?thesis by (auto simp: scylla_start_def io_simps)
next
  case (Cons c cs)
  let ?seeds = "show_ipv4 (nc_db_ip c)"
  have loop: "io_for (scylla_start_one os ?seeds) (enumerate 0 cfgs) st l = Returned st' l'"
    using assms(2) Cons by (simp add: scylla_start_def)
  let ?P = "\<lambda>done_cfgs s l. no_orphans s l \<and> (\<exists>news. s = st\<lparr>sc_nodes := sc_nodes st @ news\<rparr> \<and>
      length news = length done_cfgs \<and>
      (\<forall>i < length news. started_as st ?seeds i (cfgs ! i) (news ! i) l))"
  have "?P (enumerate 0 cfgs) st' l'"
  proof (rule io_for_invariant [OF loop])
    show "?P [] st l" using assms(3) by simp
  next
    fix ys y zs s l s' l'
    assume sp: "enumerate 0 cfgs = ys @ y # zs" and P: "?P ys s l"
      and step: "scylla_start_one os ?seeds y s l = Returned s' l'"
    obtain i cfg where y: "y = (i, cfg)" by fastforce
    from enumerate_split [OF sp [unfolded y]] have i: "i = length ys" "cfg = cfgs ! i" by auto
    from P obtain news where s: "s = st\<lparr>sc_nodes := sc_nodes st @ news\<rparr>" "length news = length ys"
      "\<forall>i < length news. started_as st ?seeds i (cfgs ! i) (news ! i) l" by blast
    from start_one_law [OF assms(1) step [unfolded y]] obtain p path user where
      new: "s' = s\<lparr>sc_nodes := sc_nodes s @ [\<lparr>sn_db_ip = nc_db_ip cfg, sn_child = Some p, sn_workdir = Some path\<rparr>]\<rparr>"
      "alive l' = insert p (alive l)" "prefix l l'"
      "(Spawn (scylla_command st cfg ?seeds (node_conf_path st cfg path) path user), Process_Id p) \<in> set l'"
      "(Write_File (path_join (path_join path ''conf'') ''cassandra-rackdc.properties'')
        (rackdc_properties (rack_name i)), Success) \<in> set l'"
      using s(1) by auto
    let ?n = "\<lparr>sn_db_ip = nc_db_ip cfg, sn_child = Some p, sn_workdir = Some path\<rparr>"
    have "no_orphans s' l'"
      using P new(1,2) by (auto simp: no_orphans_def children_def)
    moreover have "s' = st\<lparr>sc_nodes := sc_nodes st @ (news @ [?n])\<rparr>" using new(1) s(1) by simp
    moreover have "started_as st ?seeds j (cfgs ! j) ((news @ [?n]) ! j) l'" if "j < length (news @ [?n])" for j
    proof (cases "j < length news")
      case True
      with s(3) started_as_mono [OF _ new(3)] show ?thesis by (simp add: nth_append)
    next
      case False
      with that have "j = i" using i(1) s(2) by simp
      with new(4,5) i s(2) show ?thesis by (auto simp: started_as_def nth_append)
    qed
    ultimately show "?P (ys @ [y]) s' l'"
      using s(2) by (intro conjI exI [of _ "news @ [?n]"]) auto
  qed
  then show ?thesis using Cons by auto
qed

section \<open>Stop and down\<close>

lemma drop_workdir_law:
  "drop_workdir os n l = Returned n' l' \<Longrightarrow> alive l' = alive l \<and> sn_child n' = sn_child n \<and> prefix l l' \<and>
     (\<forall>p. sn_workdir n = Some p \<longrightarrow> Remove_Dir p \<in> fst ` set l')"
  by (auto simp: drop_workdir_def io_simps split: option.splits)

lemma stop_law:
  assumes "scylla_stop os st l = Returned st' l'"
  shows "st' = st\<lparr>sc_nodes := []\<rparr> \<and> alive l' = alive l - children st \<and>
    (\<forall>n \<in> set (sc_nodes st). \<forall>p. sn_workdir n = Some p \<longrightarrow> Remove_Dir p \<in> fst ` set l')"
proof -
  from assms obtain ns where loop: "io_for (\<lambda>node done_nodes.
      io_bind (kill_node os node) (\<lambda>node. io_bind (drop_workdir os node) (\<lambda>node. io_return (done_nodes @ [node]))))
      (sc_nodes st) [] l = Returned ns l'" and st': "st' = st\<lparr>sc_nodes := []\<rparr>"
    by (auto simp: scylla_stop_def io_bind_iff io_return_iff)
  let ?P = "\<lambda>(seen :: scylla_node list) (ns :: scylla_node list) m. alive m = alive l - {p. \<exists>n \<in> set seen. sn_child n = Some p} \<and>
      (\<forall>n \<in> set seen. \<forall>p. sn_workdir n = Some p \<longrightarrow> Remove_Dir p \<in> fst ` set m)"
  have "?P (sc_nodes st) ns l'"
  proof (rule io_for_invariant [OF loop])
    show "?P [] [] l" by simp
  next
    fix ys zs s s' :: "scylla_node list" and y m m'
    assume P: "?P ys s m"
      and step: "io_bind (kill_node os y) (\<lambda>node. io_bind (drop_workdir os node) (\<lambda>node. io_return (s @ [node]))) m =
        Returned s' m'"
    then obtain n1 m1 n2 where k: "kill_node os y m = Returned n1 m1" and d: "drop_workdir os n1 m1 = Returned n2 m'"
      by (auto simp: io_bind_iff io_return_iff)
    from kill_node_law [OF k] have n1: "sn_workdir n1 = sn_workdir y"
      and a1: "alive m1 = alive m - {p. sn_child y = Some p}" and p1: "prefix m m1" by auto
    from drop_workdir_law [OF d] have a2: "alive m' = alive m1" and p2: "prefix m1 m'"
      and gone: "\<forall>p. sn_workdir y = Some p \<longrightarrow> Remove_Dir p \<in> fst ` set m'" using n1 by auto
    have "fst ` set m \<subseteq> fst ` set m'" using p1 p2 set_mono_prefix by (intro image_mono) blast
    with P gone have "\<forall>n \<in> set (ys @ [y]). \<forall>p. sn_workdir n = Some p \<longrightarrow> Remove_Dir p \<in> fst ` set m'"
      by auto
    moreover have "alive m' = alive l - {p. \<exists>n \<in> set (ys @ [y]). sn_child n = Some p}"
      using P a1 a2 unfolding set_append by auto
    ultimately show "?P (ys @ [y]) s' m'" by blast
  qed
  with st' show ?thesis by (simp add: children_def)
qed

lemma down_law:
  assumes "scylla_down os st l = Returned st' l'"
  shows "st' = st\<lparr>sc_nodes := map (\<lambda>n. n\<lparr>sn_child := None\<rparr>) (sc_nodes st)\<rparr> \<and> alive l' = alive l - children st"
proof -
  from assms obtain ns where loop: "io_for (\<lambda>node done_nodes.
      io_bind (kill_node os node) (\<lambda>node. io_return (done_nodes @ [node])))
      (sc_nodes st) [] l = Returned ns l'" and st': "st' = st\<lparr>sc_nodes := ns\<rparr>"
    by (auto simp: scylla_down_def io_bind_iff io_return_iff)
  let ?P = "\<lambda>(seen :: scylla_node list) ns m. ns = map (\<lambda>n. n\<lparr>sn_child := None\<rparr>) seen \<and>
      alive m = alive l - {p. \<exists>n \<in> set seen. sn_child n = Some p}"
  have "?P (sc_nodes st) ns l'"
  proof (rule io_for_invariant [OF loop])
    show "?P [] [] l" by simp
  next
    fix ys zs s s' :: "scylla_node list" and y m m'
    assume P: "?P ys s m"
      and step: "io_bind (kill_node os y) (\<lambda>node. io_return (s @ [node])) m = Returned s' m'"
    then obtain n1 where "kill_node os y m = Returned n1 m'" "s' = s @ [n1]"
      by (auto simp: io_bind_iff io_return_iff)
    from kill_node_law [OF this(1)] P this(2)
    have "s' = map (\<lambda>n. n\<lparr>sn_child := None\<rparr>) (ys @ [y])"
      "alive m' = alive l - {p. \<exists>n \<in> set ys. sn_child n = Some p} - {p. sn_child y = Some p}" by simp_all
    then show "?P (ys @ [y]) s' m'" by (simp, blast)
  qed
  with st' show ?thesis by (simp add: children_def)
qed

lemma down_node_law:
  assumes "scylla_down_node os ip st l = Returned st' l'"
  shows "case position (\<lambda>n. sn_db_ip n = ip) (sc_nodes st) of
      None \<Rightarrow> st' = st \<and> l' = l
    | Some i \<Rightarrow> st' = st\<lparr>sc_nodes := (sc_nodes st)[i := (sc_nodes st ! i)\<lparr>sn_child := None\<rparr>]\<rparr> \<and>
        alive l' = alive l - {p. sn_child (sc_nodes st ! i) = Some p}"
  using assms by (auto simp: scylla_down_node_def io_bind_iff io_return_iff dest!: kill_node_law split: option.splits)

section \<open>Up\<close>

lemma run_node_fresh:
  assumes "fresh_pids os" and "scylla_run_node os cfg seeds path rack st l = Returned p l'"
  shows "p \<notin> alive l"
proof -
  from run_node_spawned [OF assms(2)] obtain c m where l': "l' = l @ m @ [(Spawn c, Process_Id p)]" by blast
  from assms(2) obtain k c' where "os k (Spawn c') = Process_Id p" "l' = k @ [(Spawn c', Process_Id p)]"
    by (auto simp: scylla_run_node_def io_simps)
  with l' have "os (l @ m) (Spawn c) = Process_Id p" by simp
  with assms(1) have "\<forall>c'. (Spawn c', Process_Id p) \<notin> set (l @ m)" unfolding fresh_pids_def by blast
  then show ?thesis by (auto simp: alive_def)
qed

text \<open>What \<open>up\<close> and \<open>up_node\<close> leave of a node: a new process in the directory of the old one.\<close>

definition resumed_as ::
    "scylla \<Rightarrow> string \<Rightarrow> nat \<Rightarrow> scylla_node_config \<Rightarrow> scylla_node \<Rightarrow> scylla_node \<Rightarrow> effect_log \<Rightarrow> bool" where
  "resumed_as st seeds i cfg n n' l \<longleftrightarrow>
     (\<exists>p path user. n' = n\<lparr>sn_child := Some p\<rparr> \<and> sn_workdir n = Some path \<and>
        (Spawn (scylla_command st cfg seeds (node_conf_path st cfg path) path user), Process_Id p) \<in> set l \<and>
        (Write_File (path_join (path_join path ''conf'') ''cassandra-rackdc.properties'')
           (rackdc_properties (rack_name i)), Success) \<in> set l)"

lemma resumed_as_mono:
  assumes "resumed_as st seeds i cfg n n' l" and "prefix l l'"
  shows "resumed_as st seeds i cfg n n' l'"
  using assms(1) set_mono_prefix [OF assms(2)] unfolding resumed_as_def by blast

lemma resume_one_law:
  assumes "fresh_pids os" and "scylla_run_node os cfg seeds path (rack_name i) st l = Returned p l'"
    and "sn_workdir n = Some path"
  shows "resumed_as st seeds i cfg n (n\<lparr>sn_child := Some p\<rparr>) l' \<and> alive l' = insert p (alive l) \<and>
    p \<notin> alive l \<and> prefix l l'"
proof -
  from run_node_spawned [OF assms(2)] obtain user m where
    "l' = l @ m @ [(Spawn (scylla_command st cfg seeds (node_conf_path st cfg path) path user), Process_Id p)]"
    "(Write_File (path_join (path_join path ''conf'') ''cassandra-rackdc.properties'')
      (rackdc_properties (rack_name i)), Success) \<in> set m" by blast
  with run_node_alive [OF assms(1,2)] run_node_fresh [OF assms(1,2)] assms(3) show ?thesis
    unfolding resumed_as_def by (auto simp: prefix_def)
qed

lemma run_node_same_program [simp]:
  "scylla_run_node os cfg seeds path rack (st\<lparr>sc_nodes := ns\<rparr>) = scylla_run_node os cfg seeds path rack st"
  by (simp add: scylla_run_node_def fun_eq_iff)

lemma up_law:
  assumes "fresh_pids os" and "scylla_up os cfgs st l = Returned st' l'"
  defines "ns \<equiv> sc_nodes st"
  shows "\<exists>ns'. st' = st\<lparr>sc_nodes := ns'\<rparr> \<and> length ns' = length ns \<and> length ns \<le> length cfgs \<and>
    (\<forall>i < length ns. resumed_as st (show_ipv4 (sn_db_ip (hd ns))) i (cfgs ! i) (ns ! i) (ns' ! i) l') \<and>
    alive l' = alive l \<union> children st' \<and> children st' \<inter> alive l = {}"
proof (cases ns)
  case Nil
  with assms show ?thesis
    by (intro exI [of _ "sc_nodes st"]) (auto simp: scylla_up_def io_simps children_def)
next
  case (Cons first rest)
  let ?seeds = "show_ipv4 (sn_db_ip first)" and ?paths = "map (\<lambda>n. the (sn_workdir n)) ns"
  let ?body = "\<lambda>(i, path) st. io_bind (io_assert (i < length cfgs)) (\<lambda>_.
    io_bind (scylla_run_node os (cfgs ! i) ?seeds path (rack_name i) st) (\<lambda>child. io_return (set_child i child st)))"
  from assms(2) Cons have dirs: "\<forall>n \<in> set ns. sn_workdir n \<noteq> None"
    and loop: "io_for ?body (enumerate 0 ?paths) st l = Returned st' l'"
    by (auto simp: scylla_up_def ns_def io_panic_iff list_ex_iff split: if_splits)
  let ?P = "\<lambda>ys s m. length ys \<le> length cfgs \<and> (\<exists>new. length new = length ys \<and>
    s = st\<lparr>sc_nodes := new @ drop (length ys) ns\<rparr> \<and>
    (\<forall>i < length ys. resumed_as st ?seeds i (cfgs ! i) (ns ! i) (new ! i) m) \<and>
    alive m = alive l \<union> {p. \<exists>n \<in> set new. sn_child n = Some p} \<and>
    {p. \<exists>n \<in> set new. sn_child n = Some p} \<inter> alive l = {})"
  have "?P (enumerate 0 ?paths) st' l'"
  proof (rule io_for_invariant [OF loop])
    show "?P [] st l" by (simp add: ns_def)
  next
    fix ys y zs s m s' m'
    assume sp: "enumerate 0 ?paths = ys @ y # zs" and P: "?P ys s m" and step: "?body y s m = Returned s' m'"
    obtain i path where y: "y = (i, path)" by fastforce
    have i: "i = length ys" "path = the (sn_workdir (ns ! i))" "i < length ns"
      using enumerate_split [of ?paths ys i path zs] sp y by auto
    from P obtain new where new: "length new = length ys" "s = st\<lparr>sc_nodes := new @ drop (length ys) ns\<rparr>"
      "\<forall>i < length ys. resumed_as st ?seeds i (cfgs ! i) (ns ! i) (new ! i) m"
      "alive m = alive l \<union> {p. \<exists>n \<in> set new. sn_child n = Some p}"
      "{p. \<exists>n \<in> set new. sn_child n = Some p} \<inter> alive l = {}" by blast
    from step y new(2) obtain p where len: "i < length cfgs"
      and run: "scylla_run_node os (cfgs ! i) ?seeds path (rack_name i) st m = Returned p m'"
      and s': "s' = set_child i p s"
      by (auto simp: io_bind_iff io_return_iff io_assert_iff)
    from dirs i have "sn_workdir (ns ! i) = Some path" by simp
    from resume_one_law [OF assms(1) run this] have one:
      "resumed_as st ?seeds i (cfgs ! i) (ns ! i) ((ns ! i)\<lparr>sn_child := Some p\<rparr>) m'"
      "alive m' = insert p (alive m)" "p \<notin> alive m" "prefix m m'" by auto
    let ?new = "new @ [(ns ! i)\<lparr>sn_child := Some p\<rparr>]"
    have "drop i ns = ns ! i # drop (Suc i) ns" using i(3) by (simp add: Cons_nth_drop_Suc)
    then have "s' = st\<lparr>sc_nodes := ?new @ drop (Suc i) ns\<rparr>"
      using s' new(1,2) i(1) by (simp add: set_child_def nth_append list_update_append)
    moreover have "\<forall>j < Suc i. resumed_as st ?seeds j (cfgs ! j) (ns ! j) (?new ! j) m'"
      using new(1,3) i(1) one(1) resumed_as_mono [OF _ one(4)] by (auto simp: nth_append less_Suc_eq)
    moreover have "alive m' = alive l \<union> {p. \<exists>n \<in> set ?new. sn_child n = Some p}"
      using one(2) new(4) by auto
    moreover have "{p. \<exists>n \<in> set ?new. sn_child n = Some p} \<inter> alive l = {}"
      using one(3) new(4,5) by auto
    ultimately show "?P (ys @ [y]) s' m'"
      using len i(1) new(1) by (intro conjI exI [of _ ?new]) simp_all
  qed
  then obtain new where "length ns \<le> length cfgs" "length new = length ns" "st' = st\<lparr>sc_nodes := new\<rparr>"
    "\<forall>i < length ns. resumed_as st ?seeds i (cfgs ! i) (ns ! i) (new ! i) l'"
    "alive l' = alive l \<union> {p. \<exists>n \<in> set new. sn_child n = Some p}"
    "{p. \<exists>n \<in> set new. sn_child n = Some p} \<inter> alive l = {}" by auto
  with Cons show ?thesis by (intro exI [of _ new]) (auto simp: children_def)
qed

lemma up_node_law:
  assumes "fresh_pids os" and "scylla_up_node os cfg st l = Returned st' l'"
  defines "ns \<equiv> sc_nodes st"
  shows "case position (\<lambda>n. sn_db_ip n = nc_db_ip cfg) ns of
      None \<Rightarrow> st' = st \<and> l' = l
    | Some i \<Rightarrow> \<exists>n' p. st' = st\<lparr>sc_nodes := ns[i := n']\<rparr> \<and> sn_child n' = Some p \<and>
        resumed_as st (show_ipv4 (sn_db_ip (hd ns))) i cfg (ns ! i) n' l' \<and>
        alive l' = insert p (alive l) \<and> p \<notin> alive l"
proof (cases "position (\<lambda>n. sn_db_ip n = nc_db_ip cfg) ns")
  case None
  with assms(2) show ?thesis
    by (auto simp: scylla_up_node_def ns_def io_return_iff split: list.splits)
next
  case (Some i)
  then have ne: "ns \<noteq> []" by auto
  then obtain first rest where ns: "sc_nodes st = first # rest" unfolding ns_def by (cases "sc_nodes st") auto
  from assms(2) Some obtain path p where w: "sn_workdir (ns ! i) = Some path"
    and run: "scylla_run_node os cfg (show_ipv4 (sn_db_ip first)) path (rack_name i) st l = Returned p l'"
    and st': "st' = set_child i p st"
    by (auto simp: scylla_up_node_def ns_def ns io_bind_iff io_return_iff io_panic_iff split: option.splits)
  from resume_one_law [OF assms(1) run w] st' ns Some show ?thesis
    by (auto simp: set_child_def ns_def)
qed

end
