(* ===== verification/Scylla_Runs.thy ===== *)
theory Scylla_Runs
  imports Scylla_Laws
begin

text \<open>
  What a client of the ScyllaDB cluster can rely on: waiting ends with a node that is up and never
  before, no process and no directory outlives the actor, a paused cluster comes back as it was.
\<close>

section \<open>Waiting\<close>

text \<open>What the log holds when a node was found ready.\<close>

definition seen_ready :: "scylla \<Rightarrow> ipv4 \<Rightarrow> effect_log \<Rightarrow> bool" where
  "seen_ready st ip l \<longleftrightarrow>
     (\<exists>ok out. (Run_Output (nodetool st ip ''status''), Exited ok out) \<in> set l \<and> status_up ip out) \<and>
     (Tcp_Connect (ip, DEFAULT_SCYLLA_CQL_PORT) 500, Success) \<in> set l"

abbreviation "cql_connect ip \<equiv> Tcp_Connect (ip, DEFAULT_SCYLLA_CQL_PORT) 500"
abbreviation "status_query st ip \<equiv> Run_Output (nodetool st ip ''status'')"

lemma wait_for_port_Suc:
  "wait_for_port os (Suc n) ip l =
     (if os l (cql_connect ip) = Success then Returned True (l @ [(cql_connect ip, Success)])
      else wait_for_port os n ip (retried os (cql_connect ip) l))"
  by (simp add: is_cql_port_ready_def io_bind_def perform_def io_return_def retried_def Let_def)

lemma wait_for_node_Suc:
  assumes "os l (status_query st ip) = Exited ok out"
  shows "wait_for_node os (Suc n) st ip l =
     (if status_up ip out then wait_for_port os (Suc n) ip (l @ [(status_query st ip, Exited ok out)])
      else wait_for_node os n st ip (retried os (status_query st ip) l))"
  using assms
  by (simp add: io_bind_def perform_def io_return_def retried_def Let_def expect_output_def del: wait_for_port.simps)

declare wait_for_port.simps(2) [simp del] wait_for_node.simps(2) [simp del]

lemma wait_for_node_answered:
  "wait_for_node os (Suc n) st ip l = Returned b l' \<Longrightarrow> \<exists>ok out. os l (status_query st ip) = Exited ok out"
  by (auto simp: wait_for_node.simps io_bind_iff expect_output_iff)

lemma wait_for_port_law:
  "wait_for_port os n ip l = Returned b l' \<Longrightarrow>
     b \<and> prefix l l' \<and> alive l' = alive l \<and> (cql_connect ip, Success) \<in> set l'"
proof (induction n arbitrary: l)
  case (Suc n)
  then show ?case
    using prefix_order.trans [OF prefix_retried, of os "cql_connect ip" l l']
      Suc.IH [of "retried os (cql_connect ip) l"]
    by (auto simp: wait_for_port_Suc split: if_splits)
qed (simp add: io_wait_iff)

lemma wait_for_node_law:
  "wait_for_node os n st ip l = Returned b l' \<Longrightarrow>
     b \<and> prefix l l' \<and> alive l' = alive l \<and> seen_ready st ip l'"
proof (induction n arbitrary: l)
  case (Suc n)
  from wait_for_node_answered [OF Suc.prems] obtain ok out
    where out: "os l (status_query st ip) = Exited ok out" by blast
  let ?l = "l @ [(status_query st ip, Exited ok out)]"
  show ?case
  proof (cases "status_up ip out")
    case True
    with Suc.prems wait_for_node_Suc [where os = os and l = l, OF out] have port: "wait_for_port os (Suc n) ip ?l = Returned b l'" by simp
    from wait_for_port_law [OF port] have law: "b" "prefix ?l l'" "alive l' = alive l"
      "(cql_connect ip, Success) \<in> set l'" by auto
    from set_mono_prefix [OF law(2)] have "(status_query st ip, Exited ok out) \<in> set l'" by auto
    with True law show ?thesis unfolding seen_ready_def by (auto dest: append_prefixD)
  next
    case False
    with Suc.prems wait_for_node_Suc [where os = os and l = l, OF out]
    have "wait_for_node os n st ip (retried os (status_query st ip) l) = Returned b l'" by simp
    from Suc.IH [OF this] show ?thesis
      using prefix_order.trans [OF prefix_retried] by auto
  qed
qed (simp add: io_wait_iff)

lemma seen_ready_mono: "seen_ready st ip l \<Longrightarrow> prefix l l' \<Longrightarrow> seen_ready st ip l'"
  unfolding seen_ready_def by (meson set_mono_prefix subsetD)

lemma wait_for_ready_law:
  assumes "scylla_wait_for_ready os fuel st l = Returned b l'"
  shows "b = (sc_nodes st \<noteq> []) \<and> prefix l l' \<and> alive l' = alive l \<and>
    (\<forall>n \<in> set (sc_nodes st). seen_ready st (sn_db_ip n) l')"
proof (cases "sc_nodes st = []")
  case True
  with assms show ?thesis by (simp add: scylla_wait_for_ready_def io_return_iff)
next
  case False
  let ?body = "\<lambda>node _. io_bind (wait_for_node os fuel st (sn_db_ip node)) (\<lambda>_. io_return ())"
  from assms False have loop: "io_for ?body (sc_nodes st) () l = Returned () l'" and b: "b = True"
    by (auto simp: scylla_wait_for_ready_def io_bind_iff io_return_iff)
  have "prefix l l' \<and> alive l' = alive l \<and> (\<forall>n \<in> set (sc_nodes st). seen_ready st (sn_db_ip n) l')"
  proof (rule io_for_invariant [OF loop])
    fix ys zs :: "scylla_node list" and y :: scylla_node and s s' m m'
    assume P: "prefix l m \<and> alive m = alive l \<and> (\<forall>n \<in> set ys. seen_ready st (sn_db_ip n) m)"
      and step: "?body y s m = Returned s' m'"
    from step obtain u where "wait_for_node os fuel st (sn_db_ip y) m = Returned u m'"
      by (auto simp: io_bind_iff io_return_iff)
    from wait_for_node_law [OF this] P seen_ready_mono
    show "prefix l m' \<and> alive m' = alive l \<and> (\<forall>n \<in> set (ys @ [y]). seen_ready st (sn_db_ip n) m')"
      by (auto intro: prefix_order.trans)
  qed simp
  with b False show ?thesis by simp
qed

text \<open>
  A node that comes up: after enough questions its status line is there, after enough attempts its
  port is open.
\<close>

definition comes_up :: "os \<Rightarrow> scylla \<Rightarrow> nat \<Rightarrow> ipv4 \<Rightarrow> bool" where
  "comes_up os st k ip \<longleftrightarrow>
     (\<forall>l. \<exists>ok out. os l (status_query st ip) = Exited ok out \<and>
        (k \<le> asked (status_query st ip) l \<longrightarrow> status_up ip out)) \<and>
     (\<forall>l. k \<le> asked (cql_connect ip) l \<longrightarrow> os l (cql_connect ip) = Success)"

lemma wait_for_port_ends:
  assumes "comes_up os st k ip"
  shows "k - asked (cql_connect ip) l < n \<Longrightarrow> \<exists>l'. wait_for_port os n ip l = Returned True l'"
proof (induction n arbitrary: l)
  case (Suc n)
  have "os l (cql_connect ip) \<noteq> Success \<Longrightarrow> asked (cql_connect ip) l < k"
    using assms by (force simp: comes_up_def)
  with Suc show ?case by (auto simp: wait_for_port_Suc)
qed simp

lemma wait_for_node_ends:
  assumes up: "comes_up os st k ip"
  shows "k - asked (status_query st ip) l + k < n \<Longrightarrow> \<exists>l'. wait_for_node os n st ip l = Returned True l'"
proof (induction n arbitrary: l)
  case (Suc n)
  from up obtain ok out where out: "os l (status_query st ip) = Exited ok out"
    "k \<le> asked (status_query st ip) l \<longrightarrow> status_up ip out" unfolding comes_up_def by metis
  from Suc.prems have "\<exists>l'. wait_for_port os (Suc n) ip m = Returned True l'" for m
    by (intro wait_for_port_ends [OF up]) simp
  with out Suc show ?case by (auto simp: wait_for_node_Suc [where os = os and l = l, OF out(1)])
qed simp

lemma wait_for_ready_ends:
  assumes "\<forall>n \<in> set (sc_nodes st). comes_up os st k (sn_db_ip n)" and "2 * k < fuel" and "sc_nodes st \<noteq> []"
  shows "\<exists>l'. scylla_wait_for_ready os fuel st l = Returned True l'"
proof -
  have "\<exists>l'. io_for (\<lambda>node _. io_bind (wait_for_node os fuel st (sn_db_ip node)) (\<lambda>_. io_return ())) ns () l =
      Returned () l'" if "set ns \<subseteq> set (sc_nodes st)" for ns
    using that
  proof (induction ns arbitrary: l)
    case (Cons n ns)
    with assms(1) have "comes_up os st k (sn_db_ip n)" by simp
    moreover have "k - asked (status_query st (sn_db_ip n)) l + k < fuel" using assms(2) by linarith
    ultimately obtain l1 where "wait_for_node os fuel st (sn_db_ip n) l = Returned True l1"
      using wait_for_node_ends by blast
    with Cons.IH [of l1] Cons.prems show ?case by (auto simp: io_bind_iff io_return_iff)
  qed (simp add: io_return_iff)
  from this [OF subset_refl] assms(3) show ?thesis
    by (auto simp: scylla_wait_for_ready_def io_bind_iff io_return_iff)
qed

section \<open>Nothing outlives the actor\<close>

definition workdirs :: "scylla \<Rightarrow> path set" where
  "workdirs st = {p. \<exists>n \<in> set (sc_nodes st). sn_workdir n = Some p}"

text \<open>Every process that runs and every directory that is left belongs to a node.\<close>

definition tidy :: "scylla \<Rightarrow> effect_log \<Rightarrow> bool" where
  "tidy st l \<longleftrightarrow> no_orphans st l \<and> kept_dirs l \<subseteq> workdirs st"

lemma write_conf_kept: "write_conf os cfg p l = Returned u l' \<Longrightarrow> kept_dirs l' = kept_dirs l"
  by (auto simp: write_conf_def io_simps split: option.splits)

lemma run_node_kept:
  assumes "scylla_run_node os cfg seeds path rack st l = Returned p l'"
  shows "kept_dirs l' = kept_dirs l"
proof -
  from assms obtain u l1 v l2 w l3 user l4 where "write_conf os cfg path l = Returned u l1"
    "expect_success os (Create_Dir_All (path_join path ''conf'')) l1 = Returned v l2"
    "expect_success os (Write_File (path_join (path_join path ''conf'') ''cassandra-rackdc.properties'')
      (rackdc_properties rack)) l2 = Returned w l3"
    "get_scylla_user os l3 = Returned user l4"
    "expect_pid os (Spawn (scylla_command st cfg seeds (node_conf_path st cfg path) path user)) l4 = Returned p l'"
    unfolding scylla_run_node_def io_bind_iff by blast
  then show ?thesis
    by (auto simp: expect_success_iff expect_pid_iff get_scylla_user_def io_bind_iff perform_iff io_return_iff
        dest: write_conf_kept)
qed

lemma start_one_kept:
  assumes "scylla_start_one os seeds (i, cfg) st l = Returned st' l'" and "kept_dirs l \<subseteq> workdirs st"
  shows "kept_dirs l' \<subseteq> workdirs st'"
proof -
  from assms(1) obtain path l1 user l2 v l3 p where
    d: "expect_dir os (Temp_Dir_In (sc_tempdir st)) l = Returned path l1" "get_scylla_user os l1 = Returned user l2"
    and c: "(case user of Some (uid, gid) \<Rightarrow> expect_success os (Chown path uid gid) | None \<Rightarrow> io_return ()) l2 =
      Returned v l3"
    and run: "scylla_run_node os cfg seeds path (rack_name i) st l3 = Returned p l'"
    and st': "st' = st\<lparr>sc_nodes := sc_nodes st @
      [\<lparr>sn_db_ip = nc_db_ip cfg, sn_child = Some p, sn_workdir = Some path\<rparr>]\<rparr>"
    unfolding scylla_start_one_def prod.case io_bind_iff io_return_iff by blast
  have "kept_dirs l2 = insert path (kept_dirs l)" using d by (auto simp: io_simps get_scylla_user_def)
  moreover have "kept_dirs l3 = kept_dirs l2" using c by (auto simp: io_simps split: option.splits)
  ultimately show ?thesis
    using run_node_kept [OF run] assms(2) st' by (auto simp: workdirs_def)
qed

lemma start_kept:
  assumes "scylla_start os cfgs st l = Returned st' l'" and "kept_dirs l \<subseteq> workdirs st"
  shows "kept_dirs l' \<subseteq> workdirs st'"
proof (cases cfgs)
  case Nil
  with assms show ?thesis by (simp add: scylla_start_def io_return_iff)
next
  case (Cons c cs)
  with assms(1) have loop: "io_for (scylla_start_one os (show_ipv4 (nc_db_ip c))) (enumerate 0 cfgs) st l = Returned st' l'"
    by (simp add: scylla_start_def)
  show ?thesis
    by (rule io_for_invariant [where P = "\<lambda>_ s m. kept_dirs m \<subseteq> workdirs s", OF loop assms(2)])
      (metis start_one_kept surj_pair)
qed

lemma kill_node_kept: "kill_node os n l = Returned n' l' \<Longrightarrow> kept_dirs l' = kept_dirs l"
  by (auto simp: kill_node_def io_simps split: option.splits)

lemma drop_workdir_kept:
  "drop_workdir os n l = Returned n' l' \<Longrightarrow> kept_dirs l' = kept_dirs l - {p. sn_workdir n = Some p}"
  by (auto simp: drop_workdir_def io_simps split: option.splits)

lemma stop_kept:
  assumes "scylla_stop os st l = Returned st' l'"
  shows "kept_dirs l' = kept_dirs l - workdirs st"
proof -
  from assms obtain ns where loop: "io_for (\<lambda>node done_nodes.
      io_bind (kill_node os node) (\<lambda>node. io_bind (drop_workdir os node) (\<lambda>node. io_return (done_nodes @ [node]))))
      (sc_nodes st) [] l = Returned ns l'"
    by (auto simp: scylla_stop_def io_bind_iff io_return_iff)
  let ?P = "\<lambda>(seen :: scylla_node list) (ns :: scylla_node list) m.
    kept_dirs m = kept_dirs l - {p. \<exists>n \<in> set seen. sn_workdir n = Some p}"
  have "?P (sc_nodes st) ns l'"
  proof (rule io_for_invariant [OF loop])
    fix ys zs s s' :: "scylla_node list" and y m m'
    assume P: "?P ys s m"
      and step: "io_bind (kill_node os y) (\<lambda>node. io_bind (drop_workdir os node) (\<lambda>node. io_return (s @ [node]))) m =
        Returned s' m'"
    then obtain n1 m1 n2 where k: "kill_node os y m = Returned n1 m1" and d: "drop_workdir os n1 m1 = Returned n2 m'"
      by (auto simp: io_bind_iff io_return_iff)
    have "sn_workdir n1 = sn_workdir y" using kill_node_law [OF k] by simp
    with kill_node_kept [OF k] drop_workdir_kept [OF d] P show "?P (ys @ [y]) s' m'" by auto
  qed simp
  then show ?thesis by (simp add: workdirs_def)
qed

lemma down_kept:
  assumes "scylla_down os st l = Returned st' l'"
  shows "kept_dirs l' = kept_dirs l"
proof -
  from assms obtain ns where loop: "io_for (\<lambda>node done_nodes.
      io_bind (kill_node os node) (\<lambda>node. io_return (done_nodes @ [node]))) (sc_nodes st) [] l = Returned ns l'"
    by (auto simp: scylla_down_def io_bind_iff io_return_iff)
  show ?thesis
    by (rule io_for_invariant [OF loop, where P = "\<lambda>_ _ m. kept_dirs m = kept_dirs l"])
      (auto simp: io_bind_iff io_return_iff dest!: kill_node_kept)
qed

lemma up_kept:
  assumes "scylla_up os cfgs st l = Returned st' l'"
  shows "kept_dirs l' = kept_dirs l"
proof (cases "sc_nodes st")
  case Nil
  with assms show ?thesis by (simp add: scylla_up_def io_return_iff)
next
  case (Cons n ns)
  with assms obtain f xs where loop: "io_for f xs st l = Returned st' l'"
    and f: "f = (\<lambda>(i, path) st. io_bind (io_assert (i < length cfgs)) (\<lambda>_.
       io_bind (scylla_run_node os (cfgs ! i) (show_ipv4 (sn_db_ip n)) path (rack_name i) st) (\<lambda>child.
       io_return (set_child i child st))))"
    unfolding scylla_up_def by (simp only: list.case split: if_splits) (simp add: io_panic_iff)
  have body: "kept_dirs m' = kept_dirs m" if "f y s m = Returned s' m'" for y s m s' m'
    using that unfolding f case_prod_unfold io_bind_iff io_return_iff io_assert_iff by (metis run_node_kept)
  show ?thesis
    by (rule io_for_invariant [OF loop, where P = "\<lambda>_ _ m. kept_dirs m = kept_dirs l"])
      (simp_all add: body)
qed

lemma down_node_kept: "scylla_down_node os ip st l = Returned st' l' \<Longrightarrow> kept_dirs l' = kept_dirs l"
  by (auto simp: scylla_down_node_def io_bind_iff io_return_iff dest!: kill_node_kept split: option.splits)

lemma up_node_kept:
  assumes "scylla_up_node os cfg st l = Returned st' l'"
  shows "kept_dirs l' = kept_dirs l"
proof (cases "sc_nodes st")
  case Nil
  with assms show ?thesis by (simp add: scylla_up_node_def io_return_iff)
next
  case (Cons n ns)
  show ?thesis
  proof (cases "position (\<lambda>n. sn_db_ip n = nc_db_ip cfg) (sc_nodes st)")
    case None
    with assms Cons show ?thesis by (simp add: scylla_up_node_def io_return_iff)
  next
    case (Some i)
    with assms Cons obtain path p where
      "scylla_run_node os cfg (show_ipv4 (sn_db_ip n)) path (rack_name i) st l = Returned p l'"
      unfolding scylla_up_node_def
      by (cases "sn_workdir (sc_nodes st ! i)") (auto simp: io_bind_iff io_return_iff io_panic_iff)
    then show ?thesis by (rule run_node_kept)
  qed
qed

lemma wait_for_node_kept:
  "wait_for_port os n ip l = Returned b l' \<Longrightarrow> kept_dirs l' = kept_dirs l"
  "wait_for_node os n st ip l = Returned b l' \<Longrightarrow> kept_dirs l' = kept_dirs l"
proof -
  have port: "wait_for_port os n ip l = Returned b l' \<Longrightarrow> kept_dirs l' = kept_dirs l" for n l
  proof (induction n arbitrary: l)
    case (Suc n)
    from Suc.prems Suc.IH [of "retried os (cql_connect ip) l"] show ?case
      by (auto simp: wait_for_port_Suc dir_step_def split: if_splits)
  qed (simp add: io_wait_iff)
  then show "wait_for_port os n ip l = Returned b l' \<Longrightarrow> kept_dirs l' = kept_dirs l" .
  show "wait_for_node os n st ip l = Returned b l' \<Longrightarrow> kept_dirs l' = kept_dirs l"
  proof (induction n arbitrary: l)
    case (Suc n)
    from wait_for_node_answered [OF Suc.prems] obtain ok out
      where out: "os l (status_query st ip) = Exited ok out" by blast
    from Suc.prems port Suc.IH [of "retried os (status_query st ip) l"] show ?case
      unfolding wait_for_node_Suc [where os = os and l = l, OF out]
      by (fastforce simp: dir_step_def split: if_splits)
  qed (simp add: io_wait_iff)
qed

lemma wait_for_ready_kept:
  assumes "scylla_wait_for_ready os fuel st l = Returned b l'"
  shows "kept_dirs l' = kept_dirs l"
proof (cases "sc_nodes st = []")
  case True
  with assms show ?thesis by (simp add: scylla_wait_for_ready_def io_return_iff)
next
  case False
  let ?body = "\<lambda>node _. io_bind (wait_for_node os fuel st (sn_db_ip node)) (\<lambda>_. io_return ())"
  from assms False have loop: "io_for ?body (sc_nodes st) () l = Returned () l'"
    by (auto simp: scylla_wait_for_ready_def io_bind_iff io_return_iff)
  show ?thesis
    by (rule io_for_invariant [OF loop, where P = "\<lambda>_ _ m. kept_dirs m = kept_dirs l"])
      (auto simp: io_bind_iff io_return_iff dest: wait_for_node_kept)
qed

lemma flush_law:
  assumes "scylla_flush os st l = Returned u l'"
  shows "alive l' = alive l \<and> kept_dirs l' = kept_dirs l"
proof -
  show ?thesis
    by (rule io_for_invariant [OF assms [unfolded scylla_flush_def], where
        P = "\<lambda>_ _ m. alive m = alive l \<and> kept_dirs m = kept_dirs l"])
      (auto simp: io_bind_iff io_return_iff expect_output_iff dir_step_def)
qed

section \<open>The invariant of the actor\<close>

text \<open>
  \<open>up\<close> and \<open>up_node\<close> resume paused nodes: they do not look whether the old process still runs, so a
  client pauses first.
\<close>

fun polite :: "scylla_msg \<Rightarrow> scylla \<Rightarrow> bool" where
  "polite (Scylla_Up cfgs) st = list_all (\<lambda>n. sn_child n = None) (sc_nodes st)"
| "polite (Scylla_Up_Node cfg) st =
     (case position (\<lambda>n. sn_db_ip n = nc_db_ip cfg) (sc_nodes st) of
        Some i \<Rightarrow> sn_child (sc_nodes st ! i) = None | None \<Rightarrow> True)"
| "polite _ st = True"

lemma workdirs_update:
  "i < length (sc_nodes st) \<Longrightarrow> sn_workdir n' = sn_workdir (sc_nodes st ! i) \<Longrightarrow>
     workdirs (st\<lparr>sc_nodes := (sc_nodes st)[i := n']\<rparr>) = workdirs st"
proof -
  assume "i < length (sc_nodes st)" and "sn_workdir n' = sn_workdir (sc_nodes st ! i)"
  then have "map sn_workdir ((sc_nodes st)[i := n']) = map sn_workdir (sc_nodes st)"
    by (simp add: map_update list_update_same_conv)
  then have "sn_workdir ` set ((sc_nodes st)[i := n']) = sn_workdir ` set (sc_nodes st)"
    by (metis set_map)
  moreover have "workdirs s = {p. Some p \<in> sn_workdir ` set (sc_nodes s)}" for s
    by (force simp: workdirs_def)
  ultimately show ?thesis by simp
qed

lemma children_update:
  assumes "i < length (sc_nodes st)"
  shows "children (st\<lparr>sc_nodes := (sc_nodes st)[i := n']\<rparr>) \<supseteq>
    children st - {p. sn_child (sc_nodes st ! i) = Some p} \<union> {p. sn_child n' = Some p}"
proof -
  have "n' \<in> set ((sc_nodes st)[i := n'])" using assms by (rule set_update_memI)
  moreover have "n \<in> set ((sc_nodes st)[i := n'])" if "n \<in> set (sc_nodes st)" "n \<noteq> sc_nodes st ! i" for n
    using that assms by (metis in_set_conv_nth length_list_update nth_list_update_neq)
  ultimately show ?thesis unfolding children_def by fastforce
qed

lemma resumed_as_workdir: "resumed_as st seeds i cfg n n' l \<Longrightarrow> sn_workdir n' = sn_workdir n"
  by (auto simp: resumed_as_def)

lemma workdirs_cong:
  "length (sc_nodes st') = length (sc_nodes st) \<Longrightarrow>
   \<forall>i < length (sc_nodes st). sn_workdir (sc_nodes st' ! i) = sn_workdir (sc_nodes st ! i) \<Longrightarrow>
   workdirs st' = workdirs st"
  unfolding workdirs_def by (metis (no_types, lifting) in_set_conv_nth)

lemma down_node_tidy:
  assumes "scylla_down_node os ip st l = Returned st' l'" and "tidy st l"
  shows "tidy st' l'"
proof (cases "position (\<lambda>n. sn_db_ip n = ip) (sc_nodes st)")
  case None
  with down_node_law [OF assms(1)] assms(2) show ?thesis by simp
next
  case (Some i)
  have i: "i < length (sc_nodes st)" using position_Some [OF Some] by simp
  from down_node_law [OF assms(1)] Some have
    st': "st' = st\<lparr>sc_nodes := (sc_nodes st)[i := (sc_nodes st ! i)\<lparr>sn_child := None\<rparr>]\<rparr>"
    and al: "alive l' = alive l - {p. sn_child (sc_nodes st ! i) = Some p}" by simp_all
  from assms(2) children_update [OF i] st' al have "no_orphans st' l'"
    unfolding tidy_def no_orphans_def by blast
  moreover have "workdirs st' = workdirs st" using st' i by (simp add: workdirs_update)
  ultimately show ?thesis using down_node_kept [OF assms(1)] assms(2) by (simp add: tidy_def)
qed

lemma up_node_tidy:
  assumes "fresh_pids os" and "scylla_up_node os cfg st l = Returned st' l'" and "tidy st l"
    and "polite (Scylla_Up_Node cfg) st"
  shows "tidy st' l'"
proof (cases "position (\<lambda>n. sn_db_ip n = nc_db_ip cfg) (sc_nodes st)")
  case None
  with up_node_law [OF assms(1,2)] assms(3) show ?thesis by simp
next
  case (Some i)
  have i: "i < length (sc_nodes st)" using position_Some [OF Some] by simp
  from up_node_law [OF assms(1,2)] Some obtain n' p where
    st': "st' = st\<lparr>sc_nodes := (sc_nodes st)[i := n']\<rparr>" and n': "sn_child n' = Some p"
    and res: "resumed_as st (show_ipv4 (sn_db_ip (hd (sc_nodes st)))) i cfg (sc_nodes st ! i) n' l'"
    and al: "alive l' = insert p (alive l)" by auto
  have "sn_child (sc_nodes st ! i) = None" using assms(4) Some by simp
  with assms(3) children_update [OF i, of n'] st' n' al have "no_orphans st' l'"
    unfolding tidy_def no_orphans_def by auto
  moreover have "workdirs st' = workdirs st"
    using st' i resumed_as_workdir [OF res] by (simp add: workdirs_update)
  ultimately show ?thesis using up_node_kept [OF assms(2)] assms(3) by (simp add: tidy_def)
qed

lemma up_tidy:
  assumes "fresh_pids os" and "scylla_up os cfgs st l = Returned st' l'" and "tidy st l"
    and "polite (Scylla_Up cfgs) st"
  shows "tidy st' l'"
proof -
  from up_law [OF assms(1,2)] obtain ns' where st': "st' = st\<lparr>sc_nodes := ns'\<rparr>" "length ns' = length (sc_nodes st)"
    and res: "\<forall>i < length (sc_nodes st). resumed_as st (show_ipv4 (sn_db_ip (hd (sc_nodes st)))) i (cfgs ! i)
      (sc_nodes st ! i) (ns' ! i) l'"
    and al: "alive l' = alive l \<union> children st'" by blast
  have "children st = {}" using assms(4) by (auto simp: children_def list_all_iff)
  with assms(3) al have "no_orphans st' l'" by (auto simp: tidy_def no_orphans_def)
  moreover have "workdirs st' = workdirs st"
    using st' res resumed_as_workdir by (intro workdirs_cong) fastforce+
  ultimately show ?thesis using up_kept [OF assms(2)] assms(3) by (simp add: tidy_def)
qed

lemma down_tidy:
  assumes "scylla_down os st l = Returned st' l'" and "tidy st l"
  shows "tidy st' l'"
proof -
  from down_law [OF assms(1)] have st': "st' = st\<lparr>sc_nodes := map (\<lambda>n. n\<lparr>sn_child := None\<rparr>) (sc_nodes st)\<rparr>"
    and al: "alive l' = alive l - children st" by simp_all
  have "workdirs st' = workdirs st" unfolding st' by (auto simp: workdirs_def)
  with al down_kept [OF assms(1)] assms(2) show ?thesis by (auto simp: tidy_def no_orphans_def)
qed

lemma stop_clean:
  assumes "scylla_stop os st l = Returned st' l'" and "tidy st l"
  shows "alive l' = {} \<and> kept_dirs l' = {} \<and> sc_nodes st' = []"
  using stop_law [OF assms(1)] stop_kept [OF assms(1)] assms(2) by (auto simp: tidy_def no_orphans_def)

end
