(* ===== verification/Sample_System.thy ===== *)
theory Sample_System
  imports Cluster_Actors
begin

text \<open>
  A concrete operating system in which every call succeeds, on which the properties of the clusters
  are applied: processes get the first identifier above those of the log, temporary directories are
  numbered, every node is up from the start.
\<close>

definition log_pid :: "effect \<times> response \<Rightarrow> nat" where
  "log_pid x = (case fst x of
      Spawn _ \<Rightarrow> (case snd x of Process_Id p \<Rightarrow> p | _ \<Rightarrow> 0)
    | Await_Exit p \<Rightarrow> p
    | _ \<Rightarrow> 0)"

definition next_pid :: "effect_log \<Rightarrow> nat" where
  "next_pid l = Suc (foldr max (map log_pid l) 0)"

lemma log_pid_less: "x \<in> set l \<Longrightarrow> log_pid x < next_pid l"
  by (induction l) (auto simp: next_pid_def less_max_iff_disj)

definition calm_os :: "effect_log \<Rightarrow> effect \<Rightarrow> response" where
  "calm_os l e = (case e of
      Metadata p \<Rightarrow> File_Metadata True 493
    | Temp_Dir_In d \<Rightarrow> Dir_Path (d @ ''/t'' @ show_nat (length l))
    | Temp_Dir \<Rightarrow> Dir_Path (''/tmp/t'' @ show_nat (length l))
    | Temp_File \<Rightarrow> Dir_Path (''/tmp/f'' @ show_nat (length l))
    | List_Users \<Rightarrow> Users_Found [(''root'', 0, 0), (''scylla'', 113, 120)]
    | Spawn c \<Rightarrow> Process_Id (next_pid l)
    | Run_Output c \<Rightarrow> Exited True (''UN 127.0.0.1'' @ [CHR 0x0A])
    | Http_Get u \<Rightarrow> Body ''SERVING''
    | _ \<Rightarrow> Success)"

lemma calm_os_fresh: "fresh_pids calm_os"
proof -
  have "(Spawn c, Process_Id (next_pid l)) \<notin> set l" "(Await_Exit (next_pid l), Success) \<notin> set l" for l c
    using log_pid_less [of _ l] by (fastforce simp: log_pid_def)+
  then show ?thesis by (auto simp: fresh_pids_def exited_def calm_os_def)
qed

text \<open>Whether an operation came to its end.\<close>

fun ended :: "'a outcome \<Rightarrow> bool" where
  "ended (Returned x l) = True"
| "ended _ = False"

lemma ended_Returned: "ended r \<Longrightarrow> \<exists>x l. r = Returned x l"
  by (cases r) auto

definition localhost :: "8 word \<Rightarrow> ipv4" where
  "localhost d = Ipv4 127 0 0 d"

end
