(* ===== verification/Scylla_Properties.thy ===== *)
theory Scylla_Properties
  imports Scylla_Runs Sample_System
begin

text \<open>
  The properties of the ScyllaDB cluster fixture, over the laws of its operations and the contract
  of its actor, each applied to a cluster on a system where every call succeeds.
\<close>

definition sample_scylla :: scylla where
  "sample_scylla = \<lparr>sc_path = ''/usr/bin/scylla'', sc_default_conf = ''/etc/scylla.yaml'', sc_tempdir = ''/tmp'',
     sc_nodes = [], sc_version = ''2026.1'', sc_verbose = False\<rparr>"

definition sample_node :: "8 word \<Rightarrow> scylla_node_config" where
  "sample_node d = \<lparr>nc_db_ip = localhost d, nc_primary_vs_uris = [''http://127.0.0.9:6080''],
     nc_secondary_vs_uris = [], nc_args = [''--smp=1''], nc_cert_path = None, nc_key_path = None,
     nc_extra_config = None\<rparr>"

definition sample_messages :: "scylla_msg list" where
  "sample_messages = [Scylla_Start [sample_node 1, sample_node 1], Scylla_Wait_For_Ready 0, Scylla_Down 1,
     Scylla_Up [sample_node 1, sample_node 1], Scylla_Version 2]"

lemma sample_served: "\<exists>st rs l. served (scylla_handle calm_os 5) sample_messages sample_scylla [] = Returned (st, rs) l"
proof -
  have "ended (served (scylla_handle calm_os 5) sample_messages sample_scylla [])" by code_simp
  from ended_Returned [OF this] show ?thesis by auto
qed

section \<open>The actor\<close>

lemma start_up_version:
  "scylla_start os cfgs st l = Returned st' l' \<Longrightarrow> sc_version st' = sc_version st"
  "scylla_up os cfgs st l = Returned st' l' \<Longrightarrow> sc_version st' = sc_version st"
proof -
  have loop: "sc_version s' = sc_version s"
    if "io_for f xs s l = Returned s' l'"
      and "\<And>y s l s' l'. f y s l = Returned s' l' \<Longrightarrow> sc_version s' = sc_version s"
    for f :: "'c \<Rightarrow> scylla \<Rightarrow> scylla io" and xs s l s' l'
    by (rule io_for_invariant [OF that(1), where P = "\<lambda>_ s' _. sc_version s' = sc_version s"]) (simp_all add: that(2))
  have start_one: "scylla_start_one os seeds icfg s l = Returned s' l' \<Longrightarrow> sc_version s' = sc_version s"
    for seeds icfg s l s' l'
    by (auto simp: scylla_start_one_def io_bind_iff io_return_iff split: prod.splits)
  show "sc_version st' = sc_version st" if start: "scylla_start os cfgs st l = Returned st' l'"
  proof (cases "cfgs = []")
    case True
    with start show ?thesis by (simp add: scylla_start_def io_return_iff)
  next
    case False
    then have "scylla_start os cfgs st =
        io_for (scylla_start_one os (show_ipv4 (nc_db_ip (hd cfgs)))) (enumerate 0 cfgs) st"
      unfolding scylla_start_def by (simp add: neq_Nil_conv del: io_for.simps enumerate_simps) fastforce
    from loop [OF start [unfolded this] start_one] show ?thesis .
  qed
  have up_one: "(case y of (i, path) \<Rightarrow> \<lambda>st. io_bind (io_assert (i < length cfgs)) (\<lambda>_.
      io_bind (scylla_run_node os (cfgs ! i) seeds path (rack_name i) st) (\<lambda>child.
      io_return (set_child i child st)))) s l = Returned s' l' \<Longrightarrow> sc_version s' = sc_version s" for y seeds s l s' l'
    by (auto simp: io_bind_iff io_return_iff set_child_def split: prod.splits)
  show "sc_version st' = sc_version st" if up: "scylla_up os cfgs st l = Returned st' l'"
  proof (cases "sc_nodes st = []")
    case True
    with up show ?thesis by (simp add: scylla_up_def io_return_iff)
  next
    case False
    then obtain n ns where ns: "sc_nodes st = n # ns" by (auto simp: neq_Nil_conv)
    with up have "io_for (\<lambda>(i, path) st. io_bind (io_assert (i < length cfgs)) (\<lambda>_.
        io_bind (scylla_run_node os (cfgs ! i) (show_ipv4 (sn_db_ip n)) path (rack_name i) st) (\<lambda>child.
        io_return (set_child i child st)))) (enumerate 0 (map (\<lambda>n. the (sn_workdir n)) (sc_nodes st))) st l =
        Returned st' l'"
      unfolding scylla_up_def by (simp only: ns list.case io_panic_def outcome.distinct split: if_splits)
    from loop [OF this up_one] show ?thesis .
  qed
qed

lemma handle_version:
  "scylla_handle os fuel m st l = Returned (st', r) l' \<Longrightarrow> sc_version st' = sc_version st"
  by (cases m) (auto simp: then_unit_def io_bind_iff io_return_iff scylla_stop_def scylla_down_def io_panic_def
      scylla_down_node_def scylla_up_node_def set_child_def start_up_version split: list.splits option.splits)

fun expected_answer :: "scylla_msg \<Rightarrow> scylla \<Rightarrow> reply" where
  "expected_answer (Scylla_Version tx) st = Reply_Text (sc_version st)"
| "expected_answer (Scylla_Wait_For_Ready tx) st = Reply_Bool (sc_nodes st \<noteq> [])"
| "expected_answer _ st = Reply_Unit"

lemma handle_answer: "scylla_handle os fuel m st l = Returned (st', r) l' \<Longrightarrow> r = expected_answer m st"
  by (cases m) (auto simp: then_unit_def io_bind_iff io_return_iff dest: wait_for_ready_law)

text \<open>
  C20.  A client that waits is answered: when every handler of a sequence of requests comes to its
  end, the actor handles all of them and answers each that awaits one.  \<open>version\<close> gets the version of
  the executable, however nodes came and went, \<open>wait_for_ready\<close> whether the cluster has nodes in its
  turn, and the others their confirmation.  Requests carry channels of their own.
\<close>

theorem scylla_requests_answered:
  assumes "served (scylla_handle os fuel) ms st l = Returned (st', rs) l'"
    and "distinct (List.map_filter scylla_reply_to ms)"
    and "\<forall>i \<in> set (List.map_filter scylla_reply_to ms). ch i = Awaited"
  shows "\<exists>ch'. drain (scylla_process os fuel) ms (st, l) ch = Some ((st', l'), ch') \<and> prefix l l' \<and>
    (\<forall>xs m ys i. ms = xs @ m # ys \<and> scylla_reply_to m = Some i \<longrightarrow>
      (\<exists>st1 rs1 l1. served (scylla_handle os fuel) xs st l = Returned (st1, rs1) l1 \<and>
         sc_version st1 = sc_version st \<and> oneshot_expect i ch' = Some (expected_answer m st1)))"
proof -
  from scylla.served_answers [OF assms] obtain ch' where
    d: "drain (scylla_process os fuel) ms (st, l) ch = Some ((st', l'), ch')" "prefix l l'" and
    ans: "\<forall>k < length ms. \<forall>i. scylla_reply_to (ms ! k) = Some i \<longrightarrow> oneshot_expect i ch' = Some (rs ! k)"
    by (auto simp: scylla_process_eq)
  have "\<exists>st1 rs1 l1. served (scylla_handle os fuel) xs st l = Returned (st1, rs1) l1 \<and>
      sc_version st1 = sc_version st \<and> oneshot_expect i ch' = Some (expected_answer m st1)"
    if ms: "ms = xs @ m # ys" and i: "scylla_reply_to m = Some i" for xs m ys i
  proof -
    from served_split [OF assms(1) [unfolded ms]] obtain st1 rs1 l1 st2 r l2 where
      xs: "served (scylla_handle os fuel) xs st l = Returned (st1, rs1) l1" and
      m: "scylla_handle os fuel m st1 l1 = Returned (st2, r) l2" and r: "rs ! length xs = r" by blast
    from ans ms i have "oneshot_expect i ch' = Some (rs ! length xs)" by auto
    with r handle_answer [OF m] xs served_preserves [where P = "\<lambda>s. sc_version s = sc_version st", OF _ xs]
      handle_version show ?thesis by metis
  qed
  with d show ?thesis by blast
qed

theorem scylla_requests_answered_witness:
  "\<exists>st l ch. drain (scylla_process calm_os 5) sample_messages (sample_scylla, []) (\<lambda>_. Awaited) = Some ((st, l), ch) \<and>
     oneshot_expect 2 ch = Some (Reply_Text ''2026.1'')"
proof -
  obtain st rs l where sv: "served (scylla_handle calm_os 5) sample_messages sample_scylla [] = Returned (st, rs) l"
    using sample_served by blast
  have "distinct (List.map_filter scylla_reply_to sample_messages)" by code_simp
  from scylla_requests_answered [OF sv this, of "\<lambda>_. Awaited"] obtain ch where
    d: "drain (scylla_process calm_os 5) sample_messages (sample_scylla, []) (\<lambda>_. Awaited) = Some ((st, l), ch)" and
    ans: "\<forall>xs m ys i. sample_messages = xs @ m # ys \<and> scylla_reply_to m = Some i \<longrightarrow>
      (\<exists>st1 rs1 l1. served (scylla_handle calm_os 5) xs sample_scylla [] = Returned (st1, rs1) l1 \<and>
         sc_version st1 = sc_version sample_scylla \<and> oneshot_expect i ch = Some (expected_answer m st1))" by auto
  have "sample_messages = take 4 sample_messages @ Scylla_Version 2 # []" by (simp add: sample_messages_def)
  with ans have "oneshot_expect 2 ch = Some (Reply_Text (sc_version sample_scylla))" by fastforce
  with d show ?thesis by (auto simp: sample_scylla_def)
qed

text \<open>Messages are handled in the order they were sent, none twice, none lost while the task lives.\<close>

lemma scylla_messages_in_order:
  assumes "actor_reachable (scylla_process os fuel) s0 x"
  shows "prefix (handled x) (sent x) \<and> length (mailbox x) \<le> MAILBOX \<and>
    (\<forall>s. task_state x = Some s \<longrightarrow> sent x = handled x @ mailbox x)"
  using scylla.reachable_in_order [of os fuel s0 x] assms
  by (simp add: scylla_process_eq prefix_def)

lemma sample_reachable:
  fixes process :: "('m, 's, 'r) process"
  shows "actor_reachable process s ((actor_init s)\<lparr>mailbox := [m], sent := [m]\<rparr>)"
proof -
  let ?x = "actor_init s :: ('m, 's, 'r) system"
  have "actor_step process ?x (?x\<lparr>mailbox := mailbox ?x @ [m], sent := sent ?x @ [m]\<rparr>)"
    by (rule actor_step.send [of _ s]) (simp_all add: actor_init_def MAILBOX_def)
  from actor_reachable.step [OF actor_reachable.init this] show ?thesis by (simp add: actor_init_def)
qed

text \<open>
  Linearizability, for a runtime whose channels are those of \<open>actor_step\<close>: in every state that clients can bring it to by sending and giving
  up requests, the messages handled so far are the first of those sent, in their order; handling
  them one after the other gives the state of the cluster and all its effects, every one of these
  requests has been answered with what its handler returned in its turn, and no other channel holds
  an answer.  While the task lives no message is lost, and at most ten wait.
\<close>

lemma scylla_linearizable:
  assumes "actor_reachable (scylla_process os fuel) (st0, l0) x"
    and "distinct (List.map_filter scylla_reply_to (sent x))"
  shows "\<exists>st rs l. served (scylla_handle os fuel) (handled x) st0 l0 = Returned (st, rs) l \<and>
    prefix (handled x) (sent x) \<and> length (mailbox x) \<le> MAILBOX \<and>
    (\<forall>s. task_state x = Some s \<longrightarrow> s = (st, l) \<and> sent x = handled x @ mailbox x) \<and>
    (\<forall>k < length (handled x). \<forall>i. scylla_reply_to (handled x ! k) = Some i \<longrightarrow>
       oneshot_expect i (channels x) = Some (rs ! k)) \<and>
    (\<forall>i r. oneshot_expect i (channels x) = Some r \<longrightarrow>
       (\<exists>k < length (handled x). scylla_reply_to (handled x ! k) = Some i \<and> r = rs ! k))"
proof -
  have "\<exists>st rs l. served (scylla_handle os fuel) (handled x) st0 l0 = Returned (st, rs) l \<and>
      (\<forall>s. task_state x = Some s \<longrightarrow> s = (st, l)) \<and>
      (\<forall>k < length (handled x). \<forall>i. scylla_reply_to (handled x ! k) = Some i \<longrightarrow>
         oneshot_expect i (channels x) = Some (rs ! k)) \<and>
      (\<forall>i r. oneshot_expect i (channels x) = Some r \<longrightarrow>
         (\<exists>k < length (handled x). scylla_reply_to (handled x ! k) = Some i \<and> r = rs ! k))"
    using scylla.linearizable assms by (simp add: scylla_process_eq)
  with scylla_messages_in_order [OF assms(1)] show ?thesis by auto
qed

text \<open>A request that its client gave up ends the actor when its turn comes.\<close>

lemma scylla_cancelled_request_ends_actor:
  assumes "task_state x = Some s" and "mailbox x = m # ms" and "ms \<noteq> []"
    and "scylla_reply_to m = Some i" and "channels x i = Receiver_Gone"
    and "j \<noteq> i" and "channels x j = Awaited"
    and "actor_step (scylla_process os fuel) x y" and "mailbox y = ms \<or> task_state y = None"
  shows "task_state y = None \<and> oneshot_expect j (channels y) = None"
  using scylla.cancelled_request_crashes [of x s m ms i j os fuel y] assms
  by (simp add: scylla_process_eq)

section \<open>Starting, pausing and resuming\<close>

lemma sample_start: "\<exists>st l. scylla_start calm_os [sample_node 1, sample_node 2] sample_scylla [] = Returned st l"
  by (rule ended_Returned) code_simp

text \<open>
  C22.  \<open>start\<close> adds one node for each configuration, in order: a process with the command line of
  the configuration was spawned with the directory of the node, seeded with the address of the first,
  and the properties file of node \<open>i\<close> names rack \<open>i + 1\<close>.  If every process belonged to a node before,
  it does so afterwards.
\<close>

theorem scylla_start_runs_every_node:
  assumes "fresh_pids os" and "scylla_start os cfgs st l = Returned st' l'" and "no_orphans st l"
  shows "no_orphans st' l' \<and> (\<exists>news. st' = st\<lparr>sc_nodes := sc_nodes st @ news\<rparr> \<and> length news = length cfgs \<and>
    (\<forall>i < length cfgs. started_as st (show_ipv4 (nc_db_ip (hd cfgs))) i (cfgs ! i) (news ! i) l'))"
  by (rule start_law [OF assms])

theorem scylla_start_runs_every_node_witness:
  "\<exists>st l. scylla_start calm_os [sample_node 1, sample_node 2] sample_scylla [] = Returned st l \<and>
     length (sc_nodes st) = 2 \<and> started_as sample_scylla ''127.0.0.1'' 1 (sample_node 2) (sc_nodes st ! 1) l"
proof -
  obtain st l where run: "scylla_start calm_os [sample_node 1, sample_node 2] sample_scylla [] = Returned st l"
    using sample_start by blast
  have "no_orphans sample_scylla []" by (simp add: no_orphans_def alive_def)
  from scylla_start_runs_every_node [OF calm_os_fresh run this] obtain news where
    "st = sample_scylla\<lparr>sc_nodes := sc_nodes sample_scylla @ news\<rparr>" "length news = 2"
    "started_as sample_scylla (show_ipv4 (nc_db_ip (sample_node 1))) 1 (sample_node 2) (news ! 1) l" by force
  moreover have "show_ipv4 (nc_db_ip (sample_node 1)) = ''127.0.0.1''" by code_simp
  moreover have "sc_nodes sample_scylla = []" by (simp add: sample_scylla_def)
  ultimately show ?thesis using run by simp
qed



lemma seen_ready_same [simp]: "seen_ready (st\<lparr>sc_nodes := ns\<rparr>) = seen_ready st"
  by (simp add: seen_ready_def nodetool_def fun_eq_iff)

lemma restart_steps:
  assumes "ext_restart os fuel cfg (st, l) = Some (st', l')"
  shows "\<exists>st1 l1 l2. scylla_down_node os (nc_db_ip cfg) st l = Returned st1 l1 \<and>
    scylla_up_node os cfg st1 l1 = Returned st' l2 \<and> scylla_wait_for_ready os fuel st' l2 = Returned True l'"
proof -
  from assms obtain st1 l1 r1 st2 l2 r3 where
    d: "ask (scylla_process os fuel) (Scylla_Down_Node (nc_db_ip cfg)) (st, l) = Some (r1, st1, l1)" "r1 = Reply_Unit" and
    u: "tell (scylla_process os fuel) (Scylla_Up_Node cfg) (st1, l1) = Some (st2, l2)" and
    w: "ask (scylla_process os fuel) Scylla_Wait_For_Ready (st2, l2) = Some (r3, st', l')" "r3 = Reply_Bool True"
    unfolding ext_restart_def ext_down_node_def ext_up_node_def ext_wait_for_ready_def
    by (auto elim!: as_unit.elims as_bool.elims split: if_splits)
  from d u w show ?thesis
    by (auto simp: scylla_process_eq ask_io tell_io then_unit_def io_bind_iff io_return_iff)
qed

text \<open>
  C24.  \<open>restart\<close> replaces one node: the old process is gone, a new one runs in its directory, the
  other nodes are untouched, and every node of the cluster has been seen up with an open port.
\<close>

theorem scylla_restart_replaces_node:
  assumes "fresh_pids os" and "position (\<lambda>n. sn_db_ip n = nc_db_ip cfg) (sc_nodes st) = Some k"
    and "ext_restart os fuel cfg (st, l) = Some (st', l')"
  shows "\<exists>p. st' = st\<lparr>sc_nodes := (sc_nodes st)[k := (sc_nodes st ! k)\<lparr>sn_child := Some p\<rparr>]\<rparr> \<and>
    alive l' = insert p (alive l - {q. sn_child (sc_nodes st ! k) = Some q}) \<and>
    (\<forall>n \<in> set (sc_nodes st'). seen_ready st (sn_db_ip n) l')"
proof -
  from restart_steps [OF assms(3)] obtain st1 l1 l2 where
    d: "scylla_down_node os (nc_db_ip cfg) st l = Returned st1 l1" and
    u: "scylla_up_node os cfg st1 l1 = Returned st' l2" and
    w: "scylla_wait_for_ready os fuel st' l2 = Returned True l'" by blast
  let ?ns = "sc_nodes st" and ?paused = "(sc_nodes st ! k)\<lparr>sn_child := None\<rparr>"
  note k = position_Some [OF assms(2)]
  from down_node_law [OF d] assms(2) have st1: "st1 = st\<lparr>sc_nodes := ?ns[k := ?paused]\<rparr>"
    and l1: "alive l1 = alive l - {q. sn_child (?ns ! k) = Some q}" by simp_all
  have "position (\<lambda>n. sn_db_ip n = nc_db_ip cfg) (?ns[k := ?paused]) = Some k"
  proof -
    have "map sn_db_ip (?ns[k := ?paused]) = map sn_db_ip ?ns"
      using k by (simp add: map_update list_update_same_conv)
    from position_map_cong [OF this, of "\<lambda>ip. ip = nc_db_ip cfg"] assms(2) show ?thesis by simp
  qed
  with up_node_law [OF assms(1) u] st1 have "\<exists>n' p. st' = st1\<lparr>sc_nodes := (?ns[k := ?paused])[k := n']\<rparr> \<and>
      sn_child n' = Some p \<and>
      resumed_as st1 (show_ipv4 (sn_db_ip (hd (?ns[k := ?paused])))) k cfg ((?ns[k := ?paused]) ! k) n' l2 \<and>
      alive l2 = insert p (alive l1)" by auto
  then obtain n' p where
    st': "st' = st1\<lparr>sc_nodes := (?ns[k := ?paused])[k := n']\<rparr>" and
    n': "resumed_as st1 (show_ipv4 (sn_db_ip (hd (?ns[k := ?paused])))) k cfg ?paused n' l2" "sn_child n' = Some p" and
    l2: "alive l2 = insert p (alive l1)" using k by (metis nth_list_update_eq)
  have "n' = (?ns ! k)\<lparr>sn_child := Some p\<rparr>" using n' by (auto simp: resumed_as_def)
  with st' st1 l1 l2 wait_for_ready_law [OF w] show ?thesis by (intro exI [of _ p]) auto
qed

lemma sample_restart:
  "\<exists>st l st' l'. scylla_start calm_os [sample_node 1, sample_node 1] sample_scylla [] = Returned st l \<and>
     ext_restart calm_os 5 (sample_node 1) (st, l) = Some (st', l')"
proof -
  have "case scylla_start calm_os [sample_node 1, sample_node 1] sample_scylla [] of
    Returned st l \<Rightarrow> \<not> Option.is_none (ext_restart calm_os 5 (sample_node 1) (st, l)) | _ \<Rightarrow> False"
    by code_simp
  then show ?thesis by (auto simp: Option.is_none_def split: outcome.splits)
qed

theorem scylla_restart_replaces_node_witness:
  "\<exists>st l st' l'. scylla_start calm_os [sample_node 1, sample_node 1] sample_scylla [] = Returned st l \<and>
     ext_restart calm_os 5 (sample_node 1) (st, l) = Some (st', l') \<and>
     (\<forall>n \<in> set (sc_nodes st'). seen_ready st (sn_db_ip n) l')"
proof -
  obtain st l st' l' where s: "scylla_start calm_os [sample_node 1, sample_node 1] sample_scylla [] = Returned st l"
    and r: "ext_restart calm_os 5 (sample_node 1) (st, l) = Some (st', l')"
    using sample_restart by blast
  have "no_orphans sample_scylla []" by (simp add: no_orphans_def alive_def)
  from start_law [OF calm_os_fresh s this] obtain news where
    n: "st = sample_scylla\<lparr>sc_nodes := sc_nodes sample_scylla @ news\<rparr>" "length news = 2"
      "\<forall>i < 2. started_as sample_scylla (show_ipv4 (nc_db_ip (sample_node 1))) i ([sample_node 1, sample_node 1] ! i) (news ! i) l"
    by (auto simp: numeral_2_eq_2)
  from n(3) have "sn_db_ip (news ! 0) = nc_db_ip (sample_node 1)" by (auto simp: started_as_def)
  with n(1,2) have "position (\<lambda>n. sn_db_ip n = nc_db_ip (sample_node 1)) (sc_nodes st) = Some 0"
    by (cases news) (auto simp: sample_scylla_def)
  from scylla_restart_replaces_node [OF calm_os_fresh this r] s r show ?thesis by blast
qed

section \<open>The end of the actor\<close>

lemma handle_tidy:
  assumes "fresh_pids os" and "polite m st" and "tidy st l" and "scylla_handle os fuel m st l = Returned (st', r) l'"
  shows "tidy st' l'"
proof (cases m)
  case (Scylla_Version tx)
  with assms(3,4) show ?thesis by (simp add: io_return_iff)
next
  case (Scylla_Start cfgs)
  with assms(4) have s: "scylla_start os cfgs st l = Returned st' l'"
    by (auto simp: then_unit_def io_bind_iff io_return_iff)
  from start_law [OF assms(1) s] start_kept [OF s] assms(3) show ?thesis by (simp add: tidy_def)
next
  case (Scylla_Wait_For_Ready tx)
  with assms(4) obtain b where w: "scylla_wait_for_ready os fuel st l = Returned b l'" "st' = st"
    by (auto simp: io_bind_iff io_return_iff)
  have "kept_dirs l' = kept_dirs l" by (rule wait_for_ready_kept [OF w(1)])
  with wait_for_ready_law [OF w(1)] w(2) assms(3) show ?thesis by (simp add: tidy_def no_orphans_def)
next
  case (Scylla_Stop tx)
  with assms(4) have s: "scylla_stop os st l = Returned st' l'"
    by (auto simp: then_unit_def io_bind_iff io_return_iff)
  from stop_clean [OF s assms(3)] show ?thesis by (simp add: tidy_def no_orphans_def)
next
  case (Scylla_Up cfgs)
  with assms(4) have "scylla_up os cfgs st l = Returned st' l'"
    by (auto simp: then_unit_def io_bind_iff io_return_iff)
  from up_tidy [OF assms(1) this assms(3)] assms(2) Scylla_Up show ?thesis by simp
next
  case (Scylla_Up_Node cfg)
  with assms(4) have "scylla_up_node os cfg st l = Returned st' l'"
    by (auto simp: then_unit_def io_bind_iff io_return_iff)
  from up_node_tidy [OF assms(1) this assms(3)] assms(2) Scylla_Up_Node show ?thesis by simp
next
  case (Scylla_Down tx)
  with assms(4) have "scylla_down os st l = Returned st' l'"
    by (auto simp: then_unit_def io_bind_iff io_return_iff)
  from down_tidy [OF this assms(3)] show ?thesis .
next
  case (Scylla_Down_Node ip tx)
  with assms(4) have "scylla_down_node os ip st l = Returned st' l'"
    by (auto simp: then_unit_def io_bind_iff io_return_iff)
  from down_node_tidy [OF this assms(3)] show ?thesis .
next
  case (Scylla_Flush tx)
  with assms(4) obtain u where f: "scylla_flush os st l = Returned u l'" and st: "st' = st"
    by (auto simp: io_bind_iff io_return_iff)
  from flush_law [OF f] st assms(3) show ?thesis by (simp add: tidy_def no_orphans_def)
qed

lemma drop_state_law:
  "\<exists>l'. drop_state os st l = Returned () l' \<and> alive l' = alive l \<and> kept_dirs l' = kept_dirs l - workdirs st"
proof -
  let ?f = "\<lambda>node u. io_bind (drop_workdir os node) (\<lambda>_. io_return ())"
  have "\<exists>l'. io_for ?f ns () l = Returned () l' \<and> alive l' = alive l \<and>
      kept_dirs l' = kept_dirs l - {p. \<exists>n \<in> set ns. sn_workdir n = Some p}" for ns
  proof (induction ns arbitrary: l)
    case (Cons n ns)
    obtain n' m where d: "drop_workdir os n l = Returned n' m"
      by (cases "sn_workdir n") (auto simp: drop_workdir_def io_return_def io_bind_def perform_def)
    from Cons.IH [of m] obtain l' where "io_for ?f ns () m = Returned () l'" "alive l' = alive m"
      "kept_dirs l' = kept_dirs m - {p. \<exists>n \<in> set ns. sn_workdir n = Some p}" by blast
    then have "io_for ?f (n # ns) () l = Returned () l'"
      using d by (auto simp: io_bind_iff io_return_iff)
    then show ?case
      using \<open>alive l' = alive m\<close> \<open>kept_dirs l' = _\<close> drop_workdir_law [OF d] drop_workdir_kept [OF d]
      by (intro exI [of _ l']) auto
  qed (simp add: io_return_def)
  then show ?thesis by (simp add: drop_state_def workdirs_def)
qed

text \<open>
  C21.  A request that its client gave up while it waited, with others behind it in the mailbox, ends
  the actor when its turn comes: \<open>tx.send(..).expect(..)\<close> panics, and all other clients that wait panic
  with it.  What the panic drops is the state: the removal of every directory of a node is tried, so
  that only those remain that the system refused to remove, and every process goes on running with no
  one left who could end it.  The message is polite: it resumes no node that was not paused.
\<close>

theorem scylla_cancelled_request_leaks:
  assumes "fresh_pids os" and "task_state x = Some (st, l)" and "tidy st l"
    and "mailbox x = m # ms" and "ms \<noteq> []" and "scylla_reply_to m = Some i" and "channels x i = Receiver_Gone"
    and "polite m st" and "scylla_handle os fuel m st l = Returned (st', r) l'"
    and "j \<noteq> i" and "channels x j = Awaited"
    and "actor_step (scylla_process os fuel) x y" and "mailbox y = ms \<or> task_state y = None"
  shows "task_state y = None \<and> oneshot_expect j (channels y) = None \<and>
    (\<exists>l''. drop_state os st' l' = Returned () l'' \<and> alive l'' = alive l' \<and> kept_dirs l'' = {} \<and>
       left_dirs l'' \<subseteq> refused_dirs l'')"
proof -
  have "task_state y = None \<and> oneshot_expect j (channels y) = None"
    using scylla_cancelled_request_ends_actor [OF assms(2,4-7,10-13)] .
  moreover have "kept_dirs l' \<subseteq> workdirs st'"
    using handle_tidy [OF assms(1,8,3,9)] by (simp add: tidy_def)
  ultimately show ?thesis using drop_state_law [of os st' l'] left_dirs_none by fastforce
qed

lemma sample_alive:
  obtains st l where "scylla_start calm_os [sample_node 1, sample_node 2] sample_scylla [] = Returned st l"
    and "tidy st l" and "alive l \<noteq> {}"
proof -
  have "case scylla_start calm_os [sample_node 1, sample_node 2] sample_scylla [] of
    Returned st l \<Rightarrow> list_ex (\<lambda>(e, r). (case r of Process_Id p \<Rightarrow> (case e of Spawn c \<Rightarrow> True | _ \<Rightarrow> False) | _ \<Rightarrow> False)) l \<and>
      list_all (\<lambda>(e, r). case e of Await_Exit p \<Rightarrow> False | _ \<Rightarrow> True) l | _ \<Rightarrow> False" by code_simp
  then obtain st l where run: "scylla_start calm_os [sample_node 1, sample_node 2] sample_scylla [] = Returned st l"
    and ex: "list_ex (\<lambda>(e, r). (case r of Process_Id p \<Rightarrow> (case e of Spawn c \<Rightarrow> True | _ \<Rightarrow> False) | _ \<Rightarrow> False)) l"
    and all: "list_all (\<lambda>(e, r). case e of Await_Exit p \<Rightarrow> False | _ \<Rightarrow> True) l"
    by (auto split: outcome.splits)
  from ex obtain c p where "(Spawn c, Process_Id p) \<in> set l"
    by (auto simp: list_ex_iff split: response.splits effect.splits)
  moreover have "exited l = {}" using all by (force simp: exited_def list_all_iff)
  ultimately have "alive l \<noteq> {}" by (auto simp: alive_def)
  moreover have "tidy st l"
    using start_law [OF calm_os_fresh run] start_kept [OF run]
    by (simp add: tidy_def no_orphans_def alive_def kept_dirs_def)
  ultimately show ?thesis using run that by blast
qed

theorem scylla_cancelled_request_leaks_witness:
  "\<exists>st l y l''. actor_step (scylla_process calm_os 5) \<lparr>task_state = Some (st, l),
       mailbox = [Scylla_Version 0, Scylla_Version 1], channels = (\<lambda>_. Awaited)(0 := Receiver_Gone),
       sent = [], handled = []\<rparr> y \<and> task_state y = None \<and> oneshot_expect 1 (channels y) = None \<and>
     drop_state calm_os st l = Returned () l'' \<and> alive l'' \<noteq> {} \<and> kept_dirs l'' = {}"
proof -
  obtain st l where td: "tidy st l" and al: "alive l \<noteq> {}" by (rule sample_alive)
  let ?x = "\<lparr>task_state = Some (st, l), mailbox = [Scylla_Version 0, Scylla_Version 1],
    channels = (\<lambda>_. Awaited)(0 := Receiver_Gone), sent = [], handled = []\<rparr> ::
    (scylla_msg, scylla \<times> effect_log, reply) system"
  let ?y = "?x\<lparr>task_state := None, mailbox := [],
    channels := (\<lambda>i. if channels ?x i = Awaited then Sender_Gone else channels ?x i)\<rparr>"
  have h: "scylla_handle calm_os 5 (Scylla_Version 0) st l = Returned (st, Reply_Text (sc_version st)) l"
    by (simp add: io_return_def)
  have step: "actor_step (scylla_process calm_os 5) ?x ?y"
    by (rule actor_step.crash [of _ "(st, l)" "Scylla_Version 0" "[Scylla_Version 1]"])
      (simp_all add: scylla_process_eq io_process_def io_return_def)
  have "task_state ?y = None \<and> oneshot_expect 1 (channels ?y) = None \<and>
      (\<exists>l''. drop_state calm_os st l = Returned () l'' \<and> alive l'' = alive l \<and> kept_dirs l'' = {} \<and>
         left_dirs l'' \<subseteq> refused_dirs l'')"
    by (rule scylla_cancelled_request_leaks [OF calm_os_fresh _ td _ _ _ _ _ h _ _ step, of "[Scylla_Version 1]" 0])
      simp_all
  then obtain l'' where "drop_state calm_os st l = Returned () l''" "alive l'' = alive l" "kept_dirs l'' = {}"
    "task_state ?y = None" "oneshot_expect 1 (channels ?y) = None" by blast
  with step al show ?thesis by (intro exI [of _ st] exI [of _ l] exI [of _ ?y] exI [of _ l'']) simp
qed

text \<open>
  C25.  Nothing outlives the normal end of the actor: when all senders are dropped and no handler has
  panicked, no process that it started runs, and of the directories that it made exist only those
  that the system refused to remove, provided nodes were paused before they were resumed.
\<close>

theorem scylla_task_leaves_nothing:
  assumes "fresh_pids os" and "allowed_run (scylla_handle os fuel) polite ms st l" and "tidy st l"
    and "scylla_task os fuel ms (st, l) ch = Some (st', l')"
  shows "alive l' = {} \<and> kept_dirs l' = {} \<and> left_dirs l' \<subseteq> refused_dirs l' \<and> sc_nodes st' = []"
proof -
  from assms(4) obtain st1 l1 ch1 where
    d: "drain (scylla_process os fuel) ms (st, l) ch = Some ((st1, l1), ch1)" and
    s: "scylla_stop os st1 l1 = Returned st' l'"
    by (auto simp: scylla_task_def split: option.splits outcome.splits)
  note inv = scylla.drain_invariant [where I = tidy, OF handle_tidy [OF assms(1)] assms(2,3) d [unfolded scylla_process_eq]]
  have "tidy st1 l1" by (rule inv)
  from stop_clean [OF s this] left_dirs_none show ?thesis by blast
qed

theorem scylla_task_leaves_nothing_witness:
  "\<exists>st l. scylla_task calm_os 5 sample_messages (sample_scylla, []) (\<lambda>_. Awaited) = Some (st, l) \<and>
     l \<noteq> [] \<and> alive l = {} \<and> left_dirs l = {}"
proof -
  have "case scylla_task calm_os 5 sample_messages (sample_scylla, []) (\<lambda>_. Awaited) of
    Some (st, l) \<Rightarrow> l \<noteq> [] \<and> list_all (\<lambda>(e, r). r \<noteq> Failed) l | None \<Rightarrow> False" by code_simp
  then obtain st l where t: "scylla_task calm_os 5 sample_messages (sample_scylla, []) (\<lambda>_. Awaited) = Some (st, l)"
    and "l \<noteq> []" and "list_all (\<lambda>(e, r). r \<noteq> Failed) l" by (auto split: option.splits)
  moreover from this(3) have "refused_dirs l = {}" by (auto simp: refused_dirs_def list_all_iff)
  moreover have "allowed_run (scylla_handle calm_os 5) polite sample_messages sample_scylla []" by code_simp
  moreover have "tidy sample_scylla []" by (simp add: tidy_def no_orphans_def alive_def kept_dirs_def)
  ultimately show ?thesis using scylla_task_leaves_nothing [OF calm_os_fresh _ _ t] by blast
qed

text \<open>
  C26.  \<open>up\<close> on a cluster that was not paused leaks: every process that ran before runs on, and no node
  knows it any more, so that neither \<open>down\<close> nor \<open>stop\<close> can end it.
\<close>

theorem up_over_live_process_leaks:
  assumes "fresh_pids os" and "scylla_up os cfgs st l = Returned st' l'" and "p \<in> alive l"
  shows "p \<in> alive l' \<and> p \<notin> children st' \<and> \<not> no_orphans st' l' \<and>
    (\<forall>st2 l2. scylla_stop os st' l' = Returned st2 l2 \<longrightarrow> p \<in> alive l2) \<and>
    (\<forall>st2 l2. scylla_down os st' l' = Returned st2 l2 \<longrightarrow> p \<in> alive l2)"
proof -
  have p: "p \<in> alive l'" "p \<notin> children st'" using up_law [OF assms(1,2)] assms(3) by auto
  then show ?thesis using stop_law down_law by (fastforce simp: no_orphans_def)
qed

theorem up_over_live_process_leaks_witness:
  "\<exists>st l st' l' p. scylla_start calm_os [sample_node 1, sample_node 2] sample_scylla [] = Returned st l \<and>
     scylla_up calm_os [sample_node 1, sample_node 2] st l = Returned st' l' \<and> p \<in> alive l' \<and> p \<notin> children st'"
proof -
  obtain st l where st: "scylla_start calm_os [sample_node 1, sample_node 2] sample_scylla [] = Returned st l"
    and "alive l \<noteq> {}" by (rule sample_alive)
  then obtain p where p: "p \<in> alive l" by blast
  have "case scylla_start calm_os [sample_node 1, sample_node 2] sample_scylla [] of
    Returned st l \<Rightarrow> ended (scylla_up calm_os [sample_node 1, sample_node 2] st l) | _ \<Rightarrow> False" by code_simp
  then have "ended (scylla_up calm_os [sample_node 1, sample_node 2] st l)" by (simp add: st)
  then obtain st' l' where up: "scylla_up calm_os [sample_node 1, sample_node 2] st l = Returned st' l'"
    using ended_Returned by metis
  from up_over_live_process_leaks [OF calm_os_fresh up p] st up show ?thesis by blast
qed

section \<open>Waiting\<close>

text \<open>The status line of node 127.0.0.10 is taken for one of 127.0.0.1.\<close>

lemma status_of_another_node: "status_up (localhost 1) (''UN 127.0.0.10  1.2 MB'' @ NL)"
  by code_simp

text \<open>
  C27.  \<open>wait_for_ready\<close> of a cluster with nodes ends with \<open>true\<close> when every node comes up after at most \<open>k\<close> polls of each
  kind, and then each node has been reported up and has accepted a connection on its port.
\<close>

theorem scylla_wait_for_ready_ends:
  assumes "\<forall>n \<in> set (sc_nodes st). comes_up os st k (sn_db_ip n)" and "2 * k < fuel" and "sc_nodes st \<noteq> []"
  shows "\<exists>l'. scylla_wait_for_ready os fuel st l = Returned True l' \<and>
    (\<forall>n \<in> set (sc_nodes st). seen_ready st (sn_db_ip n) l')"
  using wait_for_ready_ends [OF assms] wait_for_ready_law by blast

text \<open>A system on which the node is up at the third question and its port open at the second attempt.\<close>

definition slow_os :: "effect_log \<Rightarrow> effect \<Rightarrow> response" where
  "slow_os l e = (case e of
      Run_Output c \<Rightarrow> Exited True (if 2 \<le> asked (Run_Output c) l then ''UN 127.0.0.1'' else ''DN 127.0.0.1'')
    | Tcp_Connect a t \<Rightarrow> if 1 \<le> asked (Tcp_Connect a t) l then Success else Failed
    | _ \<Rightarrow> Success)"

theorem scylla_wait_for_ready_ends_witness:
  "\<exists>st l. sc_nodes st \<noteq> [] \<and> scylla_wait_for_ready slow_os 5 st [] = Returned True l"
proof -
  let ?st = "sample_scylla\<lparr>sc_nodes := [\<lparr>sn_db_ip = localhost 1, sn_child = Some 1, sn_workdir = None\<rparr>]\<rparr>"
  have "status_up (localhost 1) ''UN 127.0.0.1''" by code_simp
  then have "comes_up slow_os ?st 2 (localhost 1)" by (auto simp: comes_up_def slow_os_def)
  with scylla_wait_for_ready_ends [of ?st slow_os 2 5 "[]"] show ?thesis by force
qed

end
