(* ===== verification/Vector_Store.thy ===== *)
theory Vector_Store
  imports Cluster_Actors
begin

text \<open>
  The Vector Store cluster fixture, \<open>crates/e2etest-vector-store-cluster/src/lib.rs\<close>: the
  environment of a node, starting and stopping nodes, waiting with a time limit, and the actor.
  \<open>reqwest\<close> and \<open>serde\<close> are seen through the answer of \<^term>\<open>Http_Get\<close>: the JSON string the
  server sent.  The time an effect takes is a parameter, a clock; it matters for the time limit only.
\<close>

section \<open>Data\<close>

definition VS_PORT :: "16 word" where
  "VS_PORT = 6080"

definition DB_PORT :: "16 word" where
  "DB_PORT = 9042"

datatype node_status = Initializing | Connecting_To_Db | Bootstrapping | Serving

text \<open>The names of the variants in \<open>SCREAMING_SNAKE_CASE\<close>.\<close>

definition parse_status :: "string \<Rightarrow> node_status option" where
  "parse_status s =
     (if s = ''INITIALIZING'' then Some Initializing
      else if s = ''CONNECTING_TO_DB'' then Some Connecting_To_Db
      else if s = ''BOOTSTRAPPING'' then Some Bootstrapping
      else if s = ''SERVING'' then Some Serving
      else None)"

record http_client =
  url_api :: string

definition http_client_new :: "socket_addr \<Rightarrow> http_client" where
  "http_client_new addr = \<lparr>url_api = ''http://'' @ show_addr addr @ ''/api/v1''\<rparr>"

definition status_url :: "http_client \<Rightarrow> string" where
  "status_url c = url_api c @ ''/status''"

definition status_of :: "response \<Rightarrow> node_status option" where
  "status_of r = (case r of Body s \<Rightarrow> parse_status s | _ \<Rightarrow> None)"

text \<open>\<open>envs\<close> is a \<open>HashMap\<close>: its entries in the order of its iteration.\<close>

record vs_config =
  vc_vs_ip :: ipv4
  vc_db_ip :: ipv4
  vc_user :: "string option"
  vc_password :: "string option"
  vc_envs :: "(string \<times> string) list"

definition vs_addr :: "vs_config \<Rightarrow> socket_addr" where
  "vs_addr cfg = (vc_vs_ip cfg, VS_PORT)"

definition db_addr :: "vs_config \<Rightarrow> socket_addr" where
  "db_addr cfg = (vc_db_ip cfg, DB_PORT)"

record vs_node =
  vn_vs_ip :: ipv4
  vn_child :: "nat option"
  vn_client :: "http_client option"
  vn_workdir :: "path option"

record vs_cluster =
  vs_path :: path
  vs_nodes :: "vs_node list"
  vs_version :: string
  vs_verbose :: bool
  vs_disable_colors :: bool
  vs_tmpdir :: path

section \<open>The command of a node\<close>

definition vs_base_envs :: "vs_cluster \<Rightarrow> vs_config \<Rightarrow> (string \<times> string) list" where
  "vs_base_envs st cfg =
     [(''VECTOR_STORE_URI'', show_addr (vs_addr cfg)),
      (''VECTOR_STORE_SCYLLADB_URI'', show_addr (db_addr cfg)),
      (''VECTOR_STORE_THREADS'', ''2''),
      (''VECTOR_STORE_DISABLE_COLORS'', show_bool (vs_disable_colors st)),
      (''VECTOR_STORE_CQL_KEEPALIVE_INTERVAL'', ''2s''),
      (''VECTOR_STORE_CQL_KEEPALIVE_TIMEOUT'', ''10s''),
      (''VECTOR_STORE_CQL_TCP_KEEPALIVE_INTERVAL'', ''1s''),
      (''VECTOR_STORE_CDC_SAFETY_INTERVAL'', ''3s''),
      (''VECTOR_STORE_CDC_SLEEP_INTERVAL'', ''1s''),
      (''VECTOR_STORE_CDC_FINE_SAFETY_INTERVAL'', ''100ms''),
      (''VECTOR_STORE_CDC_FINE_SLEEP_INTERVAL'', ''500ms'')]"

definition password_path :: "path \<Rightarrow> path" where
  "password_path workdir = path_join workdir ''password''"

definition credentials :: "vs_config \<Rightarrow> (string \<times> string) option" where
  "credentials cfg = (case (vc_user cfg, vc_password cfg) of (Some u, Some p) \<Rightarrow> Some (u, p) | _ \<Rightarrow> None)"

definition credential_envs :: "vs_config \<Rightarrow> path \<Rightarrow> (string \<times> string) list" where
  "credential_envs cfg workdir = (case credentials cfg of
      Some (u, p) \<Rightarrow> [(''VECTOR_STORE_SCYLLADB_USERNAME'', u),
        (''VECTOR_STORE_SCYLLADB_PASSWORD_FILE'', password_path workdir)]
    | None \<Rightarrow> [])"

definition vs_command :: "vs_cluster \<Rightarrow> vs_config \<Rightarrow> path \<Rightarrow> command" where
  "vs_command st cfg workdir =
     \<lparr>cmd_program = vs_path st, cmd_args = [],
      cmd_envs = vs_base_envs st cfg @ credential_envs cfg workdir @ vc_envs cfg,
      cmd_silent = \<not> vs_verbose st, cmd_user = None\<rparr>"

definition write_password :: "os \<Rightarrow> vs_config \<Rightarrow> path \<Rightarrow> unit io" where
  "write_password os cfg workdir = (case credentials cfg of
      Some (u, p) \<Rightarrow>
        io_bind (expect_success os (Create_New (password_path workdir))) (\<lambda>_.
        io_bind (expect_success os (Write_File (password_path workdir) p)) (\<lambda>_.
        expect_success os (Flush_File (password_path workdir))))
    | None \<Rightarrow> io_return ())"

definition vs_run_node :: "os \<Rightarrow> vs_config \<Rightarrow> vs_cluster \<Rightarrow> path \<Rightarrow> nat io" where
  "vs_run_node os cfg st workdir =
     io_bind (write_password os cfg workdir) (\<lambda>_. expect_pid os (Spawn (vs_command st cfg workdir)))"

section \<open>Starting and stopping\<close>

definition vs_node_new :: "vs_config \<Rightarrow> nat \<Rightarrow> path \<Rightarrow> vs_node" where
  "vs_node_new cfg child workdir = \<lparr>vn_vs_ip = vc_vs_ip cfg, vn_child = Some child,
     vn_client = Some (http_client_new (vs_addr cfg)), vn_workdir = Some workdir\<rparr>"

definition vs_start_one :: "os \<Rightarrow> vs_config \<Rightarrow> vs_cluster \<Rightarrow> vs_cluster io" where
  "vs_start_one os cfg st =
     io_bind (expect_dir os (Temp_Dir_In (vs_tmpdir st))) (\<lambda>workdir.
     io_bind (vs_run_node os cfg st workdir) (\<lambda>child.
     io_return (st\<lparr>vs_nodes := vs_nodes st @ [vs_node_new cfg child workdir]\<rparr>)))"

definition vs_start :: "os \<Rightarrow> vs_config list \<Rightarrow> vs_cluster \<Rightarrow> vs_cluster io" where
  "vs_start os cfgs st = (if cfgs = [] then io_return st else io_for (vs_start_one os) cfgs st)"

text \<open>The directory of a node goes with the node.\<close>

definition drop_dir :: "os \<Rightarrow> path option \<Rightarrow> unit io" where
  "drop_dir os d = (case d of
      Some p \<Rightarrow> io_bind (perform os (Remove_Dir p)) (\<lambda>_. io_return ()) | None \<Rightarrow> io_return ())"

definition vs_start_node :: "os \<Rightarrow> vs_config \<Rightarrow> vs_cluster \<Rightarrow> vs_cluster io" where
  "vs_start_node os cfg st =
     (if vs_nodes st = [] then io_return st
      else case position (\<lambda>n. vn_vs_ip n = vc_vs_ip cfg) (vs_nodes st) of
        Some idx \<Rightarrow>
          io_bind (expect_dir os Temp_Dir) (\<lambda>workdir.
          io_bind (vs_run_node os cfg st workdir) (\<lambda>child.
          io_bind (drop_dir os (vn_workdir (vs_nodes st ! idx))) (\<lambda>_.
          io_return (st\<lparr>vs_nodes := (vs_nodes st)[idx := vs_node_new cfg child workdir]\<rparr>))))
      | None \<Rightarrow> io_return st)"

definition vs_kill :: "os \<Rightarrow> vs_node \<Rightarrow> vs_node io" where
  "vs_kill os node =
     (case vn_child node of
        Some child \<Rightarrow> io_bind (kill_child os child) (\<lambda>_. io_return (node\<lparr>vn_child := None, vn_client := None\<rparr>))
      | None \<Rightarrow> io_return (node\<lparr>vn_client := None\<rparr>))"

text \<open>
  Dropping the nodes, by \<open>nodes.clear()\<close> or when a panic drops the state: a \<open>TempDir\<close> removes its
  directory, a \<open>Child\<close> is not killed.
\<close>

definition drop_nodes :: "os \<Rightarrow> vs_node list \<Rightarrow> unit io" where
  "drop_nodes os nodes = io_for (\<lambda>node _. drop_dir os (vn_workdir node)) nodes ()"

definition vs_stop :: "os \<Rightarrow> vs_cluster \<Rightarrow> vs_cluster io" where
  "vs_stop os st =
     io_bind (io_for (\<lambda>node stopped. io_bind (vs_kill os node) (\<lambda>node. io_return (stopped @ [node])))
       (vs_nodes st) []) (\<lambda>nodes.
     io_bind (drop_nodes os nodes) (\<lambda>_.
     io_return (st\<lparr>vs_nodes := []\<rparr>)))"

definition vs_stop_node :: "os \<Rightarrow> ipv4 \<Rightarrow> vs_cluster \<Rightarrow> vs_cluster io" where
  "vs_stop_node os ip st =
     (case position (\<lambda>n. vn_vs_ip n = ip) (vs_nodes st) of
        Some i \<Rightarrow> io_bind (vs_kill os (vs_nodes st ! i)) (\<lambda>node. io_return (st\<lparr>vs_nodes := (vs_nodes st)[i := node]\<rparr>))
      | None \<Rightarrow> io_return st)"

section \<open>Waiting\<close>

text \<open>
  The polling loop under \<open>time::timeout\<close>: \<open>left\<close> is the time that is left.  An effect that does
  not end in this time is cancelled, and the loop with it.
\<close>

type_synonym clock = "effect_log \<Rightarrow> effect \<Rightarrow> duration"

function vs_poll :: "os \<Rightarrow> clock \<Rightarrow> http_client \<Rightarrow> duration \<Rightarrow> bool io" where
  "vs_poll os clock c left l =
     (let e = Http_Get (status_url c); took = clock l e in
      if left < took then Returned False l
      else let r = os l e; l1 = l @ [(e, r)] in
        if status_of r = Some Serving then Returned True l1
        else if left - took < 100 then Returned False l1
        else vs_poll os clock c (left - took - 100) (l1 @ [(Sleep_Millis 100, os l1 (Sleep_Millis 100))]))"
  by pat_completeness auto

termination
  by (relation "measure (\<lambda>(os, clock, c, left, l). left)") auto

declare vs_poll.simps [simp del]

definition VS_TIMEOUT :: duration where
  "VS_TIMEOUT = 30 * 1000"

definition vs_wait_for_node :: "os \<Rightarrow> clock \<Rightarrow> http_client \<Rightarrow> bool io" where
  "vs_wait_for_node os clock c = vs_poll os clock c VS_TIMEOUT"

fun vs_wait_nodes :: "os \<Rightarrow> clock \<Rightarrow> vs_node list \<Rightarrow> bool io" where
  "vs_wait_nodes os clock [] = io_return True"
| "vs_wait_nodes os clock (node # nodes) =
     (case vn_client node of
        Some c \<Rightarrow> io_bind (vs_wait_for_node os clock c) (\<lambda>ok. io_bind (io_assert ok) (\<lambda>_. vs_wait_nodes os clock nodes))
      | None \<Rightarrow> io_return False)"

definition vs_wait_for_ready :: "os \<Rightarrow> clock \<Rightarrow> vs_cluster \<Rightarrow> bool io" where
  "vs_wait_for_ready os clock st =
     (if vs_nodes st = [] then io_return False else vs_wait_nodes os clock (vs_nodes st))"

section \<open>The actor\<close>

datatype vs_msg =
    Vs_Version reply_id
  | Vs_Start "vs_config list"
  | Vs_Start_Node vs_config
  | Vs_Stop reply_id
  | Vs_Stop_Node ipv4 reply_id
  | Vs_Wait_For_Ready reply_id

fun vs_reply_to :: "vs_msg \<Rightarrow> reply_id option" where
  "vs_reply_to (Vs_Version tx) = Some tx"
| "vs_reply_to (Vs_Start cfgs) = None"
| "vs_reply_to (Vs_Start_Node cfg) = None"
| "vs_reply_to (Vs_Stop tx) = Some tx"
| "vs_reply_to (Vs_Stop_Node ip tx) = Some tx"
| "vs_reply_to (Vs_Wait_For_Ready tx) = Some tx"

fun vs_handle :: "os \<Rightarrow> clock \<Rightarrow> vs_msg \<Rightarrow> vs_cluster \<Rightarrow> (vs_cluster \<times> reply) io" where
  "vs_handle os clock (Vs_Version tx) st = io_return (st, Reply_Text (vs_version st))"
| "vs_handle os clock (Vs_Start cfgs) st = then_unit (vs_start os cfgs st)"
| "vs_handle os clock (Vs_Start_Node cfg) st = then_unit (vs_start_node os cfg st)"
| "vs_handle os clock (Vs_Stop tx) st = then_unit (vs_stop os st)"
| "vs_handle os clock (Vs_Stop_Node ip tx) st = then_unit (vs_stop_node os ip st)"
| "vs_handle os clock (Vs_Wait_For_Ready tx) st =
     io_bind (vs_wait_for_ready os clock st) (\<lambda>b. io_return (st, Reply_Bool b))"

text \<open>\<open>process\<close>, arm by arm.\<close>

fun vs_process :: "os \<Rightarrow> clock \<Rightarrow> (vs_msg, vs_cluster \<times> effect_log, reply) process" where
  "vs_process os clock (Vs_Version tx) (st, l) ch = send_reply tx (Reply_Text (vs_version st)) (st, l) ch"
| "vs_process os clock (Vs_Start cfgs) (st, l) ch =
     awaiting (vs_start os cfgs st) l (\<lambda>st' l'. Some ((st', l'), ch))"
| "vs_process os clock (Vs_Start_Node cfg) (st, l) ch =
     awaiting (vs_start_node os cfg st) l (\<lambda>st' l'. Some ((st', l'), ch))"
| "vs_process os clock (Vs_Stop tx) (st, l) ch =
     awaiting (vs_stop os st) l (\<lambda>st' l'. send_reply tx Reply_Unit (st', l') ch)"
| "vs_process os clock (Vs_Stop_Node ip tx) (st, l) ch =
     awaiting (vs_stop_node os ip st) l (\<lambda>st' l'. send_reply tx Reply_Unit (st', l') ch)"
| "vs_process os clock (Vs_Wait_For_Ready tx) (st, l) ch =
     awaiting (vs_wait_for_ready os clock st) l (\<lambda>b l'. send_reply tx (Reply_Bool b) (st, l') ch)"

declare vs_process.simps [simp del]

definition vs_state_new :: "os \<Rightarrow> path \<Rightarrow> bool \<Rightarrow> bool \<Rightarrow> path \<Rightarrow> vs_cluster io" where
  "vs_state_new os path verbose disable_colors tmpdir =
     io_bind (ask_version os path) (\<lambda>version. io_return
       \<lparr>vs_path = path, vs_nodes = [], vs_version = version, vs_verbose = verbose,
        vs_disable_colors = disable_colors, vs_tmpdir = tmpdir\<rparr>)"

definition vs_new :: "os \<Rightarrow> path \<Rightarrow> bool \<Rightarrow> bool \<Rightarrow> path \<Rightarrow> vs_cluster io" where
  "vs_new os path verbose disable_colors tmpdir =
     io_bind (executable_exists os path) (\<lambda>ok. io_bind (io_assert ok) (\<lambda>_.
     vs_state_new os path verbose disable_colors tmpdir))"

definition vs_task ::
    "os \<Rightarrow> clock \<Rightarrow> vs_msg list \<Rightarrow> vs_cluster \<times> effect_log \<Rightarrow> reply channels \<Rightarrow> (vs_cluster \<times> effect_log) option" where
  "vs_task os clock msgs s ch =
     (case drain (vs_process os clock) msgs s ch of
        None \<Rightarrow> None
      | Some ((st, l), ch') \<Rightarrow>
          (case vs_stop os st l of Returned st' l' \<Rightarrow> Some (st', l') | _ \<Rightarrow> None))"

section \<open>The extension trait\<close>

type_synonym vs_client = "vs_cluster \<times> effect_log"

definition vs_ext_version :: "os \<Rightarrow> clock \<Rightarrow> vs_client \<Rightarrow> (string \<times> vs_client) option" where
  "vs_ext_version os clock s = Option.bind (ask (vs_process os clock) Vs_Version s) as_text"

definition vs_ext_start :: "os \<Rightarrow> clock \<Rightarrow> vs_config list \<Rightarrow> vs_client \<Rightarrow> vs_client option" where
  "vs_ext_start os clock cfgs s = tell (vs_process os clock) (Vs_Start cfgs) s"

definition vs_ext_start_node :: "os \<Rightarrow> clock \<Rightarrow> vs_config \<Rightarrow> vs_client \<Rightarrow> vs_client option" where
  "vs_ext_start_node os clock cfg s = tell (vs_process os clock) (Vs_Start_Node cfg) s"

definition vs_ext_stop :: "os \<Rightarrow> clock \<Rightarrow> vs_client \<Rightarrow> vs_client option" where
  "vs_ext_stop os clock s = Option.bind (ask (vs_process os clock) Vs_Stop s) as_unit"

definition vs_ext_stop_node :: "os \<Rightarrow> clock \<Rightarrow> ipv4 \<Rightarrow> vs_client \<Rightarrow> vs_client option" where
  "vs_ext_stop_node os clock ip s = Option.bind (ask (vs_process os clock) (Vs_Stop_Node ip) s) as_unit"

definition vs_ext_wait_for_ready :: "os \<Rightarrow> clock \<Rightarrow> vs_client \<Rightarrow> (bool \<times> vs_client) option" where
  "vs_ext_wait_for_ready os clock s = Option.bind (ask (vs_process os clock) Vs_Wait_For_Ready s) as_bool"

definition vs_ext_restart :: "os \<Rightarrow> clock \<Rightarrow> vs_config \<Rightarrow> vs_client \<Rightarrow> vs_client option" where
  "vs_ext_restart os clock cfg s =
     Option.bind (vs_ext_stop_node os clock (vc_vs_ip cfg) s) (\<lambda>s.
     Option.bind (vs_ext_start_node os clock cfg s) (\<lambda>s.
     Option.bind (vs_ext_wait_for_ready os clock s) (\<lambda>(ready, s). if ready then Some s else None)))"

section \<open>The contract of the actor\<close>

lemma vs_process_eq: "vs_process os clock = io_process (vs_handle os clock) vs_reply_to"
proof (intro ext)
  fix m s ch
  show "vs_process os clock m s ch = io_process (vs_handle os clock) vs_reply_to m s ch"
    by (cases m; cases s) (auto simp: vs_process.simps io_process_def awaiting_def send_reply_def then_unit_def
        io_bind_def io_return_def split: outcome.splits)
qed

lemma prefix_vs_poll: "vs_poll os clock c left l = Returned b l' \<Longrightarrow> prefix l l'"
proof (induction os clock c left l rule: vs_poll.induct)
  case (1 os clock c left l)
  let ?e = "Http_Get (status_url c)"
  let ?l1 = "l @ [(?e, os l ?e)]"
  show ?case
  proof (cases "left < clock l ?e \<or> status_of (os l ?e) = Some Serving \<or> left - clock l ?e < 100")
    case True
    with 1(2) show ?thesis by (auto simp: vs_poll.simps [of os clock c left l] Let_def split: if_splits)
  next
    case False
    with 1(2) have "vs_poll os clock c (left - clock l ?e - 100)
        (?l1 @ [(Sleep_Millis 100, os ?l1 (Sleep_Millis 100))]) = Returned b l'"
      by (simp add: vs_poll.simps [of os clock c left l] Let_def)
    from 1(1) [OF refl refl _ refl refl _ _ this] False show ?thesis by (auto simp: prefix_def)
  qed
qed

lemma grows_vs_helpers [io_rel_intros]: "log_grows (write_password os cfg workdir)"
  "log_grows (drop_dir os d)" "log_grows (vs_kill os n)" "log_grows (vs_wait_for_node os clock c)"
  unfolding write_password_def drop_dir_def vs_kill_def
  by (intro io_rel_intros)+ (auto simp: io_rel_def vs_wait_for_node_def dest: prefix_vs_poll)

lemma grows_vs_run_node [io_rel_intros]: "log_grows (vs_run_node os cfg st workdir)"
  unfolding vs_run_node_def by (intro io_rel_intros)

lemma grows_vs_wait_nodes [io_rel_intros]: "log_grows (vs_wait_nodes os clock nodes)"
  by (induction nodes) (auto intro!: io_rel_intros)

lemma grows_vs_handle: "log_grows (vs_handle os clock m st)"
  by (cases m) (auto intro!: io_rel_intros simp: then_unit_def vs_start_def vs_start_one_def vs_stop_def drop_nodes_def
    vs_start_node_def vs_stop_node_def vs_wait_for_ready_def)

interpretation vs: io_actor "vs_handle os clock" vs_reply_to for os clock
  by unfold_locales (rule grows_vs_handle)

end
