(* ===== verification/Vector_Store_Laws.thy ===== *)
theory Vector_Store_Laws
  imports Vector_Store Sample_System
begin

text \<open>
  The laws and the properties of the Vector Store cluster: the environment of its processes, the
  time limit of waiting, and that nothing outlives the actor.
\<close>

section \<open>The environment\<close>

lemma map_of_rev: "distinct (map fst xs) \<Longrightarrow> map_of (rev xs) = map_of xs"
proof (induction xs)
  case (Cons x xs)
  then have "map_of xs (fst x) = None" by (simp add: map_of_eq_None_iff)
  with Cons show ?case by (auto simp: fun_eq_iff map_add_def split: option.splits)
qed simp

text \<open>
  C28.  The process of a node sees, for every variable, the value of the configuration if it has
  one, else the credentials, else the default of the fixture; the order in which the hash map lists
  its entries does not matter.
\<close>

theorem vs_environment:
  assumes "distinct (map fst (vc_envs cfg))"
  shows "env_lookup (vs_command st cfg workdir) k =
    (case map_of (vc_envs cfg) k of
       Some v \<Rightarrow> Some v
     | None \<Rightarrow> (case map_of (credential_envs cfg workdir) k of
         Some v \<Rightarrow> Some v
       | None \<Rightarrow> map_of (vs_base_envs st cfg) k)) \<and>
    (\<forall>es. mset es = mset (vc_envs cfg) \<longrightarrow>
       env_lookup (vs_command st (cfg\<lparr>vc_envs := es\<rparr>) workdir) k = env_lookup (vs_command st cfg workdir) k)"
proof -
  have "distinct (map fst (vs_base_envs st cfg))" "distinct (map fst (credential_envs cfg workdir))"
    by (auto simp: vs_base_envs_def credential_envs_def split: option.splits)
  with assms have eq: "env_lookup (vs_command st cfg workdir) k =
      (map_of (vs_base_envs st cfg) ++ map_of (credential_envs cfg workdir) ++ map_of (vc_envs cfg)) k"
    by (simp add: env_lookup_def vs_command_def map_of_rev map_add_assoc)
  have "env_lookup (vs_command st (cfg\<lparr>vc_envs := es\<rparr>) workdir) k = env_lookup (vs_command st cfg workdir) k"
    if "mset es = mset (vc_envs cfg)" for es
  proof -
    from that have "mset (map fst es) = mset (map fst (vc_envs cfg))" by simp
    with assms have d: "distinct (map fst es)" by (metis mset_eq_imp_distinct_iff)
    have "map_of es j = Some v \<longleftrightarrow> map_of (vc_envs cfg) j = Some v" for j v
      using d assms mset_eq_setD [OF that] by (simp add: map_of_eq_Some_iff)
    then have "map_of es = map_of (vc_envs cfg)"
      by (intro ext) (metis option.exhaust)
    with assms d show ?thesis
      by (simp add: env_lookup_def vs_command_def map_of_rev vs_base_envs_def credential_envs_def
          credentials_def vs_addr_def db_addr_def)
  qed
  with eq show ?thesis by (auto simp: map_add_def split: option.splits)
qed

definition sample_vs :: vs_cluster where
  "sample_vs = \<lparr>vs_path = ''/usr/bin/vector-store'', vs_nodes = [], vs_version = ''1.0'', vs_verbose = False,
     vs_disable_colors = True, vs_tmpdir = ''/tmp''\<rparr>"

definition sample_vs_config :: "8 word \<Rightarrow> vs_config" where
  "sample_vs_config d = \<lparr>vc_vs_ip = localhost d, vc_db_ip = localhost 1, vc_user = Some ''admin'',
     vc_password = Some ''secret'', vc_envs = [(''VECTOR_STORE_THREADS'', ''8''), (''RUST_LOG'', ''debug'')]\<rparr>"

theorem vs_environment_witness:
  "env_lookup (vs_command sample_vs (sample_vs_config 2) ''/tmp/t'') ''VECTOR_STORE_THREADS'' = Some ''8'' \<and>
   env_lookup (vs_command sample_vs (sample_vs_config 2) ''/tmp/t'') ''VECTOR_STORE_SCYLLADB_USERNAME'' = Some ''admin''"
proof -
  have d: "distinct (map fst (vc_envs (sample_vs_config 2)))" by code_simp
  show ?thesis
    using vs_environment [OF d, of sample_vs "''/tmp/t''" "''VECTOR_STORE_THREADS''"]
      vs_environment [OF d, of sample_vs "''/tmp/t''" "''VECTOR_STORE_SCYLLADB_USERNAME''"]
    by (simp add: sample_vs_config_def credential_envs_def credentials_def)
qed

section \<open>The time limit\<close>

abbreviation "vs_status_query c \<equiv> Http_Get (status_url c)"

lemma vs_poll_unfold:
  "vs_poll os clock c left l =
     (if left < clock l (vs_status_query c) then Returned False l
      else if status_of (os l (vs_status_query c)) = Some Serving
        then Returned True (l @ [(vs_status_query c, os l (vs_status_query c))])
      else if left - clock l (vs_status_query c) < 100
        then Returned False (l @ [(vs_status_query c, os l (vs_status_query c))])
      else vs_poll os clock c (left - clock l (vs_status_query c) - 100) (retried os (vs_status_query c) l))"
  by (simp add: vs_poll.simps [of os clock c left l] Let_def retried_def)

lemma vs_poll_law:
  "\<exists>b m. vs_poll os clock c left l = Returned b (l @ m) \<and> asked (vs_status_query c) m \<le> left div 100 + 1 \<and>
     (b \<longleftrightarrow> (\<exists>r. (vs_status_query c, r) \<in> set m \<and> status_of r = Some Serving))"
proof (induction left arbitrary: l rule: less_induct)
  case (less left)
  let ?q = "vs_status_query c" and ?took = "clock l (vs_status_query c)"
  show ?case
  proof (cases "left < ?took \<or> status_of (os l ?q) = Some Serving \<or> left - ?took < 100")
    case True
    then show ?thesis by (auto simp: vs_poll_unfold [of os clock c left l] status_of_def)
  next
    case False
    let ?left = "left - ?took - 100"
    from False have lt: "?left < left" and le: "?left + 100 \<le> left" by auto
    from less.IH [OF lt, of "retried os ?q l"] obtain b m where
      run: "vs_poll os clock c ?left (retried os ?q l) = Returned b (retried os ?q l @ m)" and
      polls: "asked ?q m \<le> ?left div 100 + 1" and
      b: "b \<longleftrightarrow> (\<exists>r. (?q, r) \<in> set m \<and> status_of r = Some Serving)" by blast
    let ?m = "[(?q, os l ?q), (Sleep_Millis 100, os (l @ [(?q, os l ?q)]) (Sleep_Millis 100))] @ m"
    have log: "retried os ?q l @ m = l @ ?m" by (simp add: retried_def Let_def)
    have "asked ?q ?m \<le> ?left div 100 + 2" using polls by simp
    also have "?left div 100 + 2 \<le> left div 100 + 1" using div_le_mono [OF le, of 100] by simp
    finally have "asked ?q ?m \<le> left div 100 + 1" .
    moreover have "vs_poll os clock c left l = Returned b (l @ ?m)"
      using False run by (simp add: vs_poll_unfold [of os clock c left l] log)
    moreover have "b \<longleftrightarrow> (\<exists>r. (?q, r) \<in> set ?m \<and> status_of r = Some Serving)"
      using b False by auto
    ultimately show ?thesis by blast
  qed
qed

text \<open>
  C29.  Waiting for a node ends, whatever the server does and however long it takes: after at most
  301 questions, with \<open>true\<close> exactly when one of the answers that came in time was \<open>SERVING\<close>.
\<close>

theorem vs_waiting_is_bounded:
  "\<exists>b m. vs_wait_for_node os clock c l = Returned b (l @ m) \<and> asked (Http_Get (status_url c)) m \<le> 301 \<and>
     (b \<longleftrightarrow> (\<exists>r. (Http_Get (status_url c), r) \<in> set m \<and> status_of r = Some Serving))"
  using vs_poll_law [of os clock c VS_TIMEOUT l] by (simp add: vs_wait_for_node_def VS_TIMEOUT_def)

text \<open>The answers in the log of a wait are answers of the system.\<close>

lemma vs_poll_answers:
  "vs_poll os clock c left k = Returned b (k @ m) \<Longrightarrow> (vs_status_query c, r) \<in> set m \<Longrightarrow>
     \<exists>k. r = os k (vs_status_query c)"
proof (induction left arbitrary: k m rule: less_induct)
  case (less left)
  let ?q = "vs_status_query c"
  show ?case
  proof (cases "left < clock k ?q \<or> status_of (os k ?q) = Some Serving \<or> left - clock k ?q < 100")
    case True
    with less.prems show ?thesis by (auto simp: vs_poll_unfold [of os clock c left k] split: if_splits)
  next
    case False
    let ?left = "left - clock k ?q - 100"
    from False have lt: "?left < left" by auto
    from less.prems(1) False have run: "vs_poll os clock c ?left (retried os ?q k) = Returned b (k @ m)"
      by (simp add: vs_poll_unfold [of os clock c left k])
    with prefix_vs_poll [OF run] obtain m' where m': "k @ m = retried os ?q k @ m'" by (auto simp: prefix_def)
    then have "m = (?q, os k ?q) # (Sleep_Millis 100, os (k @ [(?q, os k ?q)]) (Sleep_Millis 100)) # m'"
      by (simp add: retried_def Let_def)
    with less.IH [OF lt run [unfolded m']] less.prems(2) show ?thesis by auto
  qed
qed

lemma vs_poll_quiet: "vs_poll os clock c left l = Returned b l' \<Longrightarrow> same_owned l l'"
proof (induction left arbitrary: l rule: less_induct)
  case (less left)
  have q: "quiet_effect (vs_status_query c)" by (simp add: quiet_effect_def)
  from less.IH [of "left - clock l (vs_status_query c) - 100" "retried os (vs_status_query c) l"] less.prems
  show ?case
    by (auto simp: vs_poll_unfold [of os clock c left l] quiet_effect_same [OF q] same_owned_def dir_step_def
        split: if_splits)
qed

lemma drop_dir_law:
  "drop_dir os d l = Returned u l' \<Longrightarrow> alive l' = alive l \<and> kept_dirs l' = kept_dirs l - {p. d = Some p}"
  by (auto simp: drop_dir_def io_bind_iff io_return_iff perform_iff split: option.splits)

lemma drop_nodes_law:
  "\<exists>l'. drop_nodes os ns l = Returned () l' \<and> alive l' = alive l \<and> kept_dirs l' = kept_dirs l - owned vn_workdir ns"
proof (induction ns arbitrary: l)
  case (Cons n ns)
  obtain m where d: "drop_dir os (vn_workdir n) l = Returned () m"
    by (cases "vn_workdir n") (auto simp: drop_dir_def io_return_def io_bind_def perform_def)
  from Cons.IH [of m] obtain l' where l': "drop_nodes os ns m = Returned () l'" "alive l' = alive m"
    "kept_dirs l' = kept_dirs m - owned vn_workdir ns" by blast
  then have "drop_nodes os (n # ns) l = Returned () l'" using d by (auto simp: drop_nodes_def io_bind_iff)
  with drop_dir_law [OF d] l'(2,3) show ?case by (intro exI [of _ l']) auto
qed (simp add: drop_nodes_def io_return_def)

lemma vs_wait_nodes_quiet: "vs_wait_nodes os clock ns l = Returned b l' \<Longrightarrow> same_owned l l'"
proof (induction ns arbitrary: l)
  case (Cons n ns)
  then show ?case
    by (cases "vn_client n")
      (auto simp: io_bind_iff io_return_iff io_assert_iff vs_wait_for_node_def same_owned_def dest!: vs_poll_quiet)
qed (simp add: io_return_iff same_owned_def)

lemma vs_wait_nodes_panics:
  assumes "vs_wait_nodes os clock xs l = Returned True l1" and "vn_client n = Some c"
    and "vs_wait_for_node os clock c l1 = Returned False l2"
  shows "vs_wait_nodes os clock (xs @ n # ys) l = Panicked l2"
  using assms(1)
proof (induction xs arbitrary: l)
  case Nil
  with assms(2,3) show ?case by (simp add: io_return_iff io_bind_def io_assert_def io_panic_def)
next
  case (Cons x xs)
  then obtain c' l' where "vn_client x = Some c'" "vs_wait_for_node os clock c' l = Returned True l'"
    "vs_wait_nodes os clock xs l' = Returned True l1"
    by (auto simp: io_bind_iff io_return_iff io_assert_iff split: option.splits)
  with Cons.IH show ?case by (simp add: io_bind_def io_assert_def io_return_def)
qed

text \<open>
  C30.  A node that is not ready in time makes \<open>wait_for_ready\<close> panic, and the actor with it, whichever
  node of the cluster it is: those before it were ready, and it did not answer \<open>SERVING\<close> within its
  30 seconds, though it may later.  The answer \<open>false\<close> is left for a cluster without nodes or with a
  stopped one.  The panic drops the state: the removal of the directory of each node is tried, and
  the processes run on.
\<close>

theorem vs_not_ready_panics:
  assumes "vs_nodes st = xs @ n # ys" and "vs_wait_nodes os clock xs l = Returned True l1"
    and "vn_client n = Some c" and "vs_wait_for_node os clock c l1 = Returned False l2"
  shows "vs_wait_for_ready os clock st l = Panicked l2 \<and>
    vs_process os clock (Vs_Wait_For_Ready tx) (st, l) ch = None \<and>
    (\<exists>l'. drop_nodes os (vs_nodes st) l2 = Returned () l' \<and> alive l' = alive l \<and>
      kept_dirs l' = kept_dirs l - owned vn_workdir (vs_nodes st) \<and>
      left_dirs l' \<subseteq> kept_dirs l - owned vn_workdir (vs_nodes st) \<union> refused_dirs l')"
proof -
  have panic: "vs_wait_for_ready os clock st l = Panicked l2"
    using vs_wait_nodes_panics [OF assms(2-4)] assms(1) by (simp add: vs_wait_for_ready_def)
  then have "vs_process os clock (Vs_Wait_For_Ready tx) (st, l) ch = None"
    by (simp add: vs_process.simps awaiting_def)
  moreover have "same_owned l l1" by (rule vs_wait_nodes_quiet [OF assms(2)])
  moreover have "same_owned l1 l2" using vs_poll_quiet assms(4) by (simp add: vs_wait_for_node_def)
  moreover obtain l' where "drop_nodes os (vs_nodes st) l2 = Returned () l'" "alive l' = alive l2"
    "kept_dirs l' = kept_dirs l2 - owned vn_workdir (vs_nodes st)"
    using drop_nodes_law [of os "vs_nodes st" l2] by blast
  ultimately show ?thesis using panic left_dirs_kept [of l'] by (auto simp: same_owned_def)
qed

text \<open>
  The second of two nodes starts to serve after 20 seconds and a question that takes 20 seconds
  more: too late.
\<close>

definition late_os :: os where
  "late_os l e = (if e = Http_Get (status_url (http_client_new (vs_addr (sample_vs_config 3)))) \<and> asked e l = 0
     then Body ''BOOTSTRAPPING'' else Body ''SERVING'')"

definition late_nodes :: "vs_node list" where
  "late_nodes = [vs_node_new (sample_vs_config 2) 1 ''/tmp/a'', vs_node_new (sample_vs_config 3) 2 ''/tmp/b'']"

theorem vs_not_ready_panics_witness:
  "\<exists>l l' l''. alive l = {1, 2} \<and>
     vs_wait_for_ready late_os (\<lambda>_ _. 20 * 1000) (sample_vs\<lparr>vs_nodes := late_nodes\<rparr>) l = Panicked l' \<and>
     drop_nodes late_os late_nodes l' = Returned () l'' \<and> alive l'' = {1, 2} \<and> kept_dirs l'' = {}"
proof -
  let ?l = "[(Temp_Dir, Dir_Path ''/tmp/a''), (Spawn (command_new ''vs''), Process_Id 1),
    (Temp_Dir, Dir_Path ''/tmp/b''), (Spawn (command_new ''vs''), Process_Id 2)]"
  let ?st = "sample_vs\<lparr>vs_nodes := late_nodes\<rparr>" and ?clock = "\<lambda>_ _. 20 * 1000 :: duration"
  let ?n = "vs_node_new (sample_vs_config 2) 1 ''/tmp/a''" and ?m = "vs_node_new (sample_vs_config 3) 2 ''/tmp/b''"
  let ?c = "http_client_new (vs_addr (sample_vs_config 2))" and ?d = "http_client_new (vs_addr (sample_vs_config 3))"
  have words: "status_of (Body ''BOOTSTRAPPING'') = Some Bootstrapping" "status_of (Body ''SERVING'') = Some Serving"
    by (simp_all add: status_of_def parse_status_def)
  have "show_ipv4 (localhost 2) \<noteq> show_ipv4 (localhost 3)" by code_simp
  then have urls: "status_url ?c \<noteq> status_url ?d"
    by (simp add: status_url_def http_client_new_def vs_addr_def show_addr_def sample_vs_config_def)
  have first: "vs_wait_nodes late_os ?clock [?n] ?l =
      Returned True (?l @ [(vs_status_query ?c, Body ''SERVING'')])" (is "_ = Returned True ?l1")
  proof -
    have "late_os ?l (vs_status_query ?c) = Body ''SERVING''" using urls by (simp add: late_os_def)
    then have "vs_poll late_os ?clock ?c VS_TIMEOUT ?l = Returned True ?l1"
      using words unfolding vs_poll_unfold [of late_os ?clock ?c VS_TIMEOUT ?l] by (simp add: VS_TIMEOUT_def)
    then show ?thesis by (simp add: vs_node_new_def vs_wait_for_node_def io_bind_def io_assert_def io_return_def)
  qed
  have "asked (vs_status_query ?d) ?l1 = 0" using urls by simp
  then have "late_os ?l1 (vs_status_query ?d) = Body ''BOOTSTRAPPING''" by (simp only: late_os_def simp_thms if_True)
  then have "vs_poll late_os ?clock ?d VS_TIMEOUT ?l1 =
      vs_poll late_os ?clock ?d 9900 (retried late_os (vs_status_query ?d) ?l1)"
    using words unfolding vs_poll_unfold [of late_os ?clock ?d VS_TIMEOUT ?l1] by (simp add: VS_TIMEOUT_def)
  also have "\<dots> = Returned False (retried late_os (vs_status_query ?d) ?l1)"
    unfolding vs_poll_unfold [of late_os ?clock ?d 9900] by simp
  finally obtain l2 where second: "vs_wait_for_node late_os ?clock ?d ?l1 = Returned False l2"
    by (simp add: vs_wait_for_node_def)
  have nodes: "vs_nodes ?st = [?n] @ ?m # []" by (simp add: late_nodes_def)
  from vs_not_ready_panics [OF nodes first _ second, of 0 "\<lambda>_. Awaited"] obtain l' where
    "vs_wait_for_ready late_os ?clock ?st ?l = Panicked l2" "drop_nodes late_os (vs_nodes ?st) l2 = Returned () l'"
    "alive l' = alive ?l" "kept_dirs l' = kept_dirs ?l - owned vn_workdir (vs_nodes ?st)"
    by (auto simp: vs_node_new_def)
  moreover have "alive ?l = {1, 2}" by (auto simp: alive_def exited_def)
  moreover have "kept_dirs ?l = {''/tmp/a'', ''/tmp/b''}" by (auto simp: kept_dirs_def)
  moreover have "owned vn_workdir late_nodes = {''/tmp/a'', ''/tmp/b''}" by (auto simp: late_nodes_def vs_node_new_def)
  ultimately show ?thesis by (intro exI [of _ ?l] exI [of _ l2] exI [of _ l']) simp
qed

section \<open>Processes and directories\<close>

definition vs_tidy :: "vs_cluster \<Rightarrow> effect_log \<Rightarrow> bool" where
  "vs_tidy st l \<longleftrightarrow> alive l \<subseteq> owned vn_child (vs_nodes st) \<and> kept_dirs l \<subseteq> owned vn_workdir (vs_nodes st)"

lemma write_password_quiet: "quiet (write_password os cfg workdir)"
  unfolding write_password_def by (intro io_rel_intros) (simp_all add: quiet_effect_def)

lemma vs_run_node_law:
  assumes "fresh_pids os" and "vs_run_node os cfg st workdir l = Returned p l'"
  shows "alive l' = insert p (alive l) \<and> kept_dirs l' = kept_dirs l \<and>
    (\<exists>k. l' = k @ [(Spawn (vs_command st cfg workdir), Process_Id p)])"
proof -
  from assms(2) obtain u l1 where w: "write_password os cfg workdir l = Returned u l1"
    and s: "os l1 (Spawn (vs_command st cfg workdir)) = Process_Id p"
    and l': "l' = l1 @ [(Spawn (vs_command st cfg workdir), Process_Id p)]"
    by (auto simp: vs_run_node_def io_bind_iff expect_pid_iff)
  from io_relD [where R = same_owned, OF write_password_quiet w] have "same_owned l l1" .
  with alive_spawn [OF s assms(1)] l' show ?thesis by (auto simp: same_owned_def)
qed

lemma vs_start_one_law:
  assumes "fresh_pids os" and "vs_start_one os cfg st l = Returned st' l'" and "vs_tidy st l"
  shows "vs_tidy st' l'"
proof -
  from assms(2) obtain dir l1 p where l1: "l1 = l @ [(Temp_Dir_In (vs_tmpdir st), Dir_Path dir)]"
    and run: "vs_run_node os cfg st dir l1 = Returned p l'"
    and st': "st' = st\<lparr>vs_nodes := vs_nodes st @ [vs_node_new cfg p dir]\<rparr>"
    by (auto simp: vs_start_one_def io_bind_iff io_return_iff expect_dir_iff)
  have "alive l1 = alive l" "kept_dirs l1 = insert dir (kept_dirs l)" using l1 by simp_all
  with vs_run_node_law [OF assms(1) run] assms(3) st' show ?thesis
    by (auto simp: vs_tidy_def vs_node_new_def)
qed

lemma vs_start_tidy:
  assumes "fresh_pids os" and "vs_start os cfgs st l = Returned st' l'" and "vs_tidy st l"
  shows "vs_tidy st' l'"
proof (cases "cfgs = []")
  case True
  with assms show ?thesis by (simp add: vs_start_def io_return_iff)
next
  case False
  with assms(2) have loop: "io_for (vs_start_one os) cfgs st l = Returned st' l'" by (simp add: vs_start_def)
  show ?thesis
    by (rule io_for_invariant [where P = "\<lambda>_ s m. vs_tidy s m", OF loop assms(3)])
      (rule vs_start_one_law [OF assms(1)])
qed

lemma vs_kill_law:
  "vs_kill os n l = Returned n' l' \<Longrightarrow> n' = n\<lparr>vn_child := None, vn_client := None\<rparr> \<and>
     alive l' = alive l - {p. vn_child n = Some p} \<and> kept_dirs l' = kept_dirs l"
proof (cases "vn_child n")
  case None
  then show "vs_kill os n l = Returned n' l' \<Longrightarrow> ?thesis" by (simp add: vs_kill_def io_return_iff)
next
  case (Some p)
  assume "vs_kill os n l = Returned n' l'"
  with Some obtain u where k: "kill_child os p l = Returned u l'" and n': "n' = n\<lparr>vn_child := None, vn_client := None\<rparr>"
    by (auto simp: vs_kill_def io_bind_iff io_return_iff)
  from alive_kill_child [OF k] k n' Some show ?thesis by (auto simp: kill_child_iff)
qed

lemma vs_start_node_tidy:
  assumes "fresh_pids os" and "vs_start_node os cfg st l = Returned st' l'" and "vs_tidy st l"
    and "\<forall>i. position (\<lambda>n. vn_vs_ip n = vc_vs_ip cfg) (vs_nodes st) = Some i \<longrightarrow> vn_child (vs_nodes st ! i) = None"
  shows "vs_tidy st' l'"
proof (cases "position (\<lambda>n. vn_vs_ip n = vc_vs_ip cfg) (vs_nodes st)")
  case None
  with assms(2,3) show ?thesis by (simp add: vs_start_node_def io_return_iff split: if_splits)
next
  case (Some i)
  have i: "i < length (vs_nodes st)" using position_Some [OF Some] by simp
  let ?old = "vn_workdir (vs_nodes st ! i)"
  from assms(2) Some i obtain dir l1 p l2 u where l1: "l1 = l @ [(Temp_Dir, Dir_Path dir)]"
    and run: "vs_run_node os cfg st dir l1 = Returned p l2"
    and dd: "drop_dir os ?old l2 = Returned u l'"
    and st': "st' = st\<lparr>vs_nodes := (vs_nodes st)[i := vs_node_new cfg p dir]\<rparr>"
    by (auto simp: vs_start_node_def io_bind_iff io_return_iff expect_dir_iff split: if_splits)
  have "alive l1 = alive l" "kept_dirs l1 = insert dir (kept_dirs l)" using l1 by simp_all
  with vs_run_node_law [OF assms(1) run] drop_dir_law [OF dd]
  have al: "alive l' = insert p (alive l)" and kd: "kept_dirs l' = insert dir (kept_dirs l) - {q. ?old = Some q}" by auto
  have free: "vn_child (vs_nodes st ! i) = None" using assms(4) Some by blast
  have new: "vn_child (vs_node_new cfg p dir) = Some p" "vn_workdir (vs_node_new cfg p dir) = Some dir"
    by (simp_all add: vs_node_new_def)
  from owned_update [OF i, of vn_child "vs_node_new cfg p dir"] free new(1) al assms(3) st'
  have "alive l' \<subseteq> owned vn_child (vs_nodes st')" by (auto simp: vs_tidy_def)
  moreover from owned_update [OF i, of vn_workdir "vs_node_new cfg p dir"] new(2) kd assms(3) st'
  have "kept_dirs l' \<subseteq> owned vn_workdir (vs_nodes st')" by (auto simp: vs_tidy_def)
  ultimately show ?thesis by (simp add: vs_tidy_def)
qed

lemma vs_stop_node_tidy:
  assumes "vs_stop_node os ip st l = Returned st' l'" and "vs_tidy st l"
  shows "vs_tidy st' l'"
proof (cases "position (\<lambda>n. vn_vs_ip n = ip) (vs_nodes st)")
  case None
  with assms show ?thesis by (simp add: vs_stop_node_def io_return_iff)
next
  case (Some i)
  have i: "i < length (vs_nodes st)" using position_Some [OF Some] by simp
  let ?n = "(vs_nodes st ! i)\<lparr>vn_child := None, vn_client := None\<rparr>"
  from assms(1) Some obtain n' where k: "vs_kill os (vs_nodes st ! i) l = Returned n' l'"
    and st': "st' = st\<lparr>vs_nodes := (vs_nodes st)[i := n']\<rparr>"
    by (auto simp: vs_stop_node_def io_bind_iff io_return_iff)
  from vs_kill_law [OF k] have n': "n' = ?n" and al: "alive l' = alive l - {p. vn_child (vs_nodes st ! i) = Some p}"
    and kd: "kept_dirs l' = kept_dirs l" by auto
  from owned_update [OF i, of vn_child ?n] owned_update [OF i, of vn_workdir ?n] al kd n' st' assms(2)
  show ?thesis by (auto simp: vs_tidy_def)
qed

lemma vs_stop_clean:
  assumes "vs_stop os st l = Returned st' l'" and "vs_tidy st l"
  shows "alive l' = {} \<and> kept_dirs l' = {} \<and> vs_nodes st' = []"
proof -
  from assms(1) obtain ns l1 u where
    kill: "io_for (\<lambda>node stopped. io_bind (vs_kill os node) (\<lambda>node. io_return (stopped @ [node]))) (vs_nodes st) [] l =
      Returned ns l1" and
    clear: "drop_nodes os ns l1 = Returned u l'" and
    st': "st' = st\<lparr>vs_nodes := []\<rparr>"
    by (auto simp: vs_stop_def io_bind_iff io_return_iff)
  have killed: "ns = map (\<lambda>n. n\<lparr>vn_child := None, vn_client := None\<rparr>) (vs_nodes st) \<and>
    alive l1 = alive l - owned vn_child (vs_nodes st) \<and> kept_dirs l1 = kept_dirs l"
  proof (rule io_for_invariant [OF kill])
    fix ys zs s s' :: "vs_node list" and y m m'
    assume P: "s = map (\<lambda>n. n\<lparr>vn_child := None, vn_client := None\<rparr>) ys \<and> alive m = alive l - owned vn_child ys \<and>
        kept_dirs m = kept_dirs l"
      and step: "io_bind (vs_kill os y) (\<lambda>node. io_return (s @ [node])) m = Returned s' m'"
    from step obtain n1 where k: "vs_kill os y m = Returned n1 m'" and s': "s' = s @ [n1]"
      by (auto simp: io_bind_iff io_return_iff)
    from vs_kill_law [OF k] P s' show "s' = map (\<lambda>n. n\<lparr>vn_child := None, vn_client := None\<rparr>) (ys @ [y]) \<and>
        alive m' = alive l - owned vn_child (ys @ [y]) \<and> kept_dirs m' = kept_dirs l" by auto
  qed simp
  have "alive l' = alive l1 \<and> kept_dirs l' = kept_dirs l1 - owned vn_workdir ns"
    using drop_nodes_law [of os ns l1] clear by auto
  moreover have "owned vn_workdir ns = owned vn_workdir (vs_nodes st)"
    using killed by (auto simp: owned_def)
  ultimately show ?thesis using killed assms(2) st' by (auto simp: vs_tidy_def)
qed

lemma vs_wait_quiet: "quiet (vs_wait_for_ready os clock st)"
proof -
  have "quiet (vs_wait_for_node os clock c)" for c
    by (auto simp: io_rel_def vs_wait_for_node_def dest: vs_poll_quiet)
  then have "quiet (vs_wait_nodes os clock ns)" for ns
    by (induction ns) (auto intro!: io_rel_intros)
  then show ?thesis by (auto simp: vs_wait_for_ready_def intro: io_rel_intros)
qed

text \<open>A node is stopped before it is started again: \<open>start_node\<close> forgets a process that runs.\<close>

fun vs_polite :: "vs_msg \<Rightarrow> vs_cluster \<Rightarrow> bool" where
  "vs_polite (Vs_Start_Node cfg) st =
     (case position (\<lambda>n. vn_vs_ip n = vc_vs_ip cfg) (vs_nodes st) of
        Some i \<Rightarrow> vn_child (vs_nodes st ! i) = None | None \<Rightarrow> True)"
| "vs_polite _ st = True"

lemma vs_handle_tidy:
  assumes "fresh_pids os" and "vs_polite m st" and "vs_tidy st l" and "vs_handle os clock m st l = Returned (st', r) l'"
  shows "vs_tidy st' l'"
proof (cases m)
  case (Vs_Version tx)
  with assms(3,4) show ?thesis by (simp add: io_return_iff)
next
  case (Vs_Start cfgs)
  with assms(4) have "vs_start os cfgs st l = Returned st' l'" by (auto simp: then_unit_def io_bind_iff io_return_iff)
  then show ?thesis by (rule vs_start_tidy [OF assms(1) _ assms(3)])
next
  case (Vs_Start_Node cfg)
  with assms(4) have "vs_start_node os cfg st l = Returned st' l'"
    by (auto simp: then_unit_def io_bind_iff io_return_iff)
  from vs_start_node_tidy [OF assms(1) this assms(3)] assms(2) Vs_Start_Node show ?thesis
    by (simp split: option.splits)
next
  case (Vs_Stop tx)
  with assms(4) have "vs_stop os st l = Returned st' l'" by (auto simp: then_unit_def io_bind_iff io_return_iff)
  from vs_stop_clean [OF this assms(3)] show ?thesis by (simp add: vs_tidy_def)
next
  case (Vs_Stop_Node ip tx)
  with assms(4) have "vs_stop_node os ip st l = Returned st' l'"
    by (auto simp: then_unit_def io_bind_iff io_return_iff)
  then show ?thesis by (rule vs_stop_node_tidy [OF _ assms(3)])
next
  case (Vs_Wait_For_Ready tx)
  with assms(4) obtain b where w: "vs_wait_for_ready os clock st l = Returned b l'" and "st' = st"
    by (auto simp: io_bind_iff io_return_iff)
  with io_relD [where R = same_owned, OF vs_wait_quiet w] assms(3) show ?thesis
    by (simp add: vs_tidy_def same_owned_def)
qed

text \<open>
  C31.  Nothing outlives the normal end of the actor of the Vector Store either: when its mailbox is
  closed and no handler has panicked, no process that it started runs, and of the directories that it
  made exist only those that the system refused to remove, provided nodes were stopped before they
  were started again.
\<close>

theorem vs_task_leaves_nothing:
  assumes "fresh_pids os" and "allowed_run (vs_handle os clock) vs_polite ms st l" and "vs_tidy st l"
    and "vs_task os clock ms (st, l) ch = Some (st', l')"
  shows "alive l' = {} \<and> kept_dirs l' = {} \<and> left_dirs l' \<subseteq> refused_dirs l' \<and> vs_nodes st' = []"
proof -
  from assms(4) obtain st1 l1 ch1 where
    d: "drain (vs_process os clock) ms (st, l) ch = Some ((st1, l1), ch1)" and
    s: "vs_stop os st1 l1 = Returned st' l'"
    by (auto simp: vs_task_def split: option.splits outcome.splits)
  note inv = vs.drain_invariant [where I = vs_tidy, OF vs_handle_tidy [OF assms(1)] assms(2,3) d [unfolded vs_process_eq]]
  have "vs_tidy st1 l1" by (rule inv)
  from vs_stop_clean [OF s this] left_dirs_none show ?thesis by blast
qed

definition sample_vs_messages :: "vs_msg list" where
  "sample_vs_messages = [Vs_Start [sample_vs_config 2, sample_vs_config 3], Vs_Version 0,
     Vs_Stop_Node (localhost 3) 1, Vs_Start_Node (sample_vs_config 3)]"

lemmas sample_vs_evaluation = io_process_def then_unit_def io_bind_def io_return_def io_assert_def perform_def
  expect_success_def expect_pid_def expect_dir_def vs_start_def vs_start_one_def vs_start_node_def vs_stop_def
  drop_nodes_def
  vs_stop_node_def vs_run_node_def write_password_def credentials_def vs_kill_def kill_child_def drop_dir_def
  vs_node_new_def calm_os_def sample_vs_def sample_vs_config_def localhost_def next_pid_def log_pid_def

theorem vs_task_leaves_nothing_witness:
  "\<exists>st l. vs_task calm_os (\<lambda>_ _. 1) sample_vs_messages (sample_vs, []) (\<lambda>_. Awaited) = Some (st, l) \<and>
     l \<noteq> [] \<and> alive l = {} \<and> left_dirs l = {}"
proof -
  have "case vs_task calm_os (\<lambda>_ _. 1) sample_vs_messages (sample_vs, []) (\<lambda>_. Awaited) of
    Some (st, l) \<Rightarrow> l \<noteq> [] \<and> list_all (\<lambda>(e, r). r \<noteq> Failed) l | None \<Rightarrow> False"
    unfolding vs_task_def sample_vs_messages_def by (simp add: vs_process_eq sample_vs_evaluation)
  then obtain st l where t: "vs_task calm_os (\<lambda>_ _. 1) sample_vs_messages (sample_vs, []) (\<lambda>_. Awaited) = Some (st, l)"
    and "l \<noteq> []" and "list_all (\<lambda>(e, r). r \<noteq> Failed) l" by (auto split: option.splits)
  moreover from this(3) have "refused_dirs l = {}" by (auto simp: refused_dirs_def list_all_iff)
  moreover have "allowed_run (vs_handle calm_os (\<lambda>_ _. 1)) vs_polite sample_vs_messages sample_vs []"
    unfolding sample_vs_messages_def by (simp add: sample_vs_evaluation)
  moreover have "vs_tidy sample_vs []" by (simp add: vs_tidy_def alive_def kept_dirs_def)
  ultimately show ?thesis using vs_task_leaves_nothing [OF calm_os_fresh _ _ t] by blast
qed

end
