(* ===== verification/Firewall.thy ===== *)
theory Firewall
  imports Actors Effects
begin

text \<open>
  The firewall fixture, \<open>crates/e2etest-firewall/src/lib.rs\<close>: blackhole routes for the addresses
  whose traffic is dropped, the listing of the routes and the actor.  What is behind the netlink
  socket of \<open>neli\<close> is a parameter: it takes a request and its state to a result and its next state.
  Nothing is assumed of it; the properties are about the requests that the code sends, which a
  \<open>recording\<close> socket keeps.  Of the log only the lines for active routes are kept, as data.
\<close>

section \<open>Netlink messages\<close>

datatype rt_table = Table_Main | Table_Unspec | Table_Other nat

datatype rtn = Rtn_Unspec | Rtn_Blackhole | Rtn_Other nat

datatype rta = Rta_Dst | Rta_Other nat

datatype rt_family = Af_Inet | Af_Other nat

datatype rt_protocol = Prot_Unspec | Prot_Other nat

datatype rt_scope = Scope_Universe | Scope_Other nat

record rtmsg =
  rtm_family :: rt_family
  rtm_dst_len :: "8 word"
  rtm_src_len :: "8 word"
  rtm_tos :: "8 word"
  rtm_table :: rt_table
  rtm_protocol :: rt_protocol
  rtm_scope :: rt_scope
  rtm_type :: rtn
  rtattrs :: "(rta \<times> 8 word list) list"

datatype nl_flag = Nl_Request | Nl_Create | Nl_Replace | Nl_Dump | Nl_Ack

datatype nl_request =
    Newroute "nl_flag set" rtmsg
  | Delroute "nl_flag set" rtmsg
  | Getroute "nl_flag set" rtmsg

text \<open>
  \<open>Nl_Failed\<close> is an error of \<open>send\<close>.  The answers to a dump may be errors, route messages, with or
  without a payload, or messages of other types.
\<close>

datatype nl_answer = Answer_Error | Answer_Route "rtmsg option" | Answer_Other

datatype nl_result = Nl_Failed | Nl_Sent "nl_answer list"

type_synonym 'k kernel = "nl_request \<Rightarrow> 'k \<Rightarrow> nl_result \<times> 'k"

section \<open>Operations\<close>

definition blackhole_route :: "ipv4 \<Rightarrow> rtmsg" where
  "blackhole_route ip = \<lparr>rtm_family = Af_Inet, rtm_dst_len = 32, rtm_src_len = 0, rtm_tos = 0,
     rtm_table = Table_Main, rtm_protocol = Prot_Unspec, rtm_scope = Scope_Universe, rtm_type = Rtn_Blackhole, rtattrs = [(Rta_Dst, octets ip)]\<rparr>"

definition sent_ok :: "nl_result \<times> 'k \<Rightarrow> bool \<times> 'k" where
  "sent_ok x = (fst x \<noteq> Nl_Failed, snd x)"

definition add_request :: "ipv4 \<Rightarrow> nl_request" where
  "add_request ip = Newroute {Nl_Request, Nl_Create, Nl_Replace} (blackhole_route ip)"

definition remove_request :: "ipv4 \<Rightarrow> nl_request" where
  "remove_request ip = Delroute {Nl_Request} (blackhole_route ip)"

definition add_unreachable_route :: "'k kernel \<Rightarrow> ipv4 \<Rightarrow> 'k \<Rightarrow> bool \<times> 'k" where
  "add_unreachable_route nl ip k = sent_ok (nl (add_request ip) k)"

definition remove_unreachable_route :: "'k kernel \<Rightarrow> ipv4 \<Rightarrow> 'k \<Rightarrow> bool \<times> 'k" where
  "remove_unreachable_route nl ip k = sent_ok (nl (remove_request ip) k)"

text \<open>The loops go on after an error, which is only logged.\<close>

fun drop_traffic :: "'k kernel \<Rightarrow> ipv4 list \<Rightarrow> 'k \<Rightarrow> 'k" where
  "drop_traffic nl [] k = k"
| "drop_traffic nl (ip # ips) k =
     (case add_unreachable_route nl ip k of (ok, k') \<Rightarrow> drop_traffic nl ips k')"

fun turn_off_rules :: "'k kernel \<Rightarrow> ipv4 list \<Rightarrow> 'k \<Rightarrow> 'k" where
  "turn_off_rules nl [] k = k"
| "turn_off_rules nl (ip # ips) k =
     (case remove_unreachable_route nl ip k of (ok, k') \<Rightarrow> turn_off_rules nl ips k')"

section \<open>Listing the routes\<close>

datatype ip_addr = V4 ipv4 | V6 "8 word list"

definition to_addr :: "8 word list \<Rightarrow> ip_addr option" where
  "to_addr b = (case b of
      [b0, b1, b2, b3] \<Rightarrow> Some (V4 (Ipv4 b0 b1 b2 b3))
    | _ \<Rightarrow> if length b = 16 then Some (V6 b) else None)"

datatype route_dst = Dst ip_addr "8 word" | Default_Route

datatype route_line = Active_Route rt_table route_dst rtn

text \<open>The last attribute of type \<open>Dst\<close> wins, also one that is no address.\<close>

fun last_dst :: "(rta \<times> 8 word list) list \<Rightarrow> ip_addr option \<Rightarrow> ip_addr option" where
  "last_dst [] dst = dst"
| "last_dst ((t, b) # attrs) dst = last_dst attrs (if t = Rta_Dst then to_addr b else dst)"

definition parse_route_table :: "rtmsg option \<Rightarrow> route_line list" where
  "parse_route_table rtm = (case rtm of
      Some payload \<Rightarrow>
        [Active_Route (rtm_table payload)
           (case last_dst (rtattrs payload) None of
              Some dst \<Rightarrow> Dst dst (rtm_dst_len payload) | None \<Rightarrow> Default_Route)
           (rtm_type payload)]
    | None \<Rightarrow> [])"

text \<open>The loop over the answers of a dump ends at the first error; what was logged stays.\<close>

fun log_answers :: "nl_answer list \<Rightarrow> route_line list" where
  "log_answers [] = []"
| "log_answers (Answer_Error # as) = []"
| "log_answers (Answer_Route rtm # as) = parse_route_table rtm @ log_answers as"
| "log_answers (Answer_Other # as) = log_answers as"

definition dump_request :: nl_request where
  "dump_request = Getroute {Nl_Dump} \<lparr>rtm_family = Af_Inet, rtm_dst_len = 0, rtm_src_len = 0, rtm_tos = 0,
     rtm_table = Table_Unspec, rtm_protocol = Prot_Unspec, rtm_scope = Scope_Universe, rtm_type = Rtn_Unspec,
     rtattrs = []\<rparr>"

definition log_routes :: "'k kernel \<Rightarrow> 'k \<Rightarrow> route_line list \<times> 'k" where
  "log_routes nl k = (case nl dump_request k of
      (Nl_Failed, k') \<Rightarrow> ([], k') | (Nl_Sent as, k') \<Rightarrow> (log_answers as, k'))"

section \<open>The actor\<close>

record 'k firewall =
  disabled_ips :: "ipv4 list"
  fw_kernel :: 'k
  fw_lines :: "route_line list"

datatype fw_msg = Drop_Traffic "ipv4 list" reply_id | Turn_Off_Rules reply_id

fun fw_reply_to :: "fw_msg \<Rightarrow> reply_id option" where
  "fw_reply_to (Drop_Traffic ips tx) = Some tx"
| "fw_reply_to (Turn_Off_Rules tx) = Some tx"

definition fw_log_routes :: "'k kernel \<Rightarrow> 'k firewall \<Rightarrow> 'k firewall" where
  "fw_log_routes nl fw = (case log_routes nl (fw_kernel fw) of
      (ls, k) \<Rightarrow> fw\<lparr>fw_kernel := k, fw_lines := fw_lines fw @ ls\<rparr>)"

text \<open>\<open>process\<close>, arm by arm; the answer is sent after the routes were listed.\<close>

fun fw_process :: "'k kernel \<Rightarrow> (fw_msg, 'k firewall, unit) process" where
  "fw_process nl (Drop_Traffic ips tx) fw ch =
     (let fw = fw\<lparr>disabled_ips := [], fw_kernel := turn_off_rules nl (disabled_ips fw) (fw_kernel fw)\<rparr>;
          fw = fw\<lparr>disabled_ips := ips\<rparr>;
          fw = fw\<lparr>fw_kernel := drop_traffic nl (disabled_ips fw) (fw_kernel fw)\<rparr>;
          fw = fw_log_routes nl fw
      in send_reply tx () fw ch)"
| "fw_process nl (Turn_Off_Rules tx) fw ch =
     (let fw = fw\<lparr>disabled_ips := [], fw_kernel := turn_off_rules nl (disabled_ips fw) (fw_kernel fw)\<rparr>;
          fw = fw_log_routes nl fw
      in send_reply tx () fw ch)"

definition fw_start :: "'k \<Rightarrow> 'k firewall" where
  "fw_start k = \<lparr>disabled_ips = [], fw_kernel = k, fw_lines = []\<rparr>"

text \<open>The task: \<open>NlRouter::connect(..).unwrap()\<close>, then the loop, with nothing after it.\<close>

definition fw_task :: "'k kernel \<Rightarrow> 'k option \<Rightarrow> fw_msg list \<Rightarrow> unit channels \<Rightarrow> 'k firewall option" where
  "fw_task nl socket msgs ch =
     (case socket of None \<Rightarrow> None | Some k \<Rightarrow> map_option fst (drain (fw_process nl) msgs (fw_start k) ch))"

definition ext_drop_traffic :: "'k kernel \<Rightarrow> ipv4 list \<Rightarrow> 'k firewall \<Rightarrow> 'k firewall option" where
  "ext_drop_traffic nl ips s = map_option snd (ask (fw_process nl) (Drop_Traffic ips) s)"

definition ext_turn_off_rules :: "'k kernel \<Rightarrow> 'k firewall \<Rightarrow> 'k firewall option" where
  "ext_turn_off_rules nl s = map_option snd (ask (fw_process nl) Turn_Off_Rules s)"

section \<open>The contract of the actor\<close>

text \<open>What a message does to the state; it always comes to its end.\<close>

fun fw_next :: "'k kernel \<Rightarrow> fw_msg \<Rightarrow> 'k firewall \<Rightarrow> 'k firewall" where
  "fw_next nl (Drop_Traffic ips tx) fw = fw_log_routes nl (fw\<lparr>disabled_ips := ips,
     fw_kernel := drop_traffic nl ips (turn_off_rules nl (disabled_ips fw) (fw_kernel fw))\<rparr>)"
| "fw_next nl (Turn_Off_Rules tx) fw = fw_log_routes nl (fw\<lparr>disabled_ips := [],
     fw_kernel := turn_off_rules nl (disabled_ips fw) (fw_kernel fw)\<rparr>)"

lemma fw_process_eq:
  "fw_process nl m fw ch = (case fw_reply_to m of None \<Rightarrow> Some (fw_next nl m fw, ch)
     | Some tx \<Rightarrow> send_reply tx () (fw_next nl m fw) ch)"
  by (cases m) (simp_all add: Let_def)

interpretation fw: strict_actor "fw_process nl" fw_reply_to "\<lambda>_ _. ()" "fw_next nl" "\<lambda>_ _. True" for nl
  by unfold_locales (auto simp: fw_process_eq send_reply_def split: option.splits)

lemma fw_log_routes_ips [simp]: "disabled_ips (fw_log_routes nl fw) = disabled_ips fw"
  by (simp add: fw_log_routes_def split: prod.splits)

section \<open>The requests that are sent\<close>

text \<open>A socket that keeps the requests it was given, with their results.\<close>

definition recording :: "'k kernel \<Rightarrow> ('k \<times> (nl_request \<times> nl_result) list) kernel" where
  "recording nl r x = (case nl r (fst x) of (res, k) \<Rightarrow> (res, (k, snd x @ [(r, res)])))"

text \<open>Lifting the old addresses, adding the new ones, listing the routes.\<close>

fun fw_requests :: "ipv4 list \<Rightarrow> fw_msg list \<Rightarrow> nl_request list" where
  "fw_requests old [] = []"
| "fw_requests old (Drop_Traffic ips tx # ms) =
     map remove_request old @ map add_request ips @ dump_request # fw_requests ips ms"
| "fw_requests old (Turn_Off_Rules tx # ms) = map remove_request old @ dump_request # fw_requests [] ms"

fun asked_to_drop :: "fw_msg \<Rightarrow> ipv4 list" where
  "asked_to_drop (Drop_Traffic ips tx) = ips"
| "asked_to_drop (Turn_Off_Rules tx) = []"

text \<open>The routes that a list of requests asks for, when each is carried out.\<close>

fun route_step :: "nl_request \<Rightarrow> rtmsg set \<Rightarrow> rtmsg set" where
  "route_step (Newroute fs m) R = insert m R"
| "route_step (Delroute fs m) R = R - {m}"
| "route_step (Getroute fs m) R = R"

lemma recorded_drop_traffic:
  "map fst (snd (drop_traffic (recording nl) ips x)) = map fst (snd x) @ map add_request ips"
  by (induction ips arbitrary: x)
    (simp_all add: add_unreachable_route_def sent_ok_def recording_def case_prod_unfold)

lemma recorded_turn_off_rules:
  "map fst (snd (turn_off_rules (recording nl) ips x)) = map fst (snd x) @ map remove_request ips"
  by (induction ips arbitrary: x)
    (simp_all add: remove_unreachable_route_def sent_ok_def recording_def case_prod_unfold)

lemma recorded_log_routes:
  "map fst (snd (fw_kernel (fw_log_routes (recording nl) fw))) = map fst (snd (fw_kernel fw)) @ [dump_request]"
  by (auto simp: fw_log_routes_def log_routes_def recording_def split: prod.splits nl_result.splits)

lemma fw_next_ips: "disabled_ips (fw_next nl m fw) = asked_to_drop m"
  by (cases m) simp_all

lemma fw_states:
  "map fst (snd (fw_kernel (fw.states_after (recording nl) ms fw))) =
     map fst (snd (fw_kernel fw)) @ fw_requests (disabled_ips fw) ms \<and>
   disabled_ips (fw.states_after (recording nl) ms fw) = (if ms = [] then disabled_ips fw else asked_to_drop (last ms))"
proof (induction ms arbitrary: fw)
  case (Cons m ms)
  have "map fst (snd (fw_kernel (fw_next (recording nl) m fw))) @ fw_requests (asked_to_drop m) ms =
      map fst (snd (fw_kernel fw)) @ fw_requests (disabled_ips fw) (m # ms)"
    by (cases m) (simp_all add: recorded_log_routes recorded_drop_traffic recorded_turn_off_rules)
  with Cons.IH [of "fw_next (recording nl) m fw"] show ?case by (simp add: fw_next_ips)
qed simp

lemma fold_remove: "fold route_step (map remove_request ips) R = R - blackhole_route ` set ips"
  by (induction ips arbitrary: R) (auto simp: remove_request_def)

lemma fold_add: "fold route_step (map add_request ips) R = R \<union> blackhole_route ` set ips"
  by (induction ips arbitrary: R) (auto simp: add_request_def)

lemma fw_requests_routes:
  "fold route_step (fw_requests old ms) (blackhole_route ` set old) =
     blackhole_route ` set (if ms = [] then old else asked_to_drop (last ms))"
proof (induction ms arbitrary: old)
  case (Cons m ms)
  have "fold route_step (fw_requests old (m # ms)) (blackhole_route ` set old) =
      fold route_step (fw_requests (asked_to_drop m) ms) (blackhole_route ` set (asked_to_drop m))"
    by (cases m) (simp_all add: fold_remove fold_add dump_request_def)
  with Cons.IH show ?case by simp
qed simp

text \<open>
  C32.  The firewall handles every message, however the calls of its socket end, and answers all who
  wait on a channel of their own.  The requests that it sends are determined by the messages: for each
  message the addresses of the one before it are lifted first, then its own are added, and the routes
  listed.  Carried out, they leave in force exactly the blackhole routes of the addresses that the last
  message asks to drop, which are the addresses that the actor holds.  Whether the kernel carries them
  out the code does not ask.
\<close>

theorem firewall_requests:
  assumes "distinct (List.map_filter fw_reply_to ms)" and "\<forall>i \<in> set (List.map_filter fw_reply_to ms). ch i = Awaited"
  shows "\<exists>fw ch'. drain (fw_process (recording nl)) ms (fw_start (k, [])) ch = Some (fw, ch') \<and>
    (\<forall>i \<in> set (List.map_filter fw_reply_to ms). oneshot_expect i ch' = Some ()) \<and>
    map fst (snd (fw_kernel fw)) = fw_requests [] ms \<and>
    disabled_ips fw = (if ms = [] then [] else asked_to_drop (last ms)) \<and>
    fold route_step (map fst (snd (fw_kernel fw))) {} = blackhole_route ` set (disabled_ips fw)"
proof -
  let ?s = "fw_start (k, [])"
  have "fw.all_valid (recording nl) ms s" for s
    by (induction ms arbitrary: s) auto
  with fw.drain_answers [of "recording nl" ms ?s ch] assms obtain ch' where
    d: "drain (fw_process (recording nl)) ms ?s ch = Some (fw.states_after (recording nl) ms ?s, ch')" and
    ans: "\<forall>xs m ys i. ms = xs @ m # ys \<longrightarrow> fw_reply_to m = Some i \<longrightarrow> ch' i = Answered ()" by auto
  have "oneshot_expect i ch' = Some ()" if i: "i \<in> set (List.map_filter fw_reply_to ms)" for i
  proof -
    from i obtain m where "m \<in> set ms" "fw_reply_to m = Some i" by (auto simp: List.map_filter_def)
    with ans have "ch' i = Answered ()" by (metis split_list)
    then show ?thesis by (simp add: oneshot_expect_def)
  qed
  moreover note fw_states [of nl ms ?s] fw_requests_routes [of "[]" ms]
  ultimately show ?thesis
    using d by (intro exI [of _ "fw.states_after (recording nl) ms ?s"] exI [of _ ch']) (simp add: fw_start_def)
qed

text \<open>A kernel that keeps the set of blocked addresses and answers a dump with its routes.\<close>

definition first_dst :: "rtmsg \<Rightarrow> ipv4" where
  "first_dst m = (case last_dst (rtattrs m) None of Some (V4 ip) \<Rightarrow> ip | _ \<Rightarrow> Ipv4 0 0 0 0)"

fun sample_kernel :: "ipv4 list kernel" where
  "sample_kernel (Newroute fs m) k = (Nl_Sent [], first_dst m # k)"
| "sample_kernel (Delroute fs m) k = (Nl_Sent [], removeAll (first_dst m) k)"
| "sample_kernel (Getroute fs m) k = (Nl_Sent (map (\<lambda>ip. Answer_Route (Some (blackhole_route ip))) k), k)"

lemma first_dst_blackhole [simp]: "first_dst (blackhole_route ip) = ip"
  by (cases ip) (simp add: first_dst_def blackhole_route_def to_addr_def)

theorem firewall_requests_witness:
  "\<exists>fw ch. drain (fw_process (recording sample_kernel)) [Drop_Traffic [Ipv4 127 0 0 2, Ipv4 127 0 0 3] 0,
       Drop_Traffic [Ipv4 127 0 0 3] 1] (fw_start ([], [])) (\<lambda>_. Awaited) = Some (fw, ch) \<and>
     oneshot_expect 1 ch = Some () \<and> disabled_ips fw = [Ipv4 127 0 0 3] \<and>
     fold route_step (map fst (snd (fw_kernel fw))) {} = {blackhole_route (Ipv4 127 0 0 3)}"
  using firewall_requests [of "[Drop_Traffic [Ipv4 127 0 0 2, Ipv4 127 0 0 3] 0, Drop_Traffic [Ipv4 127 0 0 3] 1]"
      "\<lambda>_. Awaited" sample_kernel "[]"]
  by (fastforce simp: List.map_filter_simps)

text \<open>
  No request asks for an acknowledgement, so that one that was sent and that the kernel refuses, for
  lack of the capability, counts as done: the client is told that the traffic is dropped.
\<close>

lemma no_acknowledgement:
  "r \<in> set (fw_requests old ms) \<Longrightarrow> case r of Newroute fs m \<Rightarrow> Nl_Ack \<notin> fs | Delroute fs m \<Rightarrow> Nl_Ack \<notin> fs
     | Getroute fs m \<Rightarrow> Nl_Ack \<notin> fs"
  by (induction old ms rule: fw_requests.induct) (auto simp: add_request_def remove_request_def dump_request_def)

lemma refused_route_goes_unnoticed:
  assumes "\<And>r. nl r k = (Nl_Sent [], k)"
  shows "ext_drop_traffic nl ips (fw_start k) = Some \<lparr>disabled_ips = ips, fw_kernel = k, fw_lines = []\<rparr>"
proof -
  have "drop_traffic nl ips k = k"
    by (induction ips) (simp_all add: add_unreachable_route_def sent_ok_def assms)
  then show ?thesis
    by (simp add: ext_drop_traffic_def ask_def fw_start_def Let_def send_reply_def oneshot_expect_def
        fw_log_routes_def log_routes_def assms)
qed

text \<open>The actor ends without lifting its routes.\<close>

lemma firewall_leaves_routes:
  "\<exists>fw. fw_task sample_kernel (Some []) [Drop_Traffic [Ipv4 127 0 0 2] 0] (\<lambda>_. Awaited) = Some fw \<and>
     set (fw_kernel fw) = {Ipv4 127 0 0 2}"
  by (simp add: fw_task_def Let_def send_reply_def fw_log_routes_def log_routes_def dump_request_def
      add_unreachable_route_def add_request_def sent_ok_def fw_start_def)

section \<open>The lines of the listing\<close>

lemma last_dst_append: "last_dst (xs @ ys) d = last_dst ys (last_dst xs d)"
  by (induction xs d rule: last_dst.induct) auto

lemma last_dst_none: "(\<forall>b. (Rta_Dst, b) \<notin> set attrs) \<Longrightarrow> last_dst attrs d = d"
  by (induction attrs d rule: last_dst.induct) auto

definition answer_lines :: "nl_answer \<Rightarrow> route_line list" where
  "answer_lines a = (case a of Answer_Route rtm \<Rightarrow> parse_route_table rtm | _ \<Rightarrow> [])"

lemma log_answers_until_error:
  "log_answers as = concat (map answer_lines (takeWhile (\<lambda>a. a \<noteq> Answer_Error) as))"
  by (induction as rule: log_answers.induct) (simp_all add: answer_lines_def)

lemma to_addr_None: "to_addr b = None \<longleftrightarrow> length b \<noteq> 4 \<and> length b \<noteq> 16"
  by (auto simp: to_addr_def split: list.splits)

text \<open>
  C33.  Listing the routes logs a line for each route that the kernel lists before its first error,
  whatever else it answers.  The line names the last destination among the attributes of the route,
  whatever attributes stand before and after it, and the default route when there is none or when the
  last one is neither four nor sixteen bytes long; the bytes that the firewall sends for an address
  are read back as this address.
\<close>

theorem listed_routes:
  "fst (log_routes nl k) = (case fst (nl dump_request k) of Nl_Failed \<Rightarrow> []
     | Nl_Sent as \<Rightarrow> concat (map answer_lines (takeWhile (\<lambda>a. a \<noteq> Answer_Error) as))) \<and>
   ((\<forall>b. (Rta_Dst, b) \<notin> set (rtattrs m)) \<longrightarrow>
      parse_route_table (Some m) = [Active_Route (rtm_table m) Default_Route (rtm_type m)]) \<and>
   (rtattrs m = xs @ (Rta_Dst, b) # ys \<and> (\<forall>c. (Rta_Dst, c) \<notin> set ys) \<longrightarrow>
      parse_route_table (Some m) = [Active_Route (rtm_table m)
        (case to_addr b of Some a \<Rightarrow> Dst a (rtm_dst_len m) | None \<Rightarrow> Default_Route) (rtm_type m)]) \<and>
   to_addr (octets ip) = Some (V4 ip) \<and> (to_addr b = None \<longleftrightarrow> length b \<noteq> 4 \<and> length b \<noteq> 16)"
proof -
  have "to_addr (octets ip) = Some (V4 ip)" by (cases ip) (simp add: to_addr_def)
  then show ?thesis
    by (auto simp: log_routes_def log_answers_until_error parse_route_table_def last_dst_none last_dst_append to_addr_None
        split: prod.splits nl_result.splits)
qed

theorem listed_routes_witness:
  "parse_route_table (Some ((blackhole_route (Ipv4 10 0 0 1))\<lparr>rtattrs :=
       [(Rta_Other 15, [254, 0, 0, 0]), (Rta_Dst, octets (Ipv4 10 0 0 1)), (Rta_Other 6, [0, 0, 0, 1])]\<rparr>)) =
     [Active_Route Table_Main (Dst (V4 (Ipv4 10 0 0 1)) 32) Rtn_Blackhole]"
proof -
  let ?m = "(blackhole_route (Ipv4 10 0 0 1))\<lparr>rtattrs :=
    [(Rta_Other 15, [254, 0, 0, 0]), (Rta_Dst, octets (Ipv4 10 0 0 1)), (Rta_Other 6, [0, 0, 0, 1])]\<rparr>"
  show ?thesis
    using listed_routes [of sample_kernel "[]" ?m "[(Rta_Other 15, [254, 0, 0, 0])]" "octets (Ipv4 10 0 0 1)"
        "[(Rta_Other 6, [0, 0, 0, 1])]" "Ipv4 10 0 0 1"]
    by (simp add: blackhole_route_def)
qed

end
