(* ===== verification/Dns.thy ===== *)
theory Dns
  imports Cluster_Actors
begin

text \<open>
  The DNS fixture, \<open>crates/e2etest-dns/src/lib.rs\<close>: the zone, the records that are removed and
  upserted, and the actor.  The names and the zone handler of \<open>hickory-server\<close> are parameters, and
  so is whether the build checks for overflow, which Rust does by default only in debug builds.
\<close>

section \<open>Data\<close>

definition ZONE :: string where
  "ZONE = ''validator.test.''"

definition TTL :: "32 word" where
  "TTL = 60"

text \<open>\<open>'n\<close> are names, \<open>'l\<close> names in lower case, \<open>'z\<close> zone handlers.\<close>

datatype 'n rdata = Rdata_Soa 'n 'n nat nat nat nat nat | Rdata_A "8 word" "8 word" "8 word" "8 word"

datatype record_type = Type_A | Type_Soa

datatype dns_class = Class_In

record 'n dns_record =
  rec_name :: 'n
  rec_ttl :: "32 word"
  rec_data :: "'n rdata"
  rec_class :: dns_class

record ('n, 'l, 'z) hickory =
  name_from_str :: "string \<Rightarrow> 'n option"
  lower_name_from_str :: "string \<Rightarrow> 'l option"
  root_name :: 'n
  zone_empty :: "'n \<Rightarrow> 'z"
  zone_upsert :: "'n dns_record \<Rightarrow> 32 word \<Rightarrow> 'z \<Rightarrow> 'z"
  zone_remove :: "'l \<times> record_type \<Rightarrow> 'z \<Rightarrow> 'z"
  hickory_version :: string

record 'z dns =
  dns_version :: string
  dns_authority :: 'z
  dns_serial :: "32 word"

section \<open>Operations\<close>

text \<open>\<open>State::new\<close>, which panics when the zone is no name.\<close>

definition dns_new :: "('n, 'l, 'z) hickory \<Rightarrow> 'z dns option" where
  "dns_new h = (case name_from_str h ZONE of
      None \<Rightarrow> None
    | Some zone \<Rightarrow>
        (let soa = \<lparr>rec_name = zone, rec_ttl = TTL, rec_data = Rdata_Soa zone (root_name h) 0 0 0 0 0,
           rec_class = Class_In\<rparr>
         in Some \<lparr>dns_version = ''hickory-server-'' @ hickory_version h,
              dns_authority = zone_upsert h soa 0 (zone_empty h zone), dns_serial = 0\<rparr>))"

text \<open>\<open>new\<close> listens on a loopback address only, and panics when it cannot.\<close>

definition dns_listen :: "('n, 'l, 'z) hickory \<Rightarrow> (ipv4 \<Rightarrow> bool) \<Rightarrow> ipv4 \<Rightarrow> 'z dns option" where
  "dns_listen h bind_ok ip =
     (if is_loopback ip then
        (case dns_new h of
           None \<Rightarrow> None
         | Some st \<Rightarrow> if bind_ok ip \<and> lower_name_from_str h ZONE \<noteq> None then Some st else None)
      else None)"

definition full_name :: "string \<Rightarrow> string" where
  "full_name name = name @ ''.'' @ ZONE"

definition dns_remove :: "('n, 'l, 'z) hickory \<Rightarrow> string \<Rightarrow> 'z dns \<Rightarrow> 'z dns option" where
  "dns_remove h name st = (case lower_name_from_str h (full_name name) of
      None \<Rightarrow> None
    | Some key \<Rightarrow> Some (st\<lparr>dns_authority := zone_remove h (key, Type_A) (dns_authority st)\<rparr>))"

text \<open>\<open>state.serial += 1\<close>.\<close>

definition add_one :: "bool \<Rightarrow> 32 word \<Rightarrow> 32 word option" where
  "add_one checked n = (if checked \<and> n = - 1 then None else Some (n + 1))"

definition a_record :: "'n \<Rightarrow> ipv4 \<Rightarrow> 'n dns_record" where
  "a_record name ip = (case ip of Ipv4 a b c d \<Rightarrow>
     \<lparr>rec_name = name, rec_ttl = TTL, rec_data = Rdata_A a b c d, rec_class = Class_In\<rparr>)"

definition dns_upsert :: "bool \<Rightarrow> ('n, 'l, 'z) hickory \<Rightarrow> string \<Rightarrow> ipv4 \<Rightarrow> 'z dns \<Rightarrow> 'z dns option" where
  "dns_upsert checked h name ip st = (case name_from_str h (full_name name) of
      None \<Rightarrow> None
    | Some n \<Rightarrow>
        (case add_one checked (dns_serial st) of
           None \<Rightarrow> None
         | Some succ_serial \<Rightarrow> Some (st\<lparr>dns_serial := succ_serial,
             dns_authority := zone_upsert h (a_record n ip) (dns_serial st) (dns_authority st)\<rparr>)))"

section \<open>The actor\<close>

datatype dns_msg =
    Dns_Version reply_id
  | Dns_Domain reply_id
  | Dns_Remove string
  | Dns_Upsert string ipv4

fun dns_reply_to :: "dns_msg \<Rightarrow> reply_id option" where
  "dns_reply_to (Dns_Version tx) = Some tx"
| "dns_reply_to (Dns_Domain tx) = Some tx"
| "dns_reply_to (Dns_Remove name) = None"
| "dns_reply_to (Dns_Upsert name ip) = None"

fun dns_handle :: "bool \<Rightarrow> ('n, 'l, 'z) hickory \<Rightarrow> dns_msg \<Rightarrow> 'z dns \<Rightarrow> ('z dns \<times> string) option" where
  "dns_handle checked h (Dns_Version tx) st = Some (st, dns_version st)"
| "dns_handle checked h (Dns_Domain tx) st = Some (st, take (length ZONE - 1) ZONE)"
| "dns_handle checked h (Dns_Remove name) st = map_option (\<lambda>st. (st, [])) (dns_remove h name st)"
| "dns_handle checked h (Dns_Upsert name ip) st = map_option (\<lambda>st. (st, [])) (dns_upsert checked h name ip st)"

fun dns_process :: "bool \<Rightarrow> ('n, 'l, 'z) hickory \<Rightarrow> (dns_msg, 'z dns, string) process" where
  "dns_process checked h (Dns_Version tx) st ch = send_reply tx (dns_version st) st ch"
| "dns_process checked h (Dns_Domain tx) st ch = send_reply tx (take (length ZONE - 1) ZONE) st ch"
| "dns_process checked h (Dns_Remove name) st ch = map_option (\<lambda>st. (st, ch)) (dns_remove h name st)"
| "dns_process checked h (Dns_Upsert name ip) st ch = map_option (\<lambda>st. (st, ch)) (dns_upsert checked h name ip st)"

declare dns_process.simps [simp del]

lemma dns_process_eq: "dns_process checked h = reply_process (dns_handle checked h) dns_reply_to"
proof (intro ext)
  fix m st ch
  show "dns_process checked h m st ch = reply_process (dns_handle checked h) dns_reply_to m st ch"
    by (cases m) (auto simp: dns_process.simps reply_process_def send_reply_def split: option.splits)
qed

text \<open>The task: the loop, then the graceful shutdown of the server, which must succeed.\<close>

definition dns_task ::
    "bool \<Rightarrow> ('n, 'l, 'z) hickory \<Rightarrow> bool \<Rightarrow> dns_msg list \<Rightarrow> 'z dns \<Rightarrow> string channels \<Rightarrow> 'z dns option" where
  "dns_task checked h shutdown_ok msgs st ch =
     (case drain (dns_process checked h) msgs st ch of
        None \<Rightarrow> None
      | Some (st', ch') \<Rightarrow> if shutdown_ok then Some st' else None)"

definition ext_dns_version :: "bool \<Rightarrow> ('n, 'l, 'z) hickory \<Rightarrow> 'z dns \<Rightarrow> (string \<times> 'z dns) option" where
  "ext_dns_version checked h s = ask (dns_process checked h) Dns_Version s"

definition ext_dns_domain :: "bool \<Rightarrow> ('n, 'l, 'z) hickory \<Rightarrow> 'z dns \<Rightarrow> (string \<times> 'z dns) option" where
  "ext_dns_domain checked h s = ask (dns_process checked h) Dns_Domain s"

definition ext_dns_remove :: "bool \<Rightarrow> ('n, 'l, 'z) hickory \<Rightarrow> string \<Rightarrow> 'z dns \<Rightarrow> 'z dns option" where
  "ext_dns_remove checked h name s = tell (dns_process checked h) (Dns_Remove name) s"

definition ext_dns_upsert :: "bool \<Rightarrow> ('n, 'l, 'z) hickory \<Rightarrow> string \<Rightarrow> ipv4 \<Rightarrow> 'z dns \<Rightarrow> 'z dns option" where
  "ext_dns_upsert checked h name ip s = tell (dns_process checked h) (Dns_Upsert name ip) s"

interpretation dns: strict_actor "dns_process checked h" dns_reply_to "reply_answer (dns_handle checked h)"
  "reply_next (dns_handle checked h)" "reply_valid (dns_handle checked h)" for checked h
  unfolding dns_process_eq by (rule reply_strict_actor)

section \<open>The addresses of a name\<close>

text \<open>
  What \<open>hickory-server\<close> documents of a zone: an upserted address is found under its name in lower
  case, a removed key has no addresses, and the other keys keep theirs.
\<close>

definition zone_laws :: "('n, 'l, 'z) hickory \<Rightarrow> ('n \<Rightarrow> 'l) \<Rightarrow> ('z \<Rightarrow> 'l \<Rightarrow> ipv4 set) \<Rightarrow> bool" where
  "zone_laws h lower addresses \<longleftrightarrow>
     (\<forall>s n. name_from_str h s = Some n \<longrightarrow> lower_name_from_str h s = Some (lower n)) \<and>
     (\<forall>n ip serial z. ip \<in> addresses (zone_upsert h (a_record n ip) serial z) (lower n)) \<and>
     (\<forall>n ip serial z l. l \<noteq> lower n \<longrightarrow> addresses (zone_upsert h (a_record n ip) serial z) l = addresses z l) \<and>
     (\<forall>z l. addresses (zone_remove h (l, Type_A) z) l = {}) \<and>
     (\<forall>z k l. l \<noteq> k \<longrightarrow> addresses (zone_remove h (k, Type_A) z) l = addresses z l)"

text \<open>
  C34.  An upserted name resolves to its address, under the zone, and a removed one does not resolve;
  no other name is touched.  Each upsert takes the next serial number: the count of upserts so far,
  until it leaves 32 bits, when a debug build panics and a release build starts again at 0.
\<close>

theorem dns_upsert_and_remove:
  assumes "zone_laws h lower addresses" and "name_from_str h (full_name name) = Some n"
  shows "(case ext_dns_upsert checked h name ip st of
      None \<Rightarrow> checked \<and> unat (dns_serial st) = 2 ^ 32 - 1
    | Some st1 \<Rightarrow> ip \<in> addresses (dns_authority st1) (lower n) \<and>
        (\<forall>l. l \<noteq> lower n \<longrightarrow> addresses (dns_authority st1) l = addresses (dns_authority st) l) \<and>
        unat (dns_serial st1) = (unat (dns_serial st) + 1) mod 2 ^ 32 \<and>
        (\<exists>st2. ext_dns_remove checked h name st1 = Some st2 \<and>
           addresses (dns_authority st2) (lower n) = {} \<and> dns_serial st2 = dns_serial st1 \<and>
           (\<forall>l. l \<noteq> lower n \<longrightarrow> addresses (dns_authority st2) l = addresses (dns_authority st) l)))"
proof (cases "add_one checked (dns_serial st)")
  case None
  then have "checked" "dns_serial st = - 1" by (auto simp: add_one_def split: if_splits)
  moreover have "unat (- 1 :: 32 word) = 2 ^ 32 - 1" by (simp add: unsigned_minus_1_eq_mask mask_eq_exp_minus_1)
  moreover have "ext_dns_upsert checked h name ip st = None"
    using None assms(2) by (simp add: ext_dns_upsert_def dns_process_eq tell_reply dns_upsert_def)
  ultimately show ?thesis by simp
next
  case (Some succ_serial)
  let ?st1 = "st\<lparr>dns_serial := succ_serial,
    dns_authority := zone_upsert h (a_record n ip) (dns_serial st) (dns_authority st)\<rparr>"
  let ?st2 = "?st1\<lparr>dns_authority := zone_remove h (lower n, Type_A) (dns_authority ?st1)\<rparr>"
  have lower: "lower_name_from_str h (full_name name) = Some (lower n)"
    using assms by (simp add: zone_laws_def)
  have up: "ext_dns_upsert checked h name ip st = Some ?st1"
    using Some assms(2) by (simp add: ext_dns_upsert_def dns_process_eq tell_reply dns_upsert_def)
  have rm: "ext_dns_remove checked h name ?st1 = Some ?st2"
    using lower by (simp add: ext_dns_remove_def dns_process_eq tell_reply dns_remove_def)
  have "succ_serial = dns_serial st + 1" using Some by (simp add: add_one_def split: if_splits)
  then have "unat succ_serial = (unat (dns_serial st) + 1) mod 2 ^ 32" by (simp add: unat_word_ariths)
  with up rm assms(1) show ?thesis by (simp add: zone_laws_def)
qed

text \<open>A zone handler that keeps a list of addresses.\<close>

definition sample_zone :: "(string, string, (string \<times> ipv4) list) hickory" where
  "sample_zone = \<lparr>name_from_str = Some, lower_name_from_str = Some, root_name = [], zone_empty = (\<lambda>_. []),
     zone_upsert = (\<lambda>r serial z. case rec_data r of
        Rdata_A a b c d \<Rightarrow> (rec_name r, Ipv4 a b c d) # z | _ \<Rightarrow> z),
     zone_remove = (\<lambda>k z. filter (\<lambda>x. fst x \<noteq> fst k) z), hickory_version = ''0.25''\<rparr>"

definition sample_addresses :: "(string \<times> ipv4) list \<Rightarrow> string \<Rightarrow> ipv4 set" where
  "sample_addresses z l = {ip. (l, ip) \<in> set z}"

lemma sample_zone_laws: "zone_laws sample_zone (\<lambda>n. n) sample_addresses"
  by (auto simp: zone_laws_def sample_zone_def sample_addresses_def a_record_def split: ipv4.splits)

theorem dns_upsert_and_remove_witness:
  "\<exists>st st1. dns_listen sample_zone (\<lambda>_. True) (Ipv4 127 0 0 53) = Some st \<and>
     ext_dns_upsert True sample_zone ''db1'' (Ipv4 127 0 0 1) st = Some st1 \<and>
     Ipv4 127 0 0 1 \<in> sample_addresses (dns_authority st1) ''db1.validator.test.'' \<and> dns_serial st1 = 1"
proof -
  let ?st = "\<lparr>dns_version = ''hickory-server-0.25'', dns_authority = [], dns_serial = 0\<rparr> ::
    (string \<times> ipv4) list dns"
  have st: "dns_listen sample_zone (\<lambda>_. True) (Ipv4 127 0 0 53) = Some ?st"
    by (simp add: dns_listen_def dns_new_def sample_zone_def)
  have name: "name_from_str sample_zone (full_name ''db1'') = Some ''db1.validator.test.''"
    by (simp add: sample_zone_def full_name_def ZONE_def)
  obtain st1 where up: "ext_dns_upsert True sample_zone ''db1'' (Ipv4 127 0 0 1) ?st = Some st1" "dns_serial st1 = 1"
    by (simp add: ext_dns_upsert_def dns_process_eq tell_reply dns_upsert_def name add_one_def)
  from dns_upsert_and_remove [OF sample_zone_laws name, where checked = True and ip = "Ipv4 127 0 0 1" and st = ?st] up st show ?thesis by auto
qed

end
