(* ===== verification/Tls.thy ===== *)
theory Tls
  imports Cluster_Actors
begin

text \<open>
  The TLS fixture, \<open>crates/e2etest-tls/src/lib.rs\<close>: a self-signed certificate for a list of
  addresses in two files, the configuration of a client that trusts it, and the actor that hands
  them out.  \<open>rcgen\<close> and \<open>rustls\<close> are parameters: the generation of a certificate and its key in
  PEM, the certificates of a PEM text, and the configuration over a store of certificates.
\<close>

section \<open>Data\<close>

record ('c, 'f) tls_api =
  generate_simple_self_signed :: "string list \<Rightarrow> (string \<times> string) option"
  pem_certificates :: "string \<Rightarrow> 'c list option"
  client_config :: "'c list \<Rightarrow> 'f"

record 'f tls =
  tls_cert_path :: path
  tls_key_path :: path
  tls_config :: 'f

definition READABLE :: nat where
  "READABLE = 6 * 8 * 8 + 4 * 8 + 4"

text \<open>\<open>.expect(..)\<close> on what a library returns.\<close>

definition io_expect :: "'a option \<Rightarrow> 'a io" where
  "io_expect v = (case v of Some x \<Rightarrow> io_return x | None \<Rightarrow> io_panic)"

definition expect_body :: "os \<Rightarrow> effect \<Rightarrow> string io" where
  "expect_body os e = io_bind (perform os e) (\<lambda>r. case r of Body s \<Rightarrow> io_return s | _ \<Rightarrow> io_panic)"

section \<open>Starting\<close>

definition temp_file_with :: "os \<Rightarrow> string \<Rightarrow> path io" where
  "temp_file_with os content =
     io_bind (expect_dir os Temp_File) (\<lambda>p.
     io_bind (expect_success os (Write_File p content)) (\<lambda>_. io_return p))"

definition tls_new :: "os \<Rightarrow> ('c, 'f) tls_api \<Rightarrow> ipv4 list \<Rightarrow> 'f tls io" where
  "tls_new os api ips =
     io_bind (io_expect (generate_simple_self_signed api (map show_ipv4 ips))) (\<lambda>(cert, signing_key).
     io_bind (temp_file_with os cert) (\<lambda>cert_file.
     io_bind (temp_file_with os signing_key) (\<lambda>key_file.
     io_bind (expect_success os (Set_Mode cert_file READABLE)) (\<lambda>_.
     io_bind (expect_success os (Set_Mode key_file READABLE)) (\<lambda>_.
     io_bind (expect_body os (Read_File cert_file)) (\<lambda>cert_pem.
     io_bind (io_expect (pem_certificates api cert_pem)) (\<lambda>ca_der.
     io_return \<lparr>tls_cert_path = cert_file, tls_key_path = key_file, tls_config = client_config api ca_der\<rparr>)))))))"

section \<open>The actor\<close>

datatype tls_msg = Cert_Path reply_id | Key_Path reply_id | Client_Tls_Config reply_id

datatype 'f tls_reply = Reply_Path path | Reply_Config 'f

text \<open>\<open>_ = tx.send(..)\<close>.\<close>

definition send_or_drop :: "reply_id \<Rightarrow> 'r \<Rightarrow> 'r channels \<Rightarrow> 'r channels" where
  "send_or_drop i r ch = (case oneshot_send i r ch of Some ch' \<Rightarrow> ch' | None \<Rightarrow> ch)"

fun tls_process :: "(tls_msg, 'f tls, 'f tls_reply) process" where
  "tls_process (Cert_Path tx) s ch = Some (s, send_or_drop tx (Reply_Path (tls_cert_path s)) ch)"
| "tls_process (Key_Path tx) s ch = Some (s, send_or_drop tx (Reply_Path (tls_key_path s)) ch)"
| "tls_process (Client_Tls_Config tx) s ch = Some (s, send_or_drop tx (Reply_Config (tls_config s)) ch)"

text \<open>When the loop ends both temporary files are dropped, which removes them and ignores errors.\<close>

definition tls_task ::
    "os \<Rightarrow> tls_msg list \<Rightarrow> 'f tls \<times> effect_log \<Rightarrow> 'f tls_reply channels \<Rightarrow>
     (effect_log \<times> 'f tls_reply channels) option" where
  "tls_task os msgs s ch =
     (case drain tls_process msgs (fst s) ch of
        None \<Rightarrow> None
      | Some (st, ch') \<Rightarrow>
          (case io_bind (perform os (Remove_File (tls_cert_path st)))
              (\<lambda>_. perform os (Remove_File (tls_key_path st))) (snd s) of
             Returned _ l \<Rightarrow> Some (l, ch') | _ \<Rightarrow> None))"

fun tls_reply_to :: "tls_msg \<Rightarrow> reply_id option" where
  "tls_reply_to (Cert_Path tx) = Some tx"
| "tls_reply_to (Key_Path tx) = Some tx"
| "tls_reply_to (Client_Tls_Config tx) = Some tx"

fun tls_answer :: "tls_msg \<Rightarrow> 'f tls \<Rightarrow> 'f tls_reply" where
  "tls_answer (Cert_Path tx) s = Reply_Path (tls_cert_path s)"
| "tls_answer (Key_Path tx) s = Reply_Path (tls_key_path s)"
| "tls_answer (Client_Tls_Config tx) s = Reply_Config (tls_config s)"

definition ext_cert_path :: "'f tls \<Rightarrow> (path \<times> 'f tls) option" where
  "ext_cert_path s = (case ask tls_process Cert_Path s of Some (Reply_Path p, s') \<Rightarrow> Some (p, s') | _ \<Rightarrow> None)"

definition ext_key_path :: "'f tls \<Rightarrow> (path \<times> 'f tls) option" where
  "ext_key_path s = (case ask tls_process Key_Path s of Some (Reply_Path p, s') \<Rightarrow> Some (p, s') | _ \<Rightarrow> None)"

definition ext_client_tls_config :: "'f tls \<Rightarrow> ('f \<times> 'f tls) option" where
  "ext_client_tls_config s =
     (case ask tls_process Client_Tls_Config s of Some (Reply_Config c, s') \<Rightarrow> Some (c, s') | _ \<Rightarrow> None)"

lemma tls_process_answer:
  "tls_process m s ch = Some (s, send_or_drop (the (tls_reply_to m)) (tls_answer m s) ch)"
  by (cases m) auto

interpretation tls: actor tls_process tls_reply_to tls_answer "\<lambda>m s. s" "\<lambda>m s. True"
proof
  fix m and s :: "'a tls" and ch :: "'a tls_reply channels"
  assume "\<And>i. tls_reply_to m = Some i \<Longrightarrow> ch i = Awaited"
  then show "tls_process m s ch = Some (s, case tls_reply_to m of None \<Rightarrow> ch | Some i \<Rightarrow> ch(i := Answered (tls_answer m s)))"
    by (cases m) (auto simp: send_or_drop_def)
qed (auto simp: tls_process_answer)

text \<open>
  C36.  Clients that give up do not hurt the others: the actor of the certificates never panics,
  every request of a client that still waits is answered with the path or the configuration that
  was made at the start, and a channel whose client has gone is left alone.  When all clients have
  gone the two files are removed.
\<close>

theorem tls_answers_all_who_wait:
  assumes "distinct (List.map_filter tls_reply_to ms)"
  shows "\<exists>ch' l'. drain tls_process ms st ch = Some (st, ch') \<and> tls_task os ms (st, l) ch = Some (l', ch') \<and>
    map fst l' = map fst l @ [Remove_File (tls_cert_path st), Remove_File (tls_key_path st)] \<and>
    (\<forall>m \<in> set ms. \<forall>i. tls_reply_to m = Some i \<longrightarrow>
       (ch i = Awaited \<longrightarrow> oneshot_expect i ch' = Some (tls_answer m st)) \<and>
       (ch i = Receiver_Gone \<longrightarrow> ch' i = Receiver_Gone))"
proof -
  have "\<exists>ch'. drain tls_process ms st ch = Some (st, ch') \<and>
      (\<forall>i. i \<notin> set (List.map_filter tls_reply_to ms) \<longrightarrow> ch' i = ch i) \<and>
      (\<forall>m \<in> set ms. \<forall>i. tls_reply_to m = Some i \<longrightarrow> ch' i = send_or_drop i (tls_answer m st) ch i)"
    using assms
  proof (induction ms arbitrary: ch)
    case (Cons m ms)
    obtain i where i: "tls_reply_to m = Some i" by (cases m) auto
    let ?ch = "send_or_drop i (tls_answer m st) ch"
    have ms: "distinct (List.map_filter tls_reply_to ms)" "i \<notin> set (List.map_filter tls_reply_to ms)"
      using Cons.prems i by (simp_all add: List.map_filter_simps)
    from Cons.IH [OF ms(1), of ?ch] obtain ch' where
      d: "drain tls_process ms st ?ch = Some (st, ch')" and
      rest: "\<forall>j. j \<notin> set (List.map_filter tls_reply_to ms) \<longrightarrow> ch' j = ?ch j" and
      ans: "\<forall>m' \<in> set ms. \<forall>j. tls_reply_to m' = Some j \<longrightarrow> ch' j = send_or_drop j (tls_answer m' st) ?ch j" by blast
    have other: "?ch j = ch j" if "j \<noteq> i" for j
      using that by (auto simp: send_or_drop_def oneshot_send_def split: oneshot.splits)
    have "j \<noteq> i" if "m' \<in> set ms" "tls_reply_to m' = Some j" for m' j
      using that ms(2) by (force simp: List.map_filter_def)
    then have "ch' j = send_or_drop j (tls_answer m' st) ch j" if "m' \<in> set ms" "tls_reply_to m' = Some j" for m' j
      using ans that other by (auto simp: send_or_drop_def oneshot_send_def split: oneshot.splits)
    with d rest ms(2) other i show ?case
      by (intro exI [of _ ch']) (auto simp: tls_process_answer [of m] List.map_filter_simps)
  qed simp
  then obtain ch' where d: "drain tls_process ms st ch = Some (st, ch')" and
    ans: "\<forall>m \<in> set ms. \<forall>i. tls_reply_to m = Some i \<longrightarrow> ch' i = send_or_drop i (tls_answer m st) ch i" by blast
  have "(ch i = Awaited \<longrightarrow> oneshot_expect i ch' = Some (tls_answer m st)) \<and>
      (ch i = Receiver_Gone \<longrightarrow> ch' i = Receiver_Gone)" if "m \<in> set ms" "tls_reply_to m = Some i" for m i
    using ans that by (auto simp: send_or_drop_def oneshot_expect_def)
  moreover have "\<exists>l'. tls_task os ms (st, l) ch = Some (l', ch') \<and>
      map fst l' = map fst l @ [Remove_File (tls_cert_path st), Remove_File (tls_key_path st)]"
    by (simp add: tls_task_def d io_bind_def perform_def)
  ultimately show ?thesis using d by blast
qed

theorem tls_answers_all_who_wait_witness:
  "\<exists>l ch. tls_task (\<lambda>l e. Success) [Cert_Path 0, Key_Path 1]
     (\<lparr>tls_cert_path = ''/tmp/c'', tls_key_path = ''/tmp/k'', tls_config = ()\<rparr>, []) ((\<lambda>_. Awaited)(0 := Receiver_Gone)) =
     Some (l, ch) \<and> map fst l = [Remove_File ''/tmp/c'', Remove_File ''/tmp/k''] \<and>
     oneshot_expect 1 ch = Some (Reply_Path ''/tmp/k'')"
proof -
  have "distinct (List.map_filter tls_reply_to [Cert_Path 0, Key_Path 1])" by (simp add: List.map_filter_simps)
  from tls_answers_all_who_wait [OF this, of "\<lparr>tls_cert_path = ''/tmp/c'', tls_key_path = ''/tmp/k'', tls_config = ()\<rparr>"
      "(\<lambda>_. Awaited)(0 := Receiver_Gone)" "\<lambda>l e. Success" "[]"]
  show ?thesis by auto
qed

section \<open>The files\<close>

definition write_step :: "path \<Rightarrow> effect \<times> response \<Rightarrow> string option \<Rightarrow> string option" where
  "write_step p x c = (case fst x of
      Write_File q s \<Rightarrow> if q = p \<and> snd x = Success then Some s else c | _ \<Rightarrow> c)"

lemma write_step_simps [simp]:
  "write_step p (Write_File q s, Success) c = (if q = p then Some s else c)"
  "write_step p (Temp_File, r) c = c" "write_step p (Set_Mode q n, r) c = c" "write_step p (Read_File q, r) c = c"
  by (simp_all add: write_step_def)

definition last_written :: "path \<Rightarrow> effect_log \<Rightarrow> string option" where
  "last_written p l = fold (write_step p) l None"

lemma last_written_append [simp]: "last_written p (l @ m) = fold (write_step p) m (last_written p l)"
  by (simp add: last_written_def)

text \<open>A file keeps what was written last, and a temporary file is not handed out twice.\<close>

definition files_kept :: "os \<Rightarrow> bool" where
  "files_kept os \<longleftrightarrow>
     (\<forall>l p c d. last_written p l = Some c \<longrightarrow> os l (Read_File p) = Body d \<longrightarrow> d = c) \<and>
     (\<forall>l p. os l Temp_File = Dir_Path p \<longrightarrow> (Temp_File, Dir_Path p) \<notin> set l)"

lemma expect_body_iff [io_simps]:
  "expect_body os e l = Returned s l' \<longleftrightarrow> os l e = Body s \<and> l' = l @ [(e, Body s)]"
  by (auto simp: expect_body_def io_bind_iff perform_iff io_return_iff io_panic_iff split: response.splits)

lemma io_expect_iff [io_simps]: "io_expect v l = Returned x l' \<longleftrightarrow> v = Some x \<and> l' = l"
  by (auto simp: io_expect_def io_return_iff io_panic_iff split: option.splits)

lemma temp_file_with_iff [io_simps]:
  "temp_file_with os s l = Returned p l' \<longleftrightarrow> os l Temp_File = Dir_Path p \<and>
     os (l @ [(Temp_File, Dir_Path p)]) (Write_File p s) = Success \<and>
     l' = (l @ [(Temp_File, Dir_Path p)]) @ [(Write_File p s, Success)]"
  by (auto simp: temp_file_with_def io_bind_iff expect_dir_iff expect_success_iff io_return_iff)

text \<open>
  C37.  A client that is configured by the fixture trusts exactly the certificate that the fixture
  made for the addresses it was given: the certificate and the key lie in two different files that
  every user can read, and the configuration is made of what the file of the certificate holds.
\<close>

theorem tls_config_trusts_the_certificate:
  assumes "files_kept os" and "tls_new os api ips l = Returned st l'"
  shows "\<exists>cert key certs. generate_simple_self_signed api (map show_ipv4 ips) = Some (cert, key) \<and>
    last_written (tls_cert_path st) l' = Some cert \<and> last_written (tls_key_path st) l' = Some key \<and>
    tls_cert_path st \<noteq> tls_key_path st \<and> pem_certificates api cert = Some certs \<and>
    tls_config st = client_config api certs \<and>
    {(Set_Mode (tls_cert_path st) 420, Success), (Set_Mode (tls_key_path st) 420, Success)} \<subseteq> set l'"
proof -
  from assms(2) obtain cert key cf kf pem certs l1 l2 l3 l4 where
    gen: "generate_simple_self_signed api (map show_ipv4 ips) = Some (cert, key)" and
    c: "temp_file_with os cert l = Returned cf l1" and k: "temp_file_with os key l1 = Returned kf l2" and
    l3: "l3 = l2 @ [(Set_Mode cf READABLE, Success)]" and l4: "l4 = l3 @ [(Set_Mode kf READABLE, Success)]" and
    r: "os l4 (Read_File cf) = Body pem" and l': "l' = l4 @ [(Read_File cf, Body pem)]" and
    der: "pem_certificates api pem = Some certs" and
    st: "st = \<lparr>tls_cert_path = cf, tls_key_path = kf, tls_config = client_config api certs\<rparr>"
    by (auto simp: tls_new_def io_bind_iff io_expect_iff expect_success_iff expect_body_iff io_return_iff)
  have "(Temp_File, Dir_Path cf) \<in> set l1" using c by (auto simp: temp_file_with_iff)
  with k assms(1) have ne: "cf \<noteq> kf" by (auto simp: temp_file_with_iff files_kept_def)
  have w1: "last_written cf l1 = Some cert" using c by (auto simp: temp_file_with_iff)
  have w: "last_written cf l2 = Some cert" "last_written kf l2 = Some key"
    using k ne w1 by (auto simp: temp_file_with_iff)
  then have "last_written cf l4 = Some cert" by (simp add: l3 l4)
  with r assms(1) have "pem = cert" unfolding files_kept_def by blast
  with gen w ne der st l3 l4 l' show ?thesis by (simp add: READABLE_def)
qed

definition sample_tls_api :: "(string, string list) tls_api" where
  "sample_tls_api = \<lparr>generate_simple_self_signed = (\<lambda>names. Some (concat names, ''key'')),
     pem_certificates = (\<lambda>pem. Some [pem]), client_config = (\<lambda>certs. certs)\<rparr>"

definition file_os :: "effect_log \<Rightarrow> effect \<Rightarrow> response" where
  "file_os l e = (case e of
      Temp_File \<Rightarrow> Dir_Path (replicate (Suc (foldr max (map (\<lambda>x. case snd x of Dir_Path p \<Rightarrow> length p | _ \<Rightarrow> 0) l) 0)) (CHR ''f''))
    | Read_File p \<Rightarrow> (case last_written p l of Some c \<Rightarrow> Body c | None \<Rightarrow> Failed)
    | _ \<Rightarrow> Success)"

lemma file_os_kept: "files_kept file_os"
proof -
  have less: "x \<in> set l \<Longrightarrow> f x < Suc (foldr max (map f l) 0)" for f :: "effect \<times> response \<Rightarrow> nat" and x l
    by (induction l) (auto simp: less_Suc_eq_le le_max_iff_disj)
  have "(Temp_File, Dir_Path (replicate (Suc (foldr max (map (\<lambda>x. case snd x of Dir_Path p \<Rightarrow> length p | _ \<Rightarrow> 0) l) 0)) (CHR ''f''))) \<notin> set l"
    for l using less [of "(Temp_File, Dir_Path p)" l "\<lambda>x. case snd x of Dir_Path p \<Rightarrow> length p | _ \<Rightarrow> 0" for p] by fastforce
  then show ?thesis by (auto simp: files_kept_def file_os_def)
qed

theorem tls_config_trusts_the_certificate_witness:
  "\<exists>st l. tls_new file_os sample_tls_api [Ipv4 127 0 0 1] [] = Returned st l \<and> tls_config st = [''127.0.0.1'']"
proof -
  have show1: "show_ipv4 (Ipv4 127 0 0 1) = ''127.0.0.1''" by code_simp
  have "\<exists>st l. tls_new file_os sample_tls_api [Ipv4 127 0 0 1] [] = Returned st l"
    by (simp add: tls_new_def temp_file_with_def expect_dir_def expect_success_def expect_body_def io_expect_def
        io_bind_def io_return_def io_assert_def perform_def file_os_def sample_tls_api_def last_written_def)
  then obtain st l where run: "tls_new file_os sample_tls_api [Ipv4 127 0 0 1] [] = Returned st l" by blast
  from tls_config_trusts_the_certificate [OF file_os_kept run] have "tls_config st = [''127.0.0.1'']"
    using show1 by (auto simp del: show_ipv4.simps simp: sample_tls_api_def)
  with run show ?thesis by blast
qed

end
