(* ===== verification/Proxy.thy ===== *)
theory Proxy
  imports Cluster_Actors
begin

text \<open>
  The fixture of ScyllaDB proxies, \<open>crates/e2etest-scylla-proxy-cluster/src/lib.rs\<close>: starting and
  stopping the proxy, changing its rules and the actor.  \<open>scylla-proxy\<close> is a parameter: how a proxy
  runs and finishes in a world, its nodes and what changing a rule does to them.
\<close>

section \<open>Data\<close>

definition PROXY_CQL_PORT :: "16 word" where
  "PROXY_CQL_PORT = 9042"

record proxy_node_config =
  pc_real_addr :: ipv4
  pc_proxy_addr :: ipv4

datatype shard_awareness = Unaware | Query_Node

record proxy_node =
  pn_real :: socket_addr
  pn_proxy :: socket_addr
  pn_shard_awareness :: shard_awareness

type_synonym translation = "(socket_addr \<times> socket_addr) list"

text \<open>\<open>'p\<close> are running proxies, \<open>'n\<close> their nodes, \<open>'q\<close> and \<open>'a\<close> rules for requests and answers.\<close>

record ('p, 'n, 'q, 'a, 'w) proxy_api =
  api_translation :: "proxy_node list \<Rightarrow> translation"
  api_run :: "proxy_node list \<Rightarrow> 'w \<Rightarrow> 'p option \<times> 'w"
  api_finish :: "'p \<Rightarrow> 'w \<Rightarrow> bool \<times> 'w"
  api_nodes :: "'p \<Rightarrow> 'n list"
  api_with_nodes :: "'n list \<Rightarrow> 'p \<Rightarrow> 'p"
  api_change_request :: "'q list option \<Rightarrow> 'n \<Rightarrow> 'n"
  api_change_response :: "'a list option \<Rightarrow> 'n \<Rightarrow> 'n"
  api_turn_off :: "'p \<Rightarrow> 'p"

section \<open>Operations\<close>

text \<open>\<open>proxy.take()\<close>; an error of \<open>finish\<close> is only logged.\<close>

definition proxy_stop :: "('p, 'n, 'q, 'a, 'w) proxy_api \<Rightarrow> 'p option \<times> 'w \<Rightarrow> 'p option \<times> 'w" where
  "proxy_stop api s = (case s of
      (None, w) \<Rightarrow> (None, w)
    | (Some p, w) \<Rightarrow> (case api_finish api p w of (ok, w') \<Rightarrow> (None, w')))"

definition proxy_node_of :: "proxy_node_config \<Rightarrow> proxy_node" where
  "proxy_node_of cfg = \<lparr>pn_real = (pc_real_addr cfg, PROXY_CQL_PORT), pn_proxy = (pc_proxy_addr cfg, PROXY_CQL_PORT),
     pn_shard_awareness = Query_Node\<rparr>"

definition proxy_start ::
    "('p, 'n, 'q, 'a, 'w) proxy_api \<Rightarrow> proxy_node_config list \<Rightarrow> 'p option \<times> 'w \<Rightarrow> ('p option \<times> 'w) \<times> translation" where
  "proxy_start api cfgs s =
     (if cfgs = [] then (s, [])
      else let s1 = proxy_stop api s; nodes = map proxy_node_of cfgs in
        (api_run api nodes (snd s1), api_translation api nodes))"

definition proxy_change_request_rules ::
    "('p, 'n, 'q, 'a, 'w) proxy_api \<Rightarrow> 'q list option \<Rightarrow> 'p option \<times> 'w \<Rightarrow> 'p option \<times> 'w" where
  "proxy_change_request_rules api rules s = (case s of
      (None, w) \<Rightarrow> (None, w)
    | (Some p, w) \<Rightarrow> (Some (api_with_nodes api (map (api_change_request api rules) (api_nodes api p)) p), w))"

definition proxy_change_response_rules ::
    "('p, 'n, 'q, 'a, 'w) proxy_api \<Rightarrow> 'a list option \<Rightarrow> 'p option \<times> 'w \<Rightarrow> 'p option \<times> 'w" where
  "proxy_change_response_rules api rules s = (case s of
      (None, w) \<Rightarrow> (None, w)
    | (Some p, w) \<Rightarrow> (Some (api_with_nodes api (map (api_change_response api rules) (api_nodes api p)) p), w))"

definition proxy_turn_off_rules ::
    "('p, 'n, 'q, 'a, 'w) proxy_api \<Rightarrow> 'p option \<times> 'w \<Rightarrow> 'p option \<times> 'w" where
  "proxy_turn_off_rules api s = (case s of
      (None, w) \<Rightarrow> (None, w) | (Some p, w) \<Rightarrow> (Some (api_turn_off api p), w))"

section \<open>The actor\<close>

datatype ('q, 'a) proxy_msg =
    Proxy_Start "proxy_node_config list" reply_id
  | Proxy_Stop reply_id
  | Change_Request_Rules "'q list option" reply_id
  | Change_Response_Rules "'a list option" reply_id
  | Proxy_Turn_Off_Rules reply_id

datatype proxy_reply = Proxy_Map translation | Proxy_Done

fun proxy_reply_to :: "('q, 'a) proxy_msg \<Rightarrow> reply_id option" where
  "proxy_reply_to (Proxy_Start cfgs tx) = Some tx"
| "proxy_reply_to (Proxy_Stop tx) = Some tx"
| "proxy_reply_to (Change_Request_Rules rules tx) = Some tx"
| "proxy_reply_to (Change_Response_Rules rules tx) = Some tx"
| "proxy_reply_to (Proxy_Turn_Off_Rules tx) = Some tx"

fun proxy_handle ::
    "('p, 'n, 'q, 'a, 'w) proxy_api \<Rightarrow> ('q, 'a) proxy_msg \<Rightarrow> 'p option \<times> 'w \<Rightarrow> (('p option \<times> 'w) \<times> proxy_reply) option" where
  "proxy_handle api (Proxy_Start cfgs tx) s =
     (case proxy_start api cfgs s of (s', m) \<Rightarrow> Some (s', Proxy_Map m))"
| "proxy_handle api (Proxy_Stop tx) s = Some (proxy_stop api s, Proxy_Done)"
| "proxy_handle api (Change_Request_Rules rules tx) s = Some (proxy_change_request_rules api rules s, Proxy_Done)"
| "proxy_handle api (Change_Response_Rules rules tx) s = Some (proxy_change_response_rules api rules s, Proxy_Done)"
| "proxy_handle api (Proxy_Turn_Off_Rules tx) s = Some (proxy_turn_off_rules api s, Proxy_Done)"

fun proxy_process ::
    "('p, 'n, 'q, 'a, 'w) proxy_api \<Rightarrow> (('q, 'a) proxy_msg, 'p option \<times> 'w, proxy_reply) process" where
  "proxy_process api (Proxy_Start cfgs tx) s ch =
     (case proxy_start api cfgs s of (s', m) \<Rightarrow> send_reply tx (Proxy_Map m) s' ch)"
| "proxy_process api (Proxy_Stop tx) s ch = send_reply tx Proxy_Done (proxy_stop api s) ch"
| "proxy_process api (Change_Request_Rules rules tx) s ch =
     send_reply tx Proxy_Done (proxy_change_request_rules api rules s) ch"
| "proxy_process api (Change_Response_Rules rules tx) s ch =
     send_reply tx Proxy_Done (proxy_change_response_rules api rules s) ch"
| "proxy_process api (Proxy_Turn_Off_Rules tx) s ch = send_reply tx Proxy_Done (proxy_turn_off_rules api s) ch"

declare proxy_process.simps [simp del]

lemma proxy_process_eq: "proxy_process api = reply_process (proxy_handle api) proxy_reply_to"
proof (intro ext)
  fix m s ch
  show "proxy_process api m s ch = reply_process (proxy_handle api) proxy_reply_to m s ch"
    by (cases m) (simp_all add: proxy_process.simps reply_process_def send_reply_def split: prod.splits)
qed

definition proxy_task ::
    "('p, 'n, 'q, 'a, 'w) proxy_api \<Rightarrow> ('q, 'a) proxy_msg list \<Rightarrow> 'w \<Rightarrow> proxy_reply channels \<Rightarrow> ('p option \<times> 'w) option" where
  "proxy_task api msgs w ch = (case drain (proxy_process api) msgs (None, w) ch of
      None \<Rightarrow> None | Some (s, ch') \<Rightarrow> Some (proxy_stop api s))"

definition ext_proxy_start ::
    "('p, 'n, 'q, 'a, 'w) proxy_api \<Rightarrow> proxy_node_config list \<Rightarrow> 'p option \<times> 'w \<Rightarrow> (translation \<times> ('p option \<times> 'w)) option" where
  "ext_proxy_start api cfgs s = (case ask (proxy_process api) (Proxy_Start cfgs) s of
      Some (Proxy_Map m, s') \<Rightarrow> Some (m, s') | _ \<Rightarrow> None)"

definition ext_proxy_stop :: "('p, 'n, 'q, 'a, 'w) proxy_api \<Rightarrow> 'p option \<times> 'w \<Rightarrow> ('p option \<times> 'w) option" where
  "ext_proxy_stop api s = map_option snd (ask (proxy_process api) Proxy_Stop s)"

definition ext_change_request_rules ::
    "('p, 'n, 'q, 'a, 'w) proxy_api \<Rightarrow> 'q list option \<Rightarrow> 'p option \<times> 'w \<Rightarrow> ('p option \<times> 'w) option" where
  "ext_change_request_rules api rules s = map_option snd (ask (proxy_process api) (Change_Request_Rules rules) s)"

definition ext_change_response_rules ::
    "('p, 'n, 'q, 'a, 'w) proxy_api \<Rightarrow> 'a list option \<Rightarrow> 'p option \<times> 'w \<Rightarrow> ('p option \<times> 'w) option" where
  "ext_change_response_rules api rules s = map_option snd (ask (proxy_process api) (Change_Response_Rules rules) s)"

definition ext_proxy_turn_off_rules ::
    "('p, 'n, 'q, 'a, 'w) proxy_api \<Rightarrow> 'p option \<times> 'w \<Rightarrow> ('p option \<times> 'w) option" where
  "ext_proxy_turn_off_rules api s = map_option snd (ask (proxy_process api) Proxy_Turn_Off_Rules s)"

interpretation proxy: strict_actor "proxy_process api" proxy_reply_to "reply_answer (proxy_handle api)"
  "reply_next (proxy_handle api)" "reply_valid (proxy_handle api)" for api
  unfolding proxy_process_eq by (rule reply_strict_actor)

section \<open>One proxy at a time\<close>

text \<open>
  \<open>running\<close> counts the proxies of a world: one more after a \<open>run\<close> that succeeds, one less after a
  \<open>finish\<close>, the same after a \<open>run\<close> that fails.
\<close>

definition proxy_laws :: "('p, 'n, 'q, 'a, 'w) proxy_api \<Rightarrow> ('w \<Rightarrow> nat) \<Rightarrow> bool" where
  "proxy_laws api running \<longleftrightarrow>
     (\<forall>nodes w. running (snd (api_run api nodes w)) = running w + (if fst (api_run api nodes w) = None then 0 else 1)) \<and>
     (\<forall>p w. running (snd (api_finish api p w)) = running w - 1)"

definition one_proxy :: "('w \<Rightarrow> nat) \<Rightarrow> 'p option \<times> 'w \<Rightarrow> bool" where
  "one_proxy running s \<longleftrightarrow> running (snd s) = (if fst s = None then 0 else 1)"

lemma proxy_stop_running:
  "proxy_laws api running \<Longrightarrow> one_proxy running s \<Longrightarrow>
     fst (proxy_stop api s) = None \<and> running (snd (proxy_stop api s)) = 0"
  by (auto simp: proxy_stop_def proxy_laws_def one_proxy_def split: prod.splits option.splits) (metis snd_conv diff_self_eq_0)

lemma proxy_handle_one:
  assumes "proxy_laws api running" and "one_proxy running s" and "proxy_handle api m s = Some (s', r)"
  shows "one_proxy running s'"
proof (cases m)
  case (Proxy_Start cfgs tx)
  let ?x = "api_run api (map proxy_node_of cfgs) (snd (proxy_stop api s))"
  have "running (snd ?x) = (if fst ?x = None then 0 else 1)"
    using assms(1) proxy_stop_running [OF assms(1,2)] unfolding proxy_laws_def by simp
  moreover have "s' = (if cfgs = [] then s else ?x)"
    using assms(3) Proxy_Start by (auto simp: proxy_start_def Let_def)
  ultimately show ?thesis using assms(2) by (simp add: one_proxy_def)
next
  case (Proxy_Stop tx)
  with assms(3) proxy_stop_running [OF assms(1,2)] show ?thesis by (auto simp: one_proxy_def)
qed (use assms in \<open>auto simp: one_proxy_def proxy_change_request_rules_def proxy_change_response_rules_def
    proxy_turn_off_rules_def split: option.splits prod.splits\<close>)

text \<open>
  C35.  Whatever is asked of the actor, at most one proxy runs, and exactly when the actor holds it;
  a start replaces the proxy before it, and after the end of the actor none runs.
\<close>

theorem proxy_runs_at_most_once:
  assumes "proxy_laws api running" and "running w = 0"
  shows "(\<forall>s ch'. drain (proxy_process api) msgs (None, w) ch = Some (s, ch') \<longrightarrow>
      running (snd s) = (if fst s = None then 0 else 1)) \<and>
    (\<forall>s. proxy_task api msgs w ch = Some s \<longrightarrow> running (snd s) = 0)"
proof -
  have start: "one_proxy running (None, w)" using assms(2) by (simp add: one_proxy_def)
  have inv: "one_proxy running s" if "drain (proxy_process api) msgs (None, w) ch = Some (s, ch')" for s ch'
    using reply_drain_invariant [where I = "one_proxy running", OF proxy_handle_one [OF assms(1)] start]
      that by (simp add: proxy_process_eq)
  moreover have "running (snd s) = 0" if "proxy_task api msgs w ch = Some s" for s
    using that inv proxy_stop_running [OF assms(1)] by (auto simp: proxy_task_def split: option.splits)
  ultimately show ?thesis by (auto simp: one_proxy_def)
qed

text \<open>A proxy is its nodes with their rules, a world the number of proxies that run.\<close>

definition sample_proxy ::
    "((proxy_node \<times> nat list option \<times> nat list option) list, proxy_node \<times> nat list option \<times> nat list option, nat, nat, nat)
       proxy_api" where
  "sample_proxy = \<lparr>api_translation = map (\<lambda>n. (pn_real n, pn_proxy n)), api_run = (\<lambda>ns w. (Some (map (\<lambda>n. (n, None, None)) ns), w + 1)),
     api_finish = (\<lambda>p w. (True, w - 1)), api_nodes = (\<lambda>p. p), api_with_nodes = (\<lambda>ns p. ns),
     api_change_request = (\<lambda>rules n. (fst n, rules, snd (snd n))),
     api_change_response = (\<lambda>rules n. (fst n, fst (snd n), rules)),
     api_turn_off = map (\<lambda>n. (fst n, None, None))\<rparr>"

theorem proxy_runs_at_most_once_witness:
  "\<exists>s. proxy_task sample_proxy [Proxy_Start [\<lparr>pc_real_addr = Ipv4 127 0 0 1, pc_proxy_addr = Ipv4 127 0 0 2\<rparr>] 0,
       Change_Request_Rules (Some [1]) 1, Proxy_Start [\<lparr>pc_real_addr = Ipv4 127 0 0 3, pc_proxy_addr = Ipv4 127 0 0 4\<rparr>] 2]
     0 (\<lambda>_. Awaited) = Some s \<and> snd s = 0"
proof -
  let ?msgs = "[Proxy_Start [\<lparr>pc_real_addr = Ipv4 127 0 0 1, pc_proxy_addr = Ipv4 127 0 0 2\<rparr>] 0,
    Change_Request_Rules (Some [1]) 1, Proxy_Start [\<lparr>pc_real_addr = Ipv4 127 0 0 3, pc_proxy_addr = Ipv4 127 0 0 4\<rparr>] 2]"
  have "proxy_laws sample_proxy (\<lambda>w. w)" by (simp add: proxy_laws_def sample_proxy_def)
  from proxy_runs_at_most_once [OF this, of 0 ?msgs "\<lambda>_. Awaited"]
  have "\<forall>s. proxy_task sample_proxy ?msgs 0 (\<lambda>_. Awaited) = Some s \<longrightarrow> snd s = 0" by simp
  moreover have "\<exists>s. proxy_task sample_proxy ?msgs 0 (\<lambda>_. Awaited) = Some s"
    by (simp add: proxy_task_def proxy_process_eq reply_process_def proxy_start_def Let_def sample_proxy_def
        proxy_change_request_rules_def)
  ultimately show ?thesis by blast
qed

text \<open>
  A start without nodes leaves the old proxy running, and a start that fails still answers with the
  addresses of the proxy that does not run.
\<close>

lemma empty_start_keeps_the_proxy: "proxy_start api [] s = (s, [])"
  by (simp add: proxy_start_def)

lemma failed_start_answers_addresses:
  "api_run api (map proxy_node_of cfgs) (snd (proxy_stop api s)) = (None, w) \<Longrightarrow> cfgs \<noteq> [] \<Longrightarrow>
     proxy_start api cfgs s = ((None, w), api_translation api (map proxy_node_of cfgs))"
  by (simp add: proxy_start_def Let_def)

end
