(* ===== verification/Macro_Laws.thy ===== *)
theory Macro_Laws
  imports Macros Samples
begin

text \<open>
  The laws of the macros: the generated fixture behaves as its fixtures set up one after the other,
  the parameters are read back in any order, and tests and subgroups are registered with their group.
\<close>

section \<open>The generated fixture\<close>

lemma setup_each_types:
  assumes "setup_each fs b s = ((Code_Some ts, b'), s')" and "\<forall>f \<in> set fs. acyclic_fixture f"
  shows "ts = filter (\<lambda>t. permanent s t = None) (map fx_type fs) \<and> set ts \<subseteq> cached_types (cache s') \<and>
    permanent s' = permanent s \<and> cached_types (cache s) \<subseteq> cached_types (cache s')"
  using assms
proof (induction fs arbitrary: b s ts)
  case (Cons f fs)
  from Cons.prems(1) obtain a b1 s1 rest where f: "inner_setup f b s = ((Setup_Some a, b1), s1)"
    and fs: "setup_each fs b1 s1 = ((Code_Some rest, b'), s')"
    and ts: "ts = (case a of Cached_Arc t \<Rightarrow> [t] | Permanent_Arc v \<Rightarrow> []) @ rest"
    by (auto split: prod.splits setup_end.splits code_end.splits)
  from Cons.prems(2) have ac: "acyclic_fixture f" "\<forall>f \<in> set fs. acyclic_fixture f" by auto
  note step = setup_grows(1) [OF f ac(1)]
  then have g: "grows (fixture_types f) s s1" by simp
  have a: "(\<exists>v. a = Permanent_Arc v) \<and> permanent s (fx_type f) \<noteq> None \<or>
      a = Cached_Arc (fx_type f) \<and> permanent s (fx_type f) = None \<and> fx_type f \<in> cached_types (cache s1)"
  proof (cases f)
    case (Fixture t x y conc code td)
    with f step show ?thesis
      by (auto simp: inner_get_def split: if_splits option.splits prod.splits code_end.splits)
  qed
  from Cons.IH [OF fs ac(2)] a ts grows_fields(1,4) [OF g] show ?case by auto
qed simp

text \<open>\<open>rest\<close> of the chain runs with the \<open>Arc\<close>s of the fixtures before it.\<close>

lemma run_setup_chain:
  "run_setup (foldr (\<lambda>f rest. Call_Setup f rest Return_None) fs (Return_Some all)) got b s =
     (case setup_each fs b s of
        ((Code_Some ts, b'), s') \<Rightarrow> ((Code_Some (filter (\<lambda>t. t \<in> set got \<union> set ts) all), b'), s')
      | r \<Rightarrow> r)"
proof (induction fs arbitrary: got b s)
  case (Cons f fs)
  show ?case
    by (auto simp: Cons.IH split: prod.splits setup_end.splits arc.splits code_end.splits intro!: filter_cong)
qed simp

text \<open>
  C38.  The fixture that the macros generate sets up the fixtures it is made of in their order, and
  stops at the first that is not set up; when it is set up it holds exactly those of them that are
  not permanent, all of them cached.  Its tests may run concurrently when all fixtures allow it.
\<close>

theorem generated_fixture_sets_up_each:
  assumes "\<forall>f \<in> set fs. acyclic_fixture f"
  shows "run_setup (generated_setup fs) [] b s = setup_each fs b s \<and>
    (\<forall>ts b' s'. setup_each fs b s = ((Code_Some ts, b'), s') \<longrightarrow>
       ts = filter (\<lambda>t. permanent s t = None) (map fx_type fs) \<and> set ts \<subseteq> cached_types (cache s')) \<and>
    fx_concurrent (generated_fixture t fs) = (\<forall>f \<in> set fs. fx_concurrent f)"
proof -
  have "fx_concurrent (generated_fixture t fs) = (\<forall>f \<in> set fs. fx_concurrent f)"
    by (induction fs) (simp_all add: generated_fixture_def generated_concurrent_def)
  moreover have "run_setup (generated_setup fs) [] b s = setup_each fs b s"
  proof (cases "\<exists>ts b' s'. setup_each fs b s = ((Code_Some ts, b'), s')")
    case True
    then obtain ts b' s' where e: "setup_each fs b s = ((Code_Some ts, b'), s')" by blast
    from setup_each_types [OF e assms] have "ts = filter (\<lambda>t. permanent s t = None) (map fx_type fs)" by blast
    then have "filter (\<lambda>t. t \<in> set ts) (map fx_type fs) = ts" by (auto intro: filter_cong)
    with e show ?thesis by (simp add: generated_setup_def run_setup_chain)
  next
    case False
    then show ?thesis
      by (auto simp: generated_setup_def run_setup_chain split: prod.splits code_end.splits)
  qed
  ultimately show ?thesis using setup_each_types [OF _ assms] by blast
qed

theorem generated_fixture_sets_up_each_witness:
  "run_setup (generated_setup [sample_leaf, sample_user]) [] 5 (fixtures_new (\<lambda>t. t)) =
     setup_each [sample_leaf, sample_user] 5 (fixtures_new (\<lambda>t. t)) \<and>
   fx_concurrent (generated_fixture 7 [sample_leaf, sample_user])"
proof -
  have "\<forall>f \<in> set [sample_leaf, sample_user]. acyclic_fixture f" by (simp add: sample_user_def sample_leaf_def)
  from generated_fixture_sets_up_each [OF this, of 5 "fixtures_new (\<lambda>t. t)" 7]
  show ?thesis by (simp add: sample_user_def sample_leaf_def)
qed

section \<open>Parameters\<close>

text \<open>
  The parameters of a group as they are written, with the tokens of the tuple and of the path and
  what they stand for: the segments that name the fixtures, and the path of the parent.
\<close>

datatype group_arg = Fixtures_Arg "token list" "seg list" | Parent_Arg "token list" syn_path

fun written :: "group_arg \<Rightarrow> token list" where
  "written (Fixtures_Arg tup segs) = [T_Comma, T_Ident ''fixtures'', T_Eq] @ tup"
| "written (Parent_Arg path p) = [T_Comma, T_Ident ''parent'', T_Eq] @ path"

definition name_arg :: "string \<Rightarrow> token list" where
  "name_arg name = [T_Ident ''name'', T_Eq, T_Ident name]"

text \<open>
  The parser of \<open>syn\<close> for an argument, which is at the end of the input or followed by a comma, takes
  the tokens of the argument.  Of other continuations, which may belong to a longer path, nothing is
  said.
\<close>

definition ends_argument :: "token list \<Rightarrow> bool" where
  "ends_argument rest \<longleftrightarrow> rest = [] \<or> hd rest = T_Comma"

fun parses :: "'e syn \<Rightarrow> group_arg \<Rightarrow> bool" where
  "parses S (Fixtures_Arg tup segs) \<longleftrightarrow> (\<forall>rest. ends_argument rest \<longrightarrow>
     parse_fields S (tup @ rest) = Some (map (\<lambda>s. Ty_Path [s]) segs, length tup))"
| "parses S (Parent_Arg path p) \<longleftrightarrow> (\<forall>rest. ends_argument rest \<longrightarrow>
     parse_path S (path @ rest) = Some (p, length path))"

text \<open>The last argument of a kind.\<close>

definition last_fixtures :: "group_arg list \<Rightarrow> string list \<Rightarrow> string list" where
  "last_fixtures as fs = fold (\<lambda>a fs. case a of Fixtures_Arg tup segs \<Rightarrow> map seg_ident segs | _ \<Rightarrow> fs) as fs"

definition last_parent :: "group_arg list \<Rightarrow> syn_path option \<Rightarrow> syn_path option" where
  "last_parent as p = fold (\<lambda>a p. case a of Parent_Arg path q \<Rightarrow> Some q | _ \<Rightarrow> p) as p"

lemma fixture_ident_single: "fixture_ident (Ty_Path [s]) = Inr (seg_ident s)"
  by (simp add: fixture_ident_def)

lemma collect_single [simp]: "collect fixture_ident (map (\<lambda>s. Ty_Path [s]) segs) = Inr (map seg_ident segs)"
  by (induction segs) (simp_all add: fixture_ident_single)

lemma collect_bad: "\<exists>t \<in> set tys. \<forall>s. t \<noteq> Ty_Path [s] \<Longrightarrow> \<exists>m. collect fixture_ident tys = Inl (Message m)"
proof (induction tys)
  case (Cons t tys)
  show ?case
  proof (cases "\<exists>s. t = Ty_Path [s]")
    case True
    then obtain s where t: "t = Ty_Path [s]" ..
    with Cons obtain m where "collect fixture_ident tys = Inl (Message m)" by auto
    with t show ?thesis by (simp add: fixture_ident_single)
  next
    case False
    then have "\<exists>m. fixture_ident t = Inl (Message m)"
      by (cases t) (auto simp: fixture_ident_def length_Suc_conv)
    then show ?thesis by auto
  qed
qed simp

lemma group_args_Nil [simp]: "group_args S params [] = Inr (params, [])"
  by (simp add: group_args.simps)

lemma group_args_written:
  assumes "parses S a" and "ends_argument rest"
  shows "group_args S params (written a @ rest) = group_args S
    (params\<lparr>gp_fixtures := last_fixtures [a] (gp_fixtures params), gp_parent := last_parent [a] (gp_parent params)\<rparr>) rest"
  using assms
  by (cases a) (simp_all add: group_args.simps [of S params] parse_token_def parse_ident_def parse_with_def
    last_fixtures_def last_parent_def)

lemma hd_written: "hd (written a @ ts) = T_Comma"
  by (cases a) simp_all

lemma group_args_all:
  assumes "\<forall>a \<in> set as. parses S a" and "ends_argument rest"
  shows "group_args S params (concat (map written as) @ rest) = group_args S
    (params\<lparr>gp_fixtures := last_fixtures as (gp_fixtures params), gp_parent := last_parent as (gp_parent params)\<rparr>) rest"
  using assms(1)
proof (induction as arbitrary: params)
  case Nil
  then show ?case by (simp add: last_fixtures_def last_parent_def)
next
  case (Cons a as)
  have "ends_argument (concat (map written as) @ rest)"
    using assms(2) hd_written by (cases as) (auto simp: ends_argument_def)
  from group_args_written [OF _ this, of S a params] Cons show ?case
    by (simp add: last_fixtures_def last_parent_def)
qed

lemma parse_name [simp]:
  "parse_group_params S (name_arg name @ rest) =
     group_args S \<lparr>gp_name = to_lowercase S name, gp_fixtures = [], gp_parent = None\<rparr> rest"
  by (simp add: parse_group_params_def name_arg_def parse_keyword_def parsed_bind_def parse_ident_def parse_token_def)

text \<open>
  C39.  The parameters of \<open>group!\<close> are read: the name in lower case, and the arguments \<open>fixtures\<close> and
  \<open>parent\<close> in any order and number, of which the last of each kind counts; of a fixture the identifier
  is kept.  After them an argument of another name is refused, and so is a tuple of fixtures with a
  type that is not a path of one segment.
\<close>

theorem group_params_read:
  assumes "\<forall>a \<in> set as. parses S a"
  shows "parse_group_params S (name_arg name @ concat (map written as)) =
      Inr (\<lparr>gp_name = to_lowercase S name, gp_fixtures = last_fixtures as [], gp_parent = last_parent as None\<rparr>, []) \<and>
    (word \<notin> {''fixtures'', ''parent''} \<longrightarrow>
       (\<exists>m. parse_group_params S (name_arg name @ concat (map written as) @ T_Comma # T_Ident word # rest) = Inl (Message m))) \<and>
    (parse_fields S (tup @ rest) = Some (tys, length tup) \<and> (\<exists>t \<in> set tys. \<forall>s. t \<noteq> Ty_Path [s]) \<longrightarrow>
       (\<exists>m. parse_group_params S (name_arg name @ concat (map written as) @
          [T_Comma, T_Ident ''fixtures'', T_Eq] @ tup @ rest) = Inl (Message m)))"
proof -
  have other: "\<exists>m. group_args S ps (T_Comma # T_Ident word # rest) = Inl (Message m)"
    if "word \<notin> {''fixtures'', ''parent''}" for ps
    using that by (simp add: group_args.simps [of S ps] parse_token_def parse_ident_def)
  have bad: "\<exists>m. group_args S ps ([T_Comma, T_Ident ''fixtures'', T_Eq] @ tup @ rest) = Inl (Message m)"
    if f: "parse_fields S (tup @ rest) = Some (tys, length tup)" and t: "\<exists>t \<in> set tys. \<forall>s. t \<noteq> Ty_Path [s]" for ps
  proof -
    from collect_bad [OF t] obtain m where "collect fixture_ident tys = Inl (Message m)" by blast
    with f show ?thesis
      by (simp add: group_args.simps [of S ps] parse_token_def parse_ident_def parse_with_def)
  qed
  note all = group_args_all [OF assms]
  show ?thesis
    using all [of "[]"] all [of "T_Comma # T_Ident word # rest"] other
      all [of "[T_Comma, T_Ident ''fixtures'', T_Eq] @ tup @ rest"] bad
    by (simp add: ends_argument_def)
qed

text \<open>A parser of paths that takes all it can, with \<open>T_Other 2\<close> for \<open>::\<close>, and one token for a tuple.\<close>

fun greedy_path :: "token list \<Rightarrow> (syn_path \<times> nat) option" where
  "greedy_path (T_Ident x # T_Other t # ts) =
     (if t = 2 then map_option (\<lambda>(p, n). (Seg x No_Args # p, n + 2)) (greedy_path ts) else Some ([Seg x No_Args], 1))"
| "greedy_path (T_Ident x # ts) = Some ([Seg x No_Args], 1)"
| "greedy_path _ = None"

definition lower_char :: "char \<Rightarrow> char" where
  "lower_char c = (if 65 \<le> (of_char c :: nat) \<and> (of_char c :: nat) \<le> 90 then char_of (of_char c + 32 :: nat) else c)"

definition sample_syn :: "unit syn" where
  "sample_syn = \<lparr>parse_path = greedy_path,
     parse_fields = (\<lambda>ts. case ts of T_Other 0 # _ \<Rightarrow> Some ([Ty_Path [Seg ''Db'' No_Args]], 1) | _ \<Rightarrow> None),
     parse_expr = (\<lambda>ts. Some ((), 1)), case_constant = (\<lambda>s. s), case_pascal = (\<lambda>s. s), case_snake = (\<lambda>s. s),
     to_lowercase = map lower_char\<rparr>"

theorem group_params_read_witness:
  "parse_group_params sample_syn (name_arg ''Crud'' @
       written (Parent_Arg [T_Ident ''tests'', T_Other 2, T_Ident ''root''] [Seg ''tests'' No_Args, Seg ''root'' No_Args]) @
       written (Fixtures_Arg [T_Other 0] [Seg ''Db'' No_Args])) =
     Inr (\<lparr>gp_name = ''crud'', gp_fixtures = [''Db''],
       gp_parent = Some [Seg ''tests'' No_Args, Seg ''root'' No_Args]\<rparr>, [])"
proof -
  let ?as = "[Parent_Arg [T_Ident ''tests'', T_Other 2, T_Ident ''root''] [Seg ''tests'' No_Args, Seg ''root'' No_Args],
    Fixtures_Arg [T_Other 0] [Seg ''Db'' No_Args]]"
  have end_of_path: "greedy_path (T_Ident x # rest) = Some ([Seg x No_Args], 1)" if "ends_argument rest" for x rest
    using that by (cases rest) (auto simp: ends_argument_def)
  then have ok: "\<forall>a \<in> set ?as. parses sample_syn a" by (simp add: sample_syn_def)
  have "map lower_char ''Crud'' = ''crud''" by code_simp
  with group_params_read [OF ok, of "''Crud''"] show ?thesis
    by (simp add: sample_syn_def last_fixtures_def last_parent_def)
qed

section \<open>Registration\<close>

text \<open>Who names a group by the path of its function is registered in the slices of that group.\<close>

lemma registered_with_its_group:
  assumes "generate_group S gp = Inr g"
  shows "generate_test S tp item = Inr t \<Longrightarrow> seg_ident (last (tp_group tp)) = gi_function g \<Longrightarrow>
      seg_ident (last (ti_registered_in t)) = gi_tests_slice g \<and> butlast (ti_registered_in t) = butlast (tp_group tp)"
    and "generate_group S child = Inr c \<Longrightarrow> gp_parent child = Some p \<Longrightarrow> seg_ident (last p) = gi_function g \<Longrightarrow>
      (\<exists>slice. gi_registered_in c = Some slice \<and> seg_ident (last slice) = gi_groups_slice g \<and> butlast slice = butlast p)"
  using assms
  by (auto simp: generate_test_def generate_group_def with_last_ident_def Let_def split: if_splits sum.splits option.splits)

end
