(* ===== verification/Spec2Isabelle.thy ===== *)
theory Spec2Isabelle
  imports Whole_Runs Healthy_Runs Run_Limit Reports Samples Integration_Tests Unit_Tests Scylla_Properties
    Vector_Store_Laws Firewall Dns Tls Proxy Macro_Laws
begin

text \<open>
  A model of e2etest-rs, a framework for end-to-end tests in Rust, and of the fixtures that come with
  it, with the theorems that make it correct.

  The program.  A user declares groups and tests with the macros of \<open>e2etest-macros\<close>; each group and
  test has a fixture.  \<open>e2etest::run\<close> (\<open>crates/e2etest/src/lib.rs\<close>) makes a cache of fixtures
  (\<open>fixture.rs\<close>), a filter (\<open>filter.rs\<close>), the statistics (\<open>statistics.rs\<close>) and a context, and runs the
  tree of groups (\<open>run.rs\<close>, \<open>group.rs\<close>): a group sets up its fixture, runs its subgroups, then its tests
  that allow it in a window of concurrent tests, then the others, and tears down.  A test sets up,
  runs and tears down as spawned tasks with timeouts (\<open>test.rs\<close>, \<open>task.rs\<close>).  The fixture crates are
  actors: a task that owns processes, routes, records or files, a channel of requests, and an
  extension trait that sends a request and awaits its answer.

  Theories.  \<open>Prelude\<close> holds what all share, \<open>Rust_Strings\<close> the string functions and paths of names.

  The framework: \<open>Statistics\<close> is \<open>statistics.rs\<close>; \<open>Fixtures\<close> is \<open>fixture.rs\<close> (\<open>inner_setup\<close>,
  \<open>inner_get\<close>, \<open>inner_teardown\<close>), with \<open>Fixture_Laws\<close>; \<open>Test_Tree\<close> are the groups and tests as data;
  \<open>Selection\<close> is \<open>filter.rs\<close>, and \<open>Selection_Tree\<close> says what it chooses in a tree; \<open>Tasks\<close> is \<open>task.rs\<close>
  and \<open>test.rs\<close>, the test both as one function (\<open>run_test\<close>) and as steps between awaits (\<open>test_step\<close>);
  \<open>Runner\<close> is \<open>run.rs\<close>, \<open>group.rs\<close>, \<open>backtrace.rs\<close> and \<open>lib.rs\<close>.  \<open>Traces\<close> is the abstract specification of
  the log of a run, \<open>Runner_Log\<close> and \<open>Run_Selection\<close> the refinement, \<open>Conservation\<close> what traces say of
  the counters and of each test, \<open>Run_Fixtures\<close> who holds which fixture, \<open>Scheduling\<close> the window of
  concurrent tests.  \<open>Macros\<close> is \<open>e2etest-macros\<close>, with \<open>Macro_Laws\<close>, and \<open>Registry\<close> the tree of groups that
  the distributed slices of the generated items make of a crate.  \<open>Hash_Order\<close> relates runs whose hash maps iterate in
  different orders.  \<open>Whole_Runs\<close> puts these together for \<open>e2etest_run\<close>, \<open>Reports\<close> reads the report
  test by test, \<open>Run_Limit\<close> is the limit of concurrent tests in a run, and \<open>Healthy_Runs\<close> are the runs
  in which every fixture sets up and every body ends in time.  \<open>Unit_Tests\<close> and
  \<open>Integration_Tests\<close> are the tests of the crate, evaluated on the model.

  The fixture crates: \<open>Actors\<close> is the loop of an actor over its messages, as a function and as the
  locale \<open>actor\<close>, extended by \<open>strict_actor\<close> for the actors that panic when a client has gone; \<open>Effects\<close> is the operating system, a parameter that answers effects, and operations as
  functions of the log of effects; \<open>Cluster_Actors\<close> is the locale \<open>io_actor\<close> of the actors with effects.
  \<open>Scylla_Cluster\<close> (with \<open>Scylla_Laws\<close>, \<open>Scylla_Runs\<close>, \<open>Scylla_Properties\<close>), \<open>Vector_Store\<close> (with
  \<open>Vector_Store_Laws\<close>), \<open>Firewall\<close>, \<open>Dns\<close>, \<open>Tls\<close> and \<open>Proxy\<close> are one crate each, and each interprets the
  contract of its actor.  \<open>Samples\<close> and \<open>Sample_System\<close> hold concrete data for the witnesses.

  What is shown.  C1 to C9 are about whole runs, for every schedule of the concurrent tests and every
  order of the hash maps: a run returns, settles every test once, its log is a trace of the
  specification, what was declared is what is run, setups and teardowns match, the verdict means what
  it says, tests that are in order pass, fixtures are given back, and the order of the hash maps does
  not show.  Most of them ask that the tests of a tree have names of their own and that a filter matches
  a test or no group is empty: \<open>empty_group_panics\<close> is a run where the second fails.  C10 to C12 are
  about the cache of fixtures, C13 about the limit of concurrent tests, C14 to C16 about filters, C17 to
  C19 about the statistics and the report of a run.  C20 to C27 are about the ScyllaDB cluster and its
  actor, C28 to C31 about the Vector Store cluster, C32 and C33 about the firewall, C34 about the DNS
  server, C35 about the proxies, C36 and C37 about the certificates, C38 and C39 about the macros.
  By \<open>own_tests_pass\<close> the model passes the tests of the crate.

  Conventions.  A panic is \<^term>\<open>None\<close>, or \<open>Panicked\<close> of an operation with effects; in a cluster it ends
  the actor.  Integers whose width matters are words (octets, ports, the serial number of the zone,
  file modes); durations are natural numbers of milliseconds.  A \<open>HashMap\<close>
  that is iterated over is a list in an order that is left open, or a map with a hash function as its
  order.  Strings and paths are lists of bytes; the paths of temporary directories are UTF-8.

  Concurrency.  A task is atomic between its awaits.  What goes on between them is up to the runtime
  and the crate \<open>futures\<close>, which are not part of the repository, and so a parameter of a run: the record
  \<open>runtime\<close> holds a list of choices, which say at each point what task goes on and how long a lock is
  waited for, and a policy, which says whether one more future is admitted for a limit and a number of
  futures held.  \<open>for_each_concurrent\<close> is the code's loop over a stream of tests under such a runtime.
  Every property holds for all runtimes, but for C13, which assumes that the policy honours the
  limit (\<open>honours_limit\<close>), and C7, which bounds the waits.  The fixture crates use the channels of \<open>tokio\<close>.
  The properties of an actor are about its loop over a sequence of messages (\<open>drain\<close>), where the state of
  a reply channel says whether the requester still waits, and about methods of an extension trait that
  are run by a client that is alone (\<open>ask\<close>, \<open>tell\<close>).  Only C21, about a client that gives up, and the
  lemma \<open>scylla_linearizable\<close> use the step relation \<open>actor_step\<close>, which states what \<open>tokio\<close> documents of an
  \<open>mpsc\<close> channel and its \<open>oneshot\<close> channels: order of sending, a capacity, and that all who wait see a
  sender that is gone.  Within a handler nothing else touches the state of the actor.

  Bounds and fuel.  \<open>wait_for_port\<close> and \<open>wait_for_node\<close> of the ScyllaDB cluster poll without a limit
  and get fuel; running out is \<open>Still_Waiting\<close>, and C27 says how much is enough.  \<open>vs_poll\<close> has a
  limit of time in the code and needs no fuel.  \<open>link_group\<close> recurses over declarations that may be
  cyclic; as much fuel as there are declarations is enough when they are not (C4), and no fuel is
  when they are (\<open>link_group_cyclic\<close>).  \<open>inner_teardown\<close>, the window of concurrent tests and the
  parsers of the macros terminate by a measure.

  Parameters.  The operating system (\<open>os\<close>), the clock, the netlink socket, the zone handler and the
  names of \<open>hickory-server\<close>, the running proxy of \<open>scylla-proxy\<close>, \<open>rcgen\<close>, \<open>rustls\<close>, the parsers of \<open>syn\<close>
  and the conversions of \<open>convert_case\<close> are arguments of the definitions, and so is what the compiler
  makes of paths and expressions (\<open>linking\<close>).  What is assumed of them is a
  named predicate (\<open>honours_limit\<close>, \<open>fresh_pids\<close>, \<open>files_kept\<close>, \<open>zone_laws\<close>, \<open>proxy_laws\<close>, \<open>parses\<close>), each of
  which holds of a concrete instance in a witness.  Of the netlink socket nothing is assumed: the
  properties of the firewall are about the requests that it sends.  A \<open>TempDir\<close> whose removal the system
  refuses stays; \<open>kept_dirs\<close> are the directories whose removal was not tried, \<open>left_dirs\<close> those that exist.

  Not modelled.  Tracing spans, most log lines and the text of backtraces; the unwinding after a panic
  in a fixture crate, except for the state of the two clusters (\<open>drop_state\<close>, \<open>drop_nodes\<close>); the order in which
  \<open>linkme\<close> collects the items of a slice, which is the order of the list of declarations; the order of
  compilation errors of the generated code.  To the runner the body of a test is one future that is
  ready, panics or hangs; only in the test of the concurrency do the bodies write while they run, and
  \<open>pushes\<close> reads what they write off the log of events.
\<close>

section \<open>Runs\<close>

text \<open>
  C1.  A run of uniquely named tests returns for every schedule and every order of the hash maps,
  with the hook of the standard library in place, provided a filter matches something or no group
  is empty: no assertion of the statistics fails.
\<close>

theorem run_completes:
  assumes "well_named g" and "picks (filters c) (test_names g) \<noteq> {} \<or> no_empty_group g"
  shows "\<exists>w. e2etest_run h c g sched = (Some (w, run_report (w_stats w)), Default_Hook)"
  using e2etest_run_trace [of c g h sched] assms by (auto simp: runnable_def)

theorem run_completes_witness:
  "\<exists>w. e2etest_run (\<lambda>t. t mod 2) sample_config sample_group sample_sched =
     (Some (w, run_report (w_stats w)), Default_Hook)"
  by (rule run_completes) (code_simp, rule disjI2, code_simp)

text \<open>The sample run, on which the properties are applied.\<close>

lemma sample_ok:
  "well_named sample_group"
  "picks (filters sample_config) (test_names sample_group) \<noteq> {} \<or> no_empty_group sample_group"
  by code_simp (rule disjI2, code_simp)

lemma sample_full: "no_empty_group sample_group"
  by code_simp

lemma sample_run:
  obtains w where "e2etest_run (\<lambda>t. t mod 2) sample_config sample_group sample_sched =
      (Some (w, run_report (w_stats w)), Default_Hook)" and "included (w_stats w) \<noteq> {}"
proof -
  have ok: "runnable sample_config sample_group"
    unfolding runnable_def using sample_ok by blast
  obtain w where run: "e2etest_run (\<lambda>t. t mod 2) sample_config sample_group sample_sched =
      (Some (w, run_report (w_stats w)), Default_Hook)" and
    inc: "included (w_stats w) = set (selected (filter_new (filters sample_config) (g_name sample_group)
      (test_names sample_group)) [] sample_group)"
    using e2etest_run_trace [OF ok, of "\<lambda>t. t mod 2" sample_sched] by blast
  have "selected (filter_new (filters sample_config) (g_name sample_group) (test_names sample_group)) []
      sample_group \<noteq> []" by code_simp
  with inc run that show ?thesis by simp
qed

text \<open>
  C2.  In a run of uniquely named tests, in which a filter matches something or no group is empty,
  every included test is accounted for exactly once, under every schedule: one entry of the log settles
  it, the launch of the test or the skipped or failed setup of its own fixture or of a group above it;
  each launch has one outcome, passed or failed; and the counters of the report are the totals.
\<close>

theorem run_accounts_for_every_test:
  assumes "well_named g" and "picks (filters c) (test_names g) \<noteq> {} \<or> no_empty_group g"
    and "e2etest_run h c g sched = (Some (w, r), hk)"
  shows "(\<forall>n \<in> included (w_stats w). length (filter (settles n) (events (w_stats w))) = 1) \<and>
    (\<forall>n. times_of n TestLaunched (w_stats w) = times_of n TestPassed (w_stats w) + times_of n TestFailed (w_stats w)) \<and>
    tests_included (w_stats w) = tests_launched (w_stats w) + tests_skipped (w_stats w) +
      tests_skipped_by_fixture_err (w_stats w) \<and>
    tests_launched (w_stats w) = tests_passed (w_stats w) + tests_failed (w_stats w)"
  using e2etest_run_accounted [OF _ assms(3)] assms(1,2) by (simp add: runnable_def accounted_def)

theorem run_accounts_for_every_test_witness:
  "\<exists>w r hk n. e2etest_run (\<lambda>t. t mod 2) sample_config sample_group sample_sched = (Some (w, r), hk) \<and>
     n \<in> included (w_stats w) \<and> length (filter (settles n) (events (w_stats w))) = 1 \<and>
     tests_included (w_stats w) = tests_launched (w_stats w) + tests_skipped (w_stats w) +
       tests_skipped_by_fixture_err (w_stats w)"
proof -
  obtain w where run: "e2etest_run (\<lambda>t. t mod 2) sample_config sample_group sample_sched =
      (Some (w, run_report (w_stats w)), Default_Hook)" and "included (w_stats w) \<noteq> {}" by (rule sample_run)
  then obtain n where "n \<in> included (w_stats w)" by blast
  with run_accounts_for_every_test [OF sample_ok run] run show ?thesis by blast
qed

text \<open>
  C3.  The log of a run that includes some test is a trace of the root group: setups, subgroups, the interleaved words of
  the concurrent tests, the words of the others in order, and the teardown.  In particular a test
  that is launched passes exactly when its future completes within its timeout, and no event of a
  test lies outside the setup and the teardown of its groups.
\<close>

theorem run_log_is_a_trace:
  assumes "well_named g" and "picks (filters c) (test_names g) \<noteq> {} \<or> no_empty_group g"
    and "e2etest_run h c g sched = (Some (w, r), hk)" and "included (w_stats w) \<noteq> {}"
  shows "group_trace (run_ctx (filter_new (filters c) (g_name g) (test_names g)) (default_timeout c)
    (concurrency c)) [] g (events (w_stats w))"
  using e2etest_run_result [of c g h sched w r hk] assms by (auto simp: runnable_def)

theorem run_log_is_a_trace_witness:
  "\<exists>w r hk. e2etest_run (\<lambda>t. t mod 2) sample_config sample_group sample_sched = (Some (w, r), hk) \<and>
     group_trace (run_ctx (filter_new (filters sample_config) (g_name sample_group) (test_names sample_group))
       (default_timeout sample_config) (concurrency sample_config)) [] sample_group (events (w_stats w))"
proof -
  obtain w where run: "e2etest_run (\<lambda>t. t mod 2) sample_config sample_group sample_sched =
      (Some (w, run_report (w_stats w)), Default_Hook)" and "included (w_stats w) \<noteq> {}" by (rule sample_run)
  from run_log_is_a_trace [OF sample_ok run this(2)] run show ?thesis by blast
qed

text \<open>
  C4.  What is declared is what is run: for declarations with unique statics and identifiers as names,
  in which no group is its own ancestor, linking ends with the fuel given, the tests of the tree are
  exactly the tests registered in the slices of the groups that lie below the root, each as its macro
  generated it, and a run of the tree, in which a filter matches something or no group is empty,
  returns and defines each of them once.
\<close>

theorem declared_tests_are_run:
  assumes "unique_statics ds" and "proper_names L ds" and "acyclic (subgroup_of L ds)"
    and "x \<in> set (group_decls ds)"
  shows "\<exists>tree. link_group L ds (length ds) x = Some tree \<and>
    (\<forall>p t. (p, t) \<in> set (test_paths tree) \<longleftrightarrow>
       (\<exists>y m ti body. lies_below L ds x y p \<and> Test_Decl m ti body \<in> set ds \<and>
          resolve L m (ti_registered_in ti) = tests_static y \<and> t = generated_test L m ti body)) \<and>
    (picks (filters c) (test_names tree) \<noteq> {} \<or> no_empty_group tree \<longrightarrow>
       (\<exists>w. e2etest_run h c tree sched = (Some (w, run_report (w_stats w)), Default_Hook) \<and>
          tests_defined (w_stats w) =
            length (filter (\<lambda>d. \<exists>y p. lies_below L ds x y p \<and> in_tests_slice L (tests_static y) d) ds)))"
proof -
  obtain tree where tree: "link_group L ds (length ds) x = Some tree"
    using link_group_ends [OF assms(3,4)] .
  have "(p, t) \<in> set (test_paths tree) \<longleftrightarrow>
      (\<exists>y m ti body. lies_below L ds x y p \<and> Test_Decl m ti body \<in> set ds \<and>
         resolve L m (ti_registered_in ti) = tests_static y \<and> t = generated_test L m ti body)" for p t
    unfolding linked_tests [OF tree] slice_tests_iff by blast
  moreover note linked_run [OF assms tree, of c h sched]
  ultimately show ?thesis using tree by blast
qed

lemma declared_sample_ok:
  defines "ds \<equiv> hierarchy2_decls"
  defines "L \<equiv> test_linking hierarchy_fixtures ds"
  shows "unique_statics ds" "proper_names L ds" "acyclic (subgroup_of L ds)"
    "hd (group_decls ds) \<in> set (group_decls ds)" "length ds = 10"
    "\<exists>tree. link_group L ds 10 (hd (group_decls ds)) = Some tree \<and> no_empty_group tree"
proof -
  show "unique_statics ds" unfolding ds_def by code_simp
  show "proper_names L ds" unfolding L_def ds_def by code_simp
  show "acyclic (subgroup_of L ds)"
  proof (rule ranked_acyclic)
    let ?rank = "\<lambda>x. length ds - index_of x (group_decls ds)"
    have "\<forall>x \<in> set (group_decls ds). \<forall>c \<in> set (slice_groups L ds (groups_static x)). ?rank c < ?rank x"
      unfolding L_def ds_def by code_simp
    then show "?rank c < ?rank x" if "x \<in> set (group_decls ds)" "c \<in> set (slice_groups L ds (groups_static x))"
      for x c using that by blast
  qed
  have "group_decls ds \<noteq> []" unfolding ds_def by code_simp
  then show "hd (group_decls ds) \<in> set (group_decls ds)" by simp
  show "length ds = 10" unfolding ds_def by code_simp
  have "case link_group L ds 10 (hd (group_decls ds)) of Some tree \<Rightarrow> no_empty_group tree | None \<Rightarrow> False"
    unfolding L_def ds_def by code_simp
  then show "\<exists>tree. link_group L ds 10 (hd (group_decls ds)) = Some tree \<and> no_empty_group tree"
    by (auto split: option.splits)
qed

theorem declared_tests_are_run_witness:
  "\<exists>tree w. link_group (test_linking hierarchy_fixtures hierarchy2_decls) hierarchy2_decls 10
       (hd (group_decls hierarchy2_decls)) = Some tree \<and>
     e2etest_run (\<lambda>t. t) counter_config tree (eager []) = (Some (w, run_report (w_stats w)), Default_Hook)"
  using declared_tests_are_run [OF declared_sample_ok(1-4), of counter_config "\<lambda>t. t" "eager []"]
    declared_sample_ok(5,6) by auto

text \<open>
  C5.  The fixture counters of the report of a run add up: each setup that is launched passes, is
  skipped or fails, each of them is followed by one teardown, and each teardown passes or fails.
\<close>

theorem run_setups_and_teardowns_match:
  assumes "well_named g" and "picks (filters c) (test_names g) \<noteq> {} \<or> no_empty_group g"
    and "e2etest_run h c g sched = (Some (w, r), hk)"
  shows "setups_launched (w_stats w) = setups_passed (w_stats w) + setups_skipped (w_stats w) +
      setups_failed (w_stats w) \<and>
    teardowns_launched (w_stats w) = setups_launched (w_stats w) \<and>
    teardowns_launched (w_stats w) = teardowns_passed (w_stats w) + teardowns_failed (w_stats w)"
proof -
  note facts = e2etest_run_result [of c g h sched w r hk]
  have "runnable c g" using assms(1,2) by (simp add: runnable_def)
  with facts(4,5) assms(3) balanced_report(2-4) show ?thesis by metis
qed

theorem run_setups_and_teardowns_match_witness:
  "\<exists>w r hk. e2etest_run (\<lambda>t. t mod 2) sample_config sample_group sample_sched = (Some (w, r), hk) \<and>
     teardowns_launched (w_stats w) = setups_launched (w_stats w)"
proof -
  obtain w where run: "e2etest_run (\<lambda>t. t mod 2) sample_config sample_group sample_sched =
      (Some (w, run_report (w_stats w)), Default_Hook)" by (rule sample_run)
  from run_setups_and_teardowns_match [OF sample_ok run] run show ?thesis by blast
qed

text \<open>
  C6.  A run logged as ok is what it says: some test was included, nothing failed, and every
  included test passed or was skipped by a fixture that declined.
\<close>

theorem run_ok_means_passed_or_skipped:
  assumes "well_named g" and "picks (filters c) (test_names g) \<noteq> {} \<or> no_empty_group g"
    and "e2etest_run h c g sched = (Some (w, r), hk)"
  shows "r = Test_Run_Ok \<longleftrightarrow> tests_included (w_stats w) > 0 \<and>
    tests_included (w_stats w) = tests_passed (w_stats w) + tests_skipped (w_stats w) \<and>
    setups_failed (w_stats w) = 0 \<and> teardowns_failed (w_stats w) = 0"
proof -
  have ok: "runnable c g" using assms(1,2) by (simp add: runnable_def)
  note facts = e2etest_run_result [OF ok assms(3)]
  have "tests_included (w_stats w) = tests_passed (w_stats w) + tests_failed (w_stats w) +
      tests_skipped (w_stats w) + tests_skipped_by_fixture_err (w_stats w)"
    using e2etest_run_accounts [OF ok assms(3)] by simp
  moreover have "r = Test_Run_Ok \<longleftrightarrow> is_success (w_stats w)"
    using facts(6) by (simp add: run_report_def)
  ultimately show ?thesis
    using is_success_iff [OF well_recorded_finite [OF facts(1)]] no_setup_failed_no_skip [of "w_stats w"]
    by auto
qed

theorem run_ok_means_passed_or_skipped_witness:
  "\<exists>w r hk. e2etest_run (\<lambda>t. t mod 2) sample_config sample_group sample_sched = (Some (w, r), hk) \<and>
     (r = Test_Run_Ok \<longleftrightarrow> tests_included (w_stats w) > 0 \<and>
      tests_included (w_stats w) = tests_passed (w_stats w) + tests_skipped (w_stats w) \<and>
      setups_failed (w_stats w) = 0 \<and> teardowns_failed (w_stats w) = 0)"
proof -
  obtain w where run: "e2etest_run (\<lambda>t. t mod 2) sample_config sample_group sample_sched =
      (Some (w, run_report (w_stats w)), Default_Hook)" by (rule sample_run)
  from run_ok_means_passed_or_skipped [OF sample_ok run] run show ?thesis by blast
qed

text \<open>
  C7.  Tests that are in order pass: for uniquely named tests, of which a filter matches one or no
  group is empty, when every fixture of the tree and those it uses set up, and do so within their
  timeouts with the longest wait for the lock of the fixtures counted in, when every teardown takes no
  time and does not panic, with a timeout no shorter than the wait for the lock, and when the body of
  every test ends in time, then the run is logged as ok and every included test has passed, under every
  schedule whose waits are no longer, and every order of the hash maps.
\<close>

theorem healthy_run_passes:
  assumes "well_named g" and "picks (filters c) (test_names g) \<noteq> {} \<or> no_empty_group g"
    and "healthy_group wait (fst ` set (permanent_fixtures c)) (default_timeout c) g"
    and "\<forall>(i, t) \<in> set (rt_choices sched). t \<le> wait"
  shows "\<exists>w. e2etest_run h c g sched = (Some (w, Test_Run_Ok), Default_Hook) \<and>
    0 < tests_included (w_stats w) \<and> tests_passed (w_stats w) = tests_included (w_stats w)"
proof -
  have ok: "runnable c g" using assms(1,2) by (simp add: runnable_def)
  from e2etest_run_trace [OF ok, of h sched] obtain w where
    run: "e2etest_run h c g sched = (Some (w, run_report (w_stats w)), Default_Hook)" by blast
  from e2etest_run_well [OF run assms(3,4)] have "\<forall>e \<in> set (events (w_stats w)). \<not> adverse (entry_event e)"
    by (simp add: well_def)
  note calm = no_adverse_counters [OF this]
  have "included (w_stats w) \<noteq> {}"
    using e2etest_run_result(3) [OF ok run] selected_not_empty [OF assms(1,2)] by simp
  moreover from this have "0 < tests_included (w_stats w)"
    using well_recorded_finite [OF e2etest_run_result(1) [OF ok run]] by (simp add: tests_included_def card_gt_0_iff)
  ultimately show ?thesis
    using run calm e2etest_run_accounts [OF ok run]
    by (auto simp: run_report_def is_success_def)
qed

theorem healthy_run_passes_witness:
  "\<exists>w. e2etest_run (\<lambda>t. 7 - t) (config_with_concurrency 2 counter_config)
     (Group ''r'' (counter_fixture 2 True) [sample_test ''a'' (counter_fixture 3 True) (Ready_After 5),
        sample_test ''b'' (counter_fixture 2 True) (Ready_After 900)] []) (eager [(1, 2), (0, 9), (2, 4)]) =
     (Some (w, Test_Run_Ok), Default_Hook) \<and> tests_passed (w_stats w) = tests_included (w_stats w)"
proof -
  let ?g = "Group ''r'' (counter_fixture 2 True) [sample_test ''a'' (counter_fixture 3 True) (Ready_After 5),
        sample_test ''b'' (counter_fixture 2 True) (Ready_After 900)] []"
  let ?c = "config_with_concurrency 2 counter_config"
  have named: "well_named ?g" and full: "no_empty_group ?g" by code_simp+
  have "healthy_group 9 (fst ` set (permanent_fixtures ?c)) (default_timeout ?c) ?g"
    by (simp add: healthy_fixture_def healthy_test_def counter_fixture_def sample_test_def counter_config_def
        config_with_concurrency_def config_with_default_timeout_def config_with_permanent_fixture_def
        config_default_def setup_timeout_def teardown_timeout_def body_timeout_def unwrap_or_def from_secs_def
        default_timeout_setup_def default_timeout_teardown_def)
  moreover have "\<forall>(i, t) \<in> set (rt_choices (eager [(1, 2), (0, 9), (2, 4)])). t \<le> (9 :: nat)" by (simp add: eager_def)
  ultimately show ?thesis using healthy_run_passes [OF named disjI2 [OF full]] by blast
qed

section \<open>Fixtures\<close>

text \<open>
  C8.  A run gives every fixture back: at its end no test or group holds one, whatever the schedule
  and the timeouts, and every fixture that was built was torn down as often as it was built, unless
  it is still cached.  If the last teardown of the run passed, nothing is cached.
\<close>

theorem run_gives_fixtures_back:
  assumes "acyclic_group g" and "e2etest_run h c g sched = (Some (w, r), hk)"
  shows "(\<forall>t. handles (w_fx w) t = 0) \<and>
    (\<forall>t. count_list (calls (w_fx w)) (Built t) =
       count_list (calls (w_fx w)) (Torn t) + count_list (map ca_type (cache (w_fx w))) t) \<and>
    (events (w_stats w) \<noteq> [] \<and> entry_event (last (events (w_stats w))) = TeardownPassed \<longrightarrow>
       cache (w_fx w) = [])"
proof -
  let ?ctx = "run_ctx (filter_new (filters c) (g_name g) (test_names g)) (default_timeout c) (concurrency c)"
  let ?w = "run_start (fixtures_with_permanent h (permanent_fixtures c)) sched"
  have "run_world ?ctx g ?w = Some w"
    using assms(2) by (auto simp: e2etest_run_def run_def Let_def split: option.splits)
  from run_world_fx [OF this _ assms(1)] fx_inv_start [of h "permanent_fixtures c"]
  have "fx_inv (w_fx w) \<and> (\<forall>t. handles (w_fx w) t = 0) \<and>
    (events (w_stats w) \<noteq> [] \<and> entry_event (last (events (w_stats w))) = TeardownPassed \<longrightarrow> cache (w_fx w) = [])"
    by (simp add: run_start_def)
  then show ?thesis by (auto simp: fx_inv_def calls_balanced_def)
qed

theorem run_gives_fixtures_back_witness:
  "\<exists>w r hk. e2etest_run (\<lambda>t. t mod 2) sample_config sample_group sample_sched = (Some (w, r), hk) \<and>
     (\<forall>t. handles (w_fx w) t = 0)"
proof -
  obtain w where run: "e2etest_run (\<lambda>t. t mod 2) sample_config sample_group sample_sched =
      (Some (w, run_report (w_stats w)), Default_Hook)" by (rule sample_run)
  have "acyclic_group sample_group"
    by (simp add: sample_group_def sample_leaf_def sample_user_def sample_broken_def sample_test_def skip_fixture_def)
  from run_gives_fixtures_back [OF this run] run show ?thesis by blast
qed

text \<open>
  C9.  When all teardowns take no time and do not panic, and no fixture uses itself, the order of the
  hash map does not matter: two runs of one tree under one schedule, in processes whose hash maps
  iterate in different orders, record the same log, give the same verdict and leave the same fixtures
  cached and held, and the same calls made, each of them as multisets.
\<close>

theorem hash_order_is_irrelevant:
  assumes "acyclic_group g" and "prompt_group g"
    and "e2etest_run h c g sched = (Some (w, r), hk)"
  shows "\<exists>w'. e2etest_run h' c g sched = (Some (w', r), hk) \<and> w_stats w' = w_stats w \<and>
    mset (cache (w_fx w')) = mset (cache (w_fx w)) \<and> handles (w_fx w') = handles (w_fx w) \<and>
    mset (calls (w_fx w')) = mset (calls (w_fx w))"
proof -
  from e2etest_run_same [OF assms(1,2), of h c sched h'] assms(3) obtain w' where
    "fst (e2etest_run h' c g sched) = Some (w', r)" "same_world w w'" "snd (e2etest_run h' c g sched) = hk"
    by (cases "fst (e2etest_run h' c g sched)") auto
  then show ?thesis
    by (intro exI [of _ w']) (simp add: same_world_def alike_def same_fx_def prod_eq_iff)
qed

theorem hash_order_is_irrelevant_witness:
  "\<exists>w w'. e2etest_run (\<lambda>t. t) counter_config (Group ''r'' fixture_three
       [sample_test ''a'' fixture_two (Ready_After 1)] []) (eager []) = (Some (w, run_report (w_stats w)), Default_Hook) \<and>
     e2etest_run (\<lambda>t. 9 - t) counter_config (Group ''r'' fixture_three
       [sample_test ''a'' fixture_two (Ready_After 1)] []) (eager []) = (Some (w', run_report (w_stats w)), Default_Hook) \<and>
     w_stats w' = w_stats w"
proof -
  let ?g = "Group ''r'' fixture_three [sample_test ''a'' fixture_two (Ready_After 1)] []"
  have "well_named ?g" "no_empty_group ?g" by code_simp+
  then have "runnable counter_config ?g" by (simp add: runnable_def)
  from e2etest_run_trace [OF this] obtain w where
    run: "e2etest_run (\<lambda>t. t) counter_config ?g (eager []) = (Some (w, run_report (w_stats w)), Default_Hook)" by blast
  have "acyclic_group ?g" "prompt_group ?g"
    by (simp_all add: fixture_three_def fixture_two_def fixture_one_def sample_test_def)
  from hash_order_is_irrelevant [OF this run, of "\<lambda>t. 9 - t"] run show ?thesis by blast
qed

text \<open>
  C10.  The teardown of the cache that comes to its end keeps exactly the fixtures that some group
  or test holds, directly or through other fixtures, for every order of the hash map.
\<close>

theorem teardown_keeps_exactly_the_held:
  assumes "fx_wf s" and "inner_teardown b s = (True, s')"
  shows "set (cache s') = {e \<in> set (cache s). held (handles s) (cache s) (ca_type e)} \<and>
    fx_wf s' \<and> handles s' = handles s"
  using inner_teardown_exact [OF assms] inner_teardown_wf [OF assms] by blast

definition sample_fixtures :: fixtures where
  "sample_fixtures = \<lparr>permanent = Map.empty,
     cache = [\<lparr>ca_type = 1, ca_arcs = [], ca_teardown = Ready_After 1\<rparr>,
       \<lparr>ca_type = 2, ca_arcs = [1], ca_teardown = Ready_After 2\<rparr>,
       \<lparr>ca_type = 3, ca_arcs = [], ca_teardown = Ready_After 0\<rparr>],
     handles = (\<lambda>t. if t = 3 then 1 else 0), hasher = (\<lambda>t. t), calls = [Built 1, Built 2, Built 3]\<rparr>"

lemma sample_fixtures_wf: "fx_wf sample_fixtures"
proof -
  have "layered {} (cache sample_fixtures)" by (simp add: sample_fixtures_def)
  then have "cache_ok (cache sample_fixtures)" unfolding cache_ok_def by blast
  then show ?thesis by (simp add: fx_wf_def sample_fixtures_def)
qed

lemma sample_fixtures_teardown:
  "inner_teardown 10 sample_fixtures = (True, sample_fixtures\<lparr>
     cache := [\<lparr>ca_type = 3, ca_arcs = [], ca_teardown = Ready_After 0\<rparr>],
     calls := [Built 1, Built 2, Built 3, Torn 2, Torn 1]\<rparr>)"
  by (simp add: sample_fixtures_def inner_teardown.simps iteration_order_def strong_count_def)

theorem teardown_keeps_exactly_the_held_witness:
  "{e \<in> set (cache sample_fixtures). held (handles sample_fixtures) (cache sample_fixtures) (ca_type e)} =
     {\<lparr>ca_type = 3, ca_arcs = [], ca_teardown = Ready_After 0\<rparr>}"
  using teardown_keeps_exactly_the_held [OF sample_fixtures_wf sample_fixtures_teardown] by simp

text \<open>
  C11.  A fixture is torn down before every fixture whose \<open>Arc\<close> it holds, whether or not the
  teardown comes to its end.
\<close>

theorem teardown_users_first:
  assumes "inner_teardown b s = (ok, s')"
  shows "\<exists>l. calls s' = calls s @ map Torn l \<and>
    (\<forall>e \<in> set (cache s). \<forall>t \<in> set (ca_arcs e). before (ca_type e) t l)"
  using inner_teardown_collect [OF assms] collect_dependent_first by fastforce

theorem teardown_users_first_witness:
  "\<exists>l. [Torn 2, Torn 1] = map Torn l \<and> before 2 1 l"
  using teardown_users_first [OF sample_fixtures_teardown] by (auto simp: sample_fixtures_def)

text \<open>A second setup of a fixture returns the same \<open>Arc\<close> without running anything.\<close>

lemma setup_once:
  assumes "fx_wf s" and "acyclic_fixture f" and "inner_setup f b s = ((Setup_Some a, b'), s')"
  shows "inner_setup f b2 s' = ((Setup_Some a, b2), s') \<and> fx_wf s' \<and>
    (\<exists>news. cache s' = cache s @ news \<and> calls s' = calls s @ map (\<lambda>e. Built (ca_type e)) news)"
proof -
  from setup_grows(1) [OF assms(3,2)] have g: "grows (fixture_types f) s s'" by simp
  obtain t ts tt conc code td where f: "f = Fixture t ts tt conc code td" by (cases f)
  have "inner_setup f b2 s' = ((Setup_Some a, b2), s')"
  proof (cases "permanent s t \<noteq> None \<or> t \<in> cached_types (cache s)")
    case True
    with assms(3) f have "s' = s" "inner_get t s = Some a" by (auto split: option.splits)
    with True f show ?thesis by simp
  next
    case False
    with assms(3) f have "t \<in> cached_types (cache s')" "a = Cached_Arc t"
      by (auto split: prod.splits code_end.splits)
    with False f grows_fields(1) [OF g] show ?thesis by (simp add: inner_get_def)
  qed
  with g grows_wf [OF assms(1) g] show ?thesis by (auto simp: grows_def)
qed

text \<open>
  C12.  The state of the fixture manager stays well formed: a run starts well formed, and setup,
  teardown and the release of an \<open>Arc\<close> keep it so, timeouts and panics included.  Well formed means
  that each cached fixture is cached once, holds only cached fixtures and none that holds it in
  turn, that what tests and groups hold is cached, that no permanent fixture is, and that builds,
  teardowns and the cache balance.  Setting up is idempotent: a second setup returns the same \<open>Arc\<close>
  and runs nothing.
\<close>

theorem manager_keeps_its_invariant:
  assumes "fx_inv s" and "acyclic_fixture f"
  shows "fx_inv (fixtures_with_permanent h fs) \<and> fx_inv (snd (fixtures_setup f b wait s)) \<and>
    fx_inv (snd (fixtures_teardown b wait s)) \<and> fx_inv (release_arc a s) \<and>
    distinct (map ca_type (cache s)) \<and> (\<forall>e \<in> set (cache s). set (ca_arcs e) \<subseteq> cached_types (cache s)) \<and>
    (\<forall>arc b' s'. inner_setup f b s = ((Setup_Some arc, b'), s') \<longrightarrow>
       (\<forall>b2. inner_setup f b2 s' = ((Setup_Some arc, b2), s')))"
proof -
  have wf: "fx_wf s" using assms(1) by (simp add: fx_inv_def)
  then have c: "cache_ok (cache s)" by (simp add: fx_wf_def)
  have "fx_inv (snd (fixtures_setup f b wait s))"
    using fixtures_setup_law [OF assms] by (metis prod.collapse)
  moreover have "fx_inv (snd (fixtures_teardown b wait s))"
    using fixtures_teardown_law [OF assms(1)] by (metis prod.collapse)
  ultimately show ?thesis
    using fx_inv_start(1) release_arc_inv [OF assms(1)] cache_ok_distinct [OF c] cache_ok_arcs [OF c]
      setup_once [OF wf assms(2)] by blast
qed

theorem manager_keeps_its_invariant_witness:
  "fx_inv (snd (fixtures_setup sample_user 5 1 (fixtures_new (\<lambda>t. t)))) \<and>
   fx_inv (snd (fixtures_teardown 5 1 (fixtures_new (\<lambda>t. t))))"
proof -
  have "fx_inv (fixtures_new (\<lambda>t. t))" by (simp add: fx_inv_def fx_wf_def calls_balanced_def fixtures_new_def)
  moreover have "acyclic_fixture sample_user" by (simp add: sample_user_def sample_leaf_def)
  ultimately show ?thesis using manager_keeps_its_invariant by blast
qed

section \<open>Concurrency\<close>

text \<open>
  C13.  No more tests than the configuration asks for are active at a time in a run, where zero counts
  as one: at every moment of the log, the setups of included tests that were launched exceed the
  teardowns of included tests that ended by no more.  This holds for uniquely named tests, of which a
  filter matches one or no group is empty, and for every runtime that admits no more futures than the
  limit that the runner gives it, whatever it polls and when.
\<close>

theorem concurrency_limit_respected:
  assumes "well_named g" and "picks (filters c) (test_names g) \<noteq> {} \<or> no_empty_group g"
    and "honours_limit (rt_admits sched)" and "e2etest_run h c g sched = (Some (w, r), hk)"
    and "prefix p (events (w_stats w))"
  shows "opened (of_tests (included (w_stats w)) p) \<le>
    closed (of_tests (included (w_stats w)) p) + (if concurrency c = 0 then 1 else concurrency c)"
proof -
  have "runnable c g" using assms(1,2) by (simp add: runnable_def)
  from e2etest_run_within [OF this assms(3,4)] assms(5) show ?thesis
    by (auto simp: within_def bounded_by_def of_tests_def prefix_def simp del: of_tests_simps)
qed

theorem concurrency_limit_respected_witness:
  "\<exists>w r hk. e2etest_run (\<lambda>t. t mod 2) sample_config sample_group sample_sched = (Some (w, r), hk) \<and>
     (\<forall>k. opened (of_tests (included (w_stats w)) (take k (events (w_stats w)))) \<le>
        closed (of_tests (included (w_stats w)) (take k (events (w_stats w)))) + 2)"
proof -
  obtain w where run: "e2etest_run (\<lambda>t. t mod 2) sample_config sample_group sample_sched =
      (Some (w, run_report (w_stats w)), Default_Hook)" by (rule sample_run)
  have "honours_limit (rt_admits sample_sched)" unfolding sample_sched_def by (rule eager_honours_limit)
  from concurrency_limit_respected [OF sample_ok this run take_is_prefix] run show ?thesis
    by (auto simp: sample_config_def config_with_concurrency_def)
qed

text \<open>
  With a limit of one that the runtime honours, and no waiting for the lock of the fixtures, the window
  of concurrent tests does what the sequential loop does, whatever moves the schedule asks for.
\<close>

lemma concurrency_one_is_sequential:
  assumes "\<forall>(c, wait) \<in> set (w_sched w). wait = 0" and "honours_limit (w_admits w)"
  shows "map_option (\<lambda>w. w\<lparr>w_sched := []\<rparr>) (for_each_concurrent d (Some 1) gn ts [] w) =
    for_each d gn ts (w\<lparr>w_sched := []\<rparr>)"
  using window_of_one [of w "[]" "Some 1" d gn ts] assms by (simp add: no_waits_def unscheduled_def [abs_def])

text \<open>
  The steps of a test, taken without interruption, are the code of \<open>run_test\<close>: six steps end
  it with the same statistics and fixtures, or the same panic.
\<close>

lemma test_steps_are_run_test:
  "drive d gn t 6 Test_Start w = map_option (\<lambda>w'. (Test_Done, w')) (run_test d gn t w)"
  by (rule drive_run_test)

section \<open>Selection\<close>

text \<open>
  C14.  A test is chosen exactly when a filter matched a test of its group, and either no filter
  picked single tests of the group or one picked this test.  Tests of the root group itself are
  never chosen.
\<close>

theorem filter_chooses:
  assumes "picks fs names \<noteq> {}"
  shows "consider_test (filter_new fs root names) (root # p) t \<longleftrightarrow> p \<noteq> [] \<and>
    (\<exists>t' whole. (join_path p, t', whole) \<in> picks fs names) \<and>
    ((\<forall>t'. (join_path p, t', False) \<notin> picks fs names) \<or> (join_path p, t, False) \<in> picks fs names)"
proof (cases "p = []")
  case True
  with consider_test_root [OF assms] show ?thesis by simp
next
  case False
  with consider_test_iff [OF assms False] show ?thesis by simp
qed

theorem filter_chooses_witness:
  "consider_test (filter_new [''crud::''] ''r'' [''crud::a'', ''b'']) [''r'', ''crud''] ''a''"
proof -
  have p: "(''crud'', ''a'', True) \<in> picks [''crud::''] [''crud::a'', ''b'']"
  proof -
    have "(''crud'', ''a'') \<in> set (List.map_filter rsplit_once [''crud::a'', ''b''])"
      and "verdict ''crud::'' ''crud'' ''a'' = Some True" by code_simp+
    then show ?thesis by (simp add: picks_def)
  qed
  have no: "(g, t, False) \<notin> picks [''crud::''] [''crud::a'', ''b'']" for g t
  proof -
    have "rsplit_once ''crud::'' = Some (''crud'', [])" by code_simp
    then show ?thesis by (simp add: picks_def verdict_def matcher_new_def)
  qed
  from p have ne: "picks [''crud::''] [''crud::a'', ''b''] \<noteq> {}" by blast
  have "join_path [''crud''] = ''crud''" by code_simp
  with filter_chooses [OF ne, of "''r''" "[''crud'']" "''a''"] p no show ?thesis by auto
qed

text \<open>
  C15.  Filters that match nothing behave like no filter at all: in a tree of uniquely named tests
  without empty groups every test is included.
\<close>

theorem unmatched_filters_include_everything:
  assumes "well_named g" and "no_empty_group g" and "picks (filters c) (test_names g) = {}"
    and "e2etest_run h c g sched = (Some (w, r), hk)"
  shows "included (w_stats w) = defined (w_stats w) \<and> included (w_stats w) \<noteq> {}"
proof -
  have ok: "runnable c g" using assms(1,2) by (simp add: runnable_def)
  note facts = e2etest_run_result [OF ok assms(4)]
  let ?fl = "filter_new (filters c) (g_name g) (test_names g)"
  have fl: "?fl = filter_empty" using assms(3) by (rule filter_new_no_picks)
  have "set (selected filter_empty [] g) = all_names g"
    using chosen_names [OF assms(1), of "run_ctx filter_empty 0 1"] by (simp add: name_chosen_def all_names_def)
  moreover have "selected filter_empty [] g \<noteq> []"
    using no_empty_group_paths [OF assms(2)] by (simp add: selected_filter_empty)
  ultimately show ?thesis
    using facts(2,3) fl by (metis set_empty)
qed

theorem unmatched_filters_include_everything_witness:
  "\<exists>w r hk. e2etest_run (\<lambda>t. t) (config_with_filter ''zzz'' sample_config) sample_group (eager []) = (Some (w, r), hk) \<and>
     included (w_stats w) = defined (w_stats w)"
proof -
  have full: "no_empty_group sample_group" by code_simp
  have none: "picks (filters (config_with_filter ''zzz'' sample_config)) (test_names sample_group) = {}"
  proof -
    have "list_all (\<lambda>(g, t). verdict ''zzz'' g t = None) (List.map_filter rsplit_once (test_names sample_group))"
      by code_simp
    then show ?thesis
      by (auto simp: picks_def list_all_iff config_with_filter_def sample_config_def
          config_with_concurrency_def config_default_def)
  qed
  have ok: "runnable (config_with_filter ''zzz'' sample_config) sample_group"
    using sample_ok(1) full by (simp add: runnable_def)
  obtain w where run: "e2etest_run (\<lambda>t. t) (config_with_filter ''zzz'' sample_config) sample_group (eager []) =
      (Some (w, run_report (w_stats w)), Default_Hook)"
    using e2etest_run_trace [OF ok] by blast
  from unmatched_filters_include_everything [OF sample_ok(1) full none run] run show ?thesis by blast
qed

text \<open>
  A group is entered exactly when some test below it is chosen, so a run never sets up the fixture of
  a group without a test to run.
\<close>

lemma entered_groups_have_chosen_tests:
  assumes "well_named g" and "picks fs (test_names g) \<noteq> {} \<or> no_empty_group g"
  shows "consistent (filter_new fs (g_name g) (test_names g)) [] g"
  using assms by (rule consistent_filter_new)

text \<open>
  Without this condition the assertion of \<open>record\<close> does fail: an empty subgroup makes a run without
  filters panic, and the panic hook stays in place.
\<close>

lemma empty_group_panics:
  "e2etest_run h config_default
     (Group ''r'' sample_leaf [sample_test ''a'' sample_leaf (Ready_After 0)] [Group ''e'' sample_leaf [] []]) (eager []) =
   (None, Backtrace_Hook Log_Hook)" (is "?run = _")
proof -
  have "Option.is_none (fst ?run)" and "snd ?run = Backtrace_Hook Log_Hook" by code_simp+
  then show ?thesis by (simp add: Option.is_none_def prod_eq_iff)
qed

section \<open>Statistics\<close>

text \<open>
  C17.  Of an event of a run, \<open>record\<close> appends exactly the event it is given, when its path allows it:
  for the launch and the outcome of a test the path has to be that of an included test, for events of
  setups and teardowns that of an included test or of a group above one.  Otherwise it panics, leaves
  the log alone and poisons the statistics, after which every call panics.  The events that define and
  include tests, which come before a run, are not meant.
\<close>

theorem record_appends_or_poisons:
  assumes "well_recorded s" and "\<not> is_selection_event ev"
  shows "statistics_record n ev (Free s) =
    (if recordable (included s) n ev
     then (Some (), Free (s\<lparr>events := events s @ [\<lparr>entry_name = n, entry_event = ev\<rparr>]\<rparr>))
     else (None, Poisoned s)) \<and>
    statistics_record n' ev' (Poisoned s) = (None, Poisoned s)"
  using record_event_log [OF well_recorded_finite [OF assms(1)] assms(2), of n]
  by (simp add: statistics_record_def push_event_def)

definition sample_inner :: inner where
  "sample_inner = \<lparr>defined = {''g::a'', ''g::b''}, included = {''g::a'', ''g::b''}, events = []\<rparr>"

theorem record_appends_or_poisons_witness:
  "statistics_record ''g::a'' TestLaunched (Free sample_inner) =
     (Some (), Free (sample_inner\<lparr>events := [\<lparr>entry_name = ''g::a'', entry_event = TestLaunched\<rparr>]\<rparr>)) \<and>
   statistics_record ''g'' TestLaunched (Free sample_inner) = (None, Poisoned sample_inner)"
proof -
  have "well_recorded sample_inner" by (simp add: sample_inner_def well_recorded_def)
  from record_appends_or_poisons [OF this, of TestLaunched "''g::a''"]
    record_appends_or_poisons [OF this, of TestLaunched "''g''"]
  show ?thesis by (simp add: recordable_def sample_inner_def)
qed



text \<open>
  Two logs that are permutations of each other give the same report: it depends on which events
  happened and not on their order.
\<close>

lemma reports_ignore_the_order:
  assumes "defined s = defined s'" and "included s = included s'" and "mset (events s) = mset (events s')"
  shows "debug_fields s = debug_fields s' \<and> is_success s = is_success s' \<and>
    tests_passed_names s = tests_passed_names s' \<and> tests_skipped_names s = tests_skipped_names s' \<and>
    tests_skipped_by_fixture_err_names s = tests_skipped_by_fixture_err_names s' \<and>
    failed_names s = failed_names s'"
proof -
  have same: "same_run s s'" using assms by (simp add: same_run_def)
  have ev: "set (events s) = set (events s')" by (rule set_events_same_run [OF same])
  have names: "set (names_of P s) = set (names_of P s')" for P
    by (simp add: set_names_of ev)
  have belows: "set (names_below e s) = set (names_below e s')" for e
    using ev iter_included_cong [OF assms(2)] by (simp add: names_below_def)
  show ?thesis
    using debug_fields_same_run [OF same] assms(2) ev names belows
    by (auto simp: is_success_def tests_passed_names_def tests_skipped_names_def failed_names_def
        tests_skipped_by_fixture_err_names_def sort_dedup_eq list_ex_iff)
qed

text \<open>
  C19.  The lists of names are sorted and without repetition; the skipped tests are the tests
  skipped themselves and all included tests below a skipped group, and the tests skipped by an error
  those whose own setup failed and all included tests below a group whose setup failed.
\<close>

theorem reported_names:
  assumes "well_recorded s"
  shows "(\<forall>l \<in> {tests_passed_names s, tests_skipped_names s, tests_skipped_by_fixture_err_names s, failed_names s}.
      sorted l \<and> distinct l) \<and>
    set (tests_passed_names s) = {entry_name e | e. e \<in> set (events s) \<and> entry_event e = TestPassed} \<and>
    set (tests_skipped_names s) =
      {entry_name e | e. e \<in> set (events s) \<and> entry_event e = SetupSkipped TaskTest} \<union>
      {i \<in> included s. \<exists>e \<in> set (events s). entry_event e = SetupSkipped TaskGroup \<and> below (entry_name e) i} \<and>
    set (tests_skipped_by_fixture_err_names s) =
      {entry_name e | e. e \<in> set (events s) \<and> entry_event e = SetupFailed TaskTest} \<union>
      {i \<in> included s. \<exists>e \<in> set (events s). entry_event e = SetupFailed TaskGroup \<and> below (entry_name e) i} \<and>
    set (failed_names s) = {entry_name e | e. e \<in> set (events s) \<and> is_failed e}"
  using set_names_below [OF well_recorded_finite [OF assms]]
  by (auto simp: tests_passed_names_def tests_skipped_names_def tests_skipped_by_fixture_err_names_def
      failed_names_def set_names_of)

theorem reported_names_witness:
  "set (tests_skipped_names \<lparr>defined = {''g::a''}, included = {''g::a''},
     events = [\<lparr>entry_name = ''g'', entry_event = SetupSkipped TaskGroup\<rparr>]\<rparr>) = {''g::a''}"
proof -
  have "starts_with ''g::a'' (path_cons ''g'' [])" by code_simp
  then have b: "below ''g'' ''g::a''" by (simp add: below_def)
  then have "well_recorded \<lparr>defined = {''g::a''}, included = {''g::a''},
      events = [\<lparr>entry_name = ''g'', entry_event = SetupSkipped TaskGroup\<rparr>]\<rparr>"
    by (simp add: well_recorded_def recordable_def)
  from reported_names [OF this] b show ?thesis by auto
qed

section \<open>Strings\<close>

text \<open>
  C16.  A filter in double quotes matches exactly the quoted name, an empty one matches everything and
  any other one matches what contains it.
\<close>

theorem matcher_meaning:
  "matches (matcher_new f) x \<longleftrightarrow>
     (if f = [] then True
      else if \<exists>s. f = CHR 0x22 # s @ [CHR 0x22] then f = CHR 0x22 # x @ [CHR 0x22]
      else \<exists>a b. x = a @ f @ b)"
proof -
  let ?inside = "Option.bind (strip_prefix_char (CHR 0x22) f) (strip_suffix_char (CHR 0x22))"
  have inside: "?inside = Some s \<longleftrightarrow> f = CHR 0x22 # s @ [CHR 0x22]" for s
    by (cases f) (auto simp: strip_prefix_char_def strip_suffix_char_def split: if_splits,
        metis append_butlast_last_id)
  show ?thesis
  proof (cases ?inside)
    case None
    then have "\<nexists>s. f = CHR 0x22 # s @ [CHR 0x22]" using inside by (metis option.distinct(1))
    with None show ?thesis
      by (simp add: matcher_new_def contains_str_sublist sublist_def)
  next
    case (Some s)
    then have f: "f = CHR 0x22 # s @ [CHR 0x22]" using inside by blast
    then have "matcher_new f = Match_Exact s"
      by (simp add: matcher_new_def strip_prefix_char_def strip_suffix_char_def)
    then show ?thesis using f by auto
  qed
qed

section \<open>The tests of the crate\<close>

text \<open>
  The model passes the tests that the crate has: the integration tests and the example of the
  documentation for every order of the hash maps and every schedule (the test of the concurrency for
  a schedule of its own, in which the pauses of its bodies end in turn), and the unit tests of the
  filter, the statistics and the groups.
\<close>

lemma own_tests_pass:
  "empty_test h sched \<and> skip_test h sched \<and> timeout_test h sched \<and> filter_by_group h sched \<and>
   filter_by_test h sched \<and> run_root1 h sched \<and> names_hierarchy_root2 \<and> run_hierarchy_root2 h sched \<and>
   concurrency_test h concurrency_sched concurrency_wakes \<and> doc_example h sched \<and>
   test_no_filters_runs_all \<and> test_empty_filters_runs_all \<and> test_group_partial_match \<and>
   test_test_case_partial_match \<and> test_group_and_test_case_syntax \<and> test_group_and_empty_test_case_syntax \<and>
   test_empty_group_and_test_case_syntax \<and> test_exact_group_match_syntax \<and>
   test_exact_test_case_match_syntax \<and> test_exact_group_and_test_case_syntax \<and>
   failing \<and> calculations \<and> collects_failed_test_names (\<lambda>t. t) sched"
  by (intro conjI integration_tests_pass filter_tests_pass statistics_tests_pass group_tests_pass)

end
